(* ===== verification/Gateway_Prelude.thy ===== *)
theory Gateway_Prelude
  imports Complex_Main "HOL-Library.Word"
begin

text \<open>
  Shared vocabulary of the development: Go's machine types, the two ways a goroutine can
  get stuck (a panic, a second lock of a mutex it already holds), slices and \<open>copy\<close>,
  the big- and little-endian readers of \<open>encoding/binary\<close>, and the list and word lemmas the
  components share.
\<close>

unbundle bit_operations_syntax

named_theorems slice_simps \<open>slices, copies and their lengths\<close>

section \<open>Machine types and stuck computations\<close>

type_synonym byte = "8 word"
type_synonym u16 = "16 word"
type_synonym u32 = "32 word"
type_synonym u64 = "64 word"

text \<open>
  A Go computation either returns, or panics (an index out of range), or blocks for ever on
  a mutex that its own goroutine holds (Go's \<open>sync.Mutex\<close> is not re-entrant).
\<close>

datatype stuck = Deadlock | Panic

type_synonym 'a go = "stuck + 'a"

section \<open>Slices\<close>

definition sub_slice :: "nat \<Rightarrow> nat \<Rightarrow> 'a list \<Rightarrow> 'a list" where
  "sub_slice i j xs = take (j - i) (drop i xs)"

text \<open>Go's \<open>xs[i:j]\<close> panics unless \<open>i <= j <= cap(xs)\<close>; the slices here have \<open>cap = len\<close>.\<close>

definition go_slice :: "'a list \<Rightarrow> nat \<Rightarrow> nat \<Rightarrow> 'a list go" where
  "go_slice xs i j = (if i \<le> j \<and> j \<le> length xs then Inr (sub_slice i j xs) else Inl Panic)"

text \<open>Go's \<open>copy(dst, src)\<close> moves \<open>min(len(dst), len(src))\<close> elements.\<close>

definition go_copy :: "'a list \<Rightarrow> 'a list \<Rightarrow> 'a list" where
  "go_copy dst src = take (length dst) src @ drop (length src) dst"

text \<open>\<open>copy(xs[off:], src)\<close> as an update of \<open>xs\<close>; slicing past the end panics.\<close>

definition copy_at :: "'a list \<Rightarrow> nat \<Rightarrow> 'a list \<Rightarrow> 'a list go" where
  "copy_at xs off src =
     (if off \<le> length xs then Inr (take off xs @ go_copy (drop off xs) src) else Inl Panic)"

lemma go_slice_ok [slice_simps]:
  "i \<le> j \<Longrightarrow> j \<le> length xs \<Longrightarrow> go_slice xs i j = Inr (sub_slice i j xs)"
  by (simp add: go_slice_def)

lemma length_slice [slice_simps]: "length (sub_slice i j xs) = min (length xs - i) (j - i)"
  by (simp add: sub_slice_def min.commute)

lemma length_go_copy [slice_simps]: "length (go_copy dst src) = length dst"
  by (simp add: go_copy_def)

lemma copy_at_length: "copy_at xs off src = Inr ys \<Longrightarrow> length ys = length xs"
  by (auto simp: copy_at_def length_go_copy split: if_splits)

lemma slice_take_drop: "sub_slice i j xs = drop i (take j xs)"
  by (simp add: sub_slice_def drop_take)

text \<open>Appending behind a window: the window grows by the copied bytes.\<close>

lemma slice_copy_at:
  assumes "i \<le> j" and "j + length src \<le> length xs"
  shows "\<exists>ys. copy_at xs j src = Inr ys \<and> length ys = length xs
           \<and> sub_slice i (j + length src) ys = sub_slice i j xs @ src"
proof -
  let ?ys = "take j xs @ go_copy (drop j xs) src"
  have ys: "copy_at xs j src = Inr ?ys" and len: "length ?ys = length xs"
    using assms by (auto simp: copy_at_def length_go_copy)
  have "go_copy (drop j xs) src = src @ drop (j + length src) xs"
    using assms by (simp add: go_copy_def add.commute)
  then have "sub_slice i (j + length src) ?ys = sub_slice i j xs @ src"
    using assms by (simp add: slice_take_drop)
  with ys len show ?thesis by blast
qed

lemma slice_go_copy_front:
  assumes "i \<le> j" and "j \<le> length xs"
  shows "sub_slice 0 (j - i) (go_copy xs (sub_slice i j xs)) = sub_slice i j xs"
  using assms by (simp add: sub_slice_def go_copy_def)

lemma slice_slice:
  assumes "i + m \<le> j"
  shows "sub_slice i (i + m) xs = take m (sub_slice i j xs)"
  using assms by (simp add: sub_slice_def min_def)

lemma slice_nested:
  "r + j \<le> w \<Longrightarrow> sub_slice i j (sub_slice r w xs) = sub_slice (r + i) (r + j) xs"
  by (simp add: slice_take_drop take_drop min_def add.commute)

lemma slice_drop:
  "sub_slice (i + m) j xs = drop m (sub_slice i j xs)"
  by (simp add: sub_slice_def drop_take add.commute)

lemma take_drop_append:
  "i + n \<le> length xs \<Longrightarrow> take n (drop i (xs @ ys)) = take n (drop i xs)"
  by simp

section \<open>Conversion of floating-point numbers\<close>

text \<open>\<open>float64\<close> values are modelled as exact reals; \<open>int(x)\<close> truncates toward zero.\<close>

definition go_trunc :: "real \<Rightarrow> int" where
  "go_trunc x = (if 0 \<le> x then \<lfloor>x\<rfloor> else \<lceil>x\<rceil>)"

lemma go_trunc_nonneg: "0 \<le> x \<Longrightarrow> go_trunc x = \<lfloor>x\<rfloor>"
  by (simp add: go_trunc_def)

section \<open>Loops over index ranges\<close>

lemma foldl_invar:
  "P acc \<Longrightarrow> (\<And>acc x. x \<in> set xs \<Longrightarrow> P acc \<Longrightarrow> P (f acc x)) \<Longrightarrow> P (foldl f acc xs)"
  by (induction xs arbitrary: acc) auto

text \<open>Rows of the same length in one list.\<close>

lemma length_concat_rows:
  "(\<And>i. i < n \<Longrightarrow> length (f i) = m) \<Longrightarrow> length (concat (map f [0..<n])) = n * m"
  by (induction n) auto

lemma nth_concat_rows:
  assumes "\<And>i. i < n \<Longrightarrow> length (f i) = m" and "i < n" and "j < m"
  shows "concat (map f [0..<n]) ! (i * m + j) = f i ! j"
  using assms
proof (induction n arbitrary: i)
  case (Suc n)
  have len: "length (concat (map f [0..<n])) = n * m"
    using Suc.prems(1) by (intro length_concat_rows) simp
  show ?case
  proof (cases "i < n")
    case True
    then have "i * m + j < n * m"
      using Suc.prems(3) mult_le_mono1 [of "Suc i" n m] by simp
    with True Suc len show ?thesis by (simp add: nth_append)
  next
    case False
    with Suc.prems len show ?thesis by (simp add: nth_append less_Suc_eq)
  qed
qed simp

section \<open>Fixed-width integers in byte order\<close>

text \<open>
  \<open>binary.BigEndian.UintN\<close> and \<open>binary.LittleEndian.UintN\<close> read the first \<open>N/8\<close> bytes of a
  slice; the callers pass slices of exactly that length.
\<close>

definition be_nat :: "byte list \<Rightarrow> nat" where
  "be_nat bs = foldl (\<lambda>acc b. acc * 256 + unat b) 0 bs"

definition be_word :: "byte list \<Rightarrow> 'a::len word" where
  "be_word bs = word_of_nat (be_nat bs)"

definition le_word :: "byte list \<Rightarrow> 'a::len word" where
  "le_word bs = be_word (rev bs)"

lemma be_nat_Nil [simp]: "be_nat [] = 0"
  by (simp add: be_nat_def)

lemma be_nat_snoc [simp]: "be_nat (bs @ [b]) = be_nat bs * 256 + unat b"
  by (simp add: be_nat_def)

lemma unat_byte_less: "unat (b :: byte) < 256"
  using unsigned_less [of b] by simp

lemma be_nat_bound: "be_nat bs < 256 ^ length bs"
proof (induction bs rule: rev_induct)
  case Nil
  show ?case by simp
next
  case (snoc b bs)
  from unat_byte_less [of b] have "be_nat (bs @ [b]) < (be_nat bs + 1) * 256"
    by simp
  also have "\<dots> \<le> 256 ^ length bs * 256"
    using snoc.IH by (intro mult_le_mono1) simp
  finally show ?case by simp
qed

lemma unat_be_word:
  "256 ^ length bs \<le> (2 :: nat) ^ LENGTH('a::len) \<Longrightarrow> unat (be_word bs :: 'a word) = be_nat bs"
  using be_nat_bound [of bs]
  by (simp add: be_word_def unat_of_nat)

end
