(* ===== verification/Byte_Reader.thy ===== *)
theory Byte_Reader
  imports Gateway_Prelude
begin

text \<open>
  \<open>ByteReader\<close> of \<open>internal/framing/assembler.go\<close>: a cursor over a byte slice with
  big-endian reads that report an error when the slice is exhausted.
\<close>

record byte_reader =
  br_data :: "byte list"
  br_offset :: nat

datatype read_error = NotEnoughData nat

definition NewByteReader :: "byte list \<Rightarrow> byte_reader" where
  "NewByteReader data = \<lparr>br_data = data, br_offset = 0\<rparr>"

text \<open>
  The three readers share one shape, \<open>n\<close> bytes read as an unsigned integer. Go returns the
  pair of a value and an error; the value is 0 when the error is set.
\<close>

definition read_be :: "nat \<Rightarrow> byte_reader \<Rightarrow> ('a::len word \<times> read_error option) \<times> byte_reader" where
  "read_be n r =
     (if br_offset r + n > length (br_data r) then ((0, Some (NotEnoughData n)), r)
      else ((be_word (sub_slice (br_offset r) (br_offset r + n) (br_data r)), None),
            r\<lparr>br_offset := br_offset r + n\<rparr>))"

definition ReadUint32BE :: "byte_reader \<Rightarrow> (u32 \<times> read_error option) \<times> byte_reader" where
  "ReadUint32BE = read_be 4"

definition ReadUint16BE :: "byte_reader \<Rightarrow> (u16 \<times> read_error option) \<times> byte_reader" where
  "ReadUint16BE = read_be 2"

definition ReadUint64BE :: "byte_reader \<Rightarrow> (u64 \<times> read_error option) \<times> byte_reader" where
  "ReadUint64BE = read_be 8"

definition Remaining :: "byte_reader \<Rightarrow> nat" where
  "Remaining r = length (br_data r) - br_offset r"

lemma read_be_ok:
  "br_offset r + n \<le> length (br_data r) \<Longrightarrow>
     read_be n r = ((be_word (sub_slice (br_offset r) (br_offset r + n) (br_data r)), None),
                    r\<lparr>br_offset := br_offset r + n\<rparr>)"
  by (simp add: read_be_def)

lemma read_be_error:
  "length (br_data r) < br_offset r + n \<Longrightarrow> read_be n r = ((0, Some (NotEnoughData n)), r)"
  by (simp add: read_be_def)

lemmas byte_reader_simps =
  NewByteReader_def ReadUint32BE_def ReadUint16BE_def ReadUint64BE_def Remaining_def read_be_ok

end
