(* ===== verification/Stream_Spec.thy ===== *)
theory Stream_Spec
  imports Gateway_Prelude
begin

text \<open>
  The contract of the sonar framing, free of buffers and states: a byte stream is cut at
  the first sync word into the next event, which is a frame or a header with a bad length.
  The sliding-window assembler of \<open>Frame_Assembler\<close> refines this parser.
\<close>

section \<open>Constants of the wire format (assembler.go)\<close>

definition MaxFrameSize :: nat where "MaxFrameSize = 65535"
definition MinFrameSize :: nat where "MinFrameSize = 40"
definition SyncWordSize :: nat where "SyncWordSize = 4"
definition HeaderByteSize :: nat where "HeaderByteSize = 20"
definition SyncMagicBytes :: u32 where "SyncMagicBytes = 0x534F4E52"

lemmas frame_consts = MaxFrameSize_def MinFrameSize_def SyncWordSize_def HeaderByteSize_def

section \<open>Sync words in a byte sequence\<close>

definition sync_at :: "byte list \<Rightarrow> nat \<Rightarrow> bool" where
  "sync_at bs i \<longleftrightarrow>
     i + SyncWordSize \<le> length bs
   \<and> be_word (sub_slice i (i + SyncWordSize) bs) = SyncMagicBytes"

fun find_sync :: "byte list \<Rightarrow> nat option" where
  "find_sync [] = None"
| "find_sync (b # bs) =
     (if sync_at (b # bs) 0 then Some 0 else map_option Suc (find_sync bs))"

lemma sync_at_Nil [simp]: "\<not> sync_at [] i"
  by (simp add: sync_at_def SyncWordSize_def)

lemma sync_at_Suc [simp]: "sync_at (b # bs) (Suc i) = sync_at bs i"
  by (simp add: sync_at_def sub_slice_def)

lemma sync_at_append: "i + SyncWordSize \<le> length s \<Longrightarrow> sync_at (s @ t) i = sync_at s i"
  by (simp add: sync_at_def sub_slice_def)

lemma sync_at_drop: "sync_at (drop k s) i = sync_at s (k + i)"
  by (auto simp: sync_at_def sub_slice_def SyncWordSize_def add.commute add.left_commute)

lemma sync_at_bound: "sync_at s i \<Longrightarrow> i + SyncWordSize \<le> length s"
  by (simp add: sync_at_def)

lemma sync_at_prefix: "sync_at s i \<Longrightarrow> sync_at (s @ t) i"
  using sync_at_append sync_at_bound by blast

lemma find_sync_None: "find_sync s = None \<longleftrightarrow> (\<forall>i. \<not> sync_at s i)"
proof (induction s)
  case Nil
  show ?case by simp
next
  case (Cons b bs)
  have "(\<forall>i. \<not> sync_at (b # bs) i) \<longleftrightarrow> \<not> sync_at (b # bs) 0 \<and> (\<forall>i. \<not> sync_at bs i)"
    by (metis sync_at_Suc not0_implies_Suc)
  with Cons.IH show ?case by simp
qed

lemma find_sync_Some:
  "find_sync s = Some i \<longleftrightarrow> sync_at s i \<and> (\<forall>j < i. \<not> sync_at s j)"
proof (induction s arbitrary: i)
  case Nil
  show ?case by simp
next
  case (Cons b bs)
  show ?case
  proof (cases i)
    case 0
    then show ?thesis by simp
  next
    case (Suc k)
    then show ?thesis
      using Cons.IH [of k] by (auto simp: less_Suc_eq_0_disj)
  qed
qed

lemma find_sync_0: "sync_at s 0 \<Longrightarrow> find_sync s = Some 0"
  by (simp add: find_sync_Some)

lemma find_sync_append: "find_sync s = Some i \<Longrightarrow> find_sync (s @ t) = Some i"
proof -
  assume "find_sync s = Some i"
  then have i: "sync_at s i" "\<forall>j < i. \<not> sync_at s j"
    by (auto simp: find_sync_Some)
  then have "\<forall>j < i. \<not> sync_at (s @ t) j"
    using sync_at_bound [OF i(1)] by (auto simp: sync_at_append)
  with i(1) show ?thesis
    by (auto simp: find_sync_Some sync_at_prefix)
qed

section \<open>The next event of a stream\<close>

text \<open>
  A header's length field is compared as \<open>uint16\<close>: the code converts its \<open>int\<close> bounds with
  \<open>uint16(...)\<close>, which truncates.
\<close>

definition valid_length :: "nat \<Rightarrow> u16 \<Rightarrow> bool" where
  "valid_length maxSize L \<longleftrightarrow>
     \<not> (L < (word_of_nat MinFrameSize :: u16) \<or> L > (word_of_nat maxSize :: u16))"

definition length_field :: "byte list \<Rightarrow> u16" where
  "length_field bs = be_word (sub_slice 4 6 bs)"

datatype event = FrameEvent "byte list" | BadLength u16

datatype scan = Wait "byte list" | Emit event "byte list"

definition next_event :: "nat \<Rightarrow> byte list \<Rightarrow> scan" where
  "next_event maxSize s =
     (case find_sync s of
        None \<Rightarrow> Wait s
      | Some i \<Rightarrow>
          (let s' = drop i s; L = length_field s' in
           if length s' < HeaderByteSize then Wait s'
           else if \<not> valid_length maxSize L then Emit (BadLength L) (drop 1 s')
           else if length s' < unat L then Wait s'
           else Emit (FrameEvent (take (unat L) s')) (drop (unat L) s')))"

lemma valid_length_min: "valid_length maxSize L \<Longrightarrow> 40 \<le> unat L"
  by (simp add: valid_length_def MinFrameSize_def word_le_nat_alt linorder_not_less)

lemma valid_length_max: "valid_length maxSize L \<Longrightarrow> unat L \<le> maxSize"
proof -
  assume "valid_length maxSize L"
  then have "unat L \<le> unat (word_of_nat maxSize :: u16)"
    by (simp add: valid_length_def word_le_nat_alt linorder_not_less)
  also have "\<dots> \<le> maxSize"
    by (simp add: unat_of_nat)
  finally show ?thesis .
qed

lemma length_field_append: "6 \<le> length s \<Longrightarrow> length_field (s @ t) = length_field s"
  by (simp add: length_field_def sub_slice_def)

lemma next_event_shrinks:
  assumes "next_event maxSize s = Emit ev r"
  shows "length r < length s"
proof -
  obtain i where i: "find_sync s = Some i"
    using assms by (auto simp: next_event_def split: option.splits)
  then have "i + SyncWordSize \<le> length s"
    by (simp add: find_sync_Some sync_at_bound)
  with i assms show ?thesis
    using valid_length_min [of maxSize "length_field (drop i s)"]
    by (auto simp: next_event_def Let_def frame_consts split: if_splits)
qed

text \<open>Cutting a stream is stable under more input: an event found stays found.\<close>

lemma next_event_append:
  assumes "next_event maxSize s = Emit ev r"
  shows "next_event maxSize (s @ t) = Emit ev (r @ t)"
proof -
  obtain i where i: "find_sync s = Some i"
    using assms by (auto simp: next_event_def split: option.splits)
  have fs: "find_sync (s @ t) = Some i"
    using i by (rule find_sync_append)
  have "i \<le> length s"
    using i sync_at_bound by (fastforce simp: find_sync_Some)
  moreover have "HeaderByteSize \<le> length (drop i s)"
    using assms i by (auto simp: next_event_def Let_def split: if_splits)
  ultimately show ?thesis
    using assms i fs length_field_append [of "drop i s" t]
    by (auto simp: next_event_def Let_def frame_consts split: if_splits)
qed

lemma next_event_wait_append:
  assumes "next_event maxSize s = Wait r"
  shows "next_event maxSize (s @ t) = next_event maxSize (r @ t)"
proof (cases "find_sync s")
  case None
  with assms show ?thesis by (simp add: next_event_def)
next
  case (Some i)
  have r: "r = drop i s"
    using assms Some by (auto simp: next_event_def Let_def split: if_splits)
  have i: "i \<le> length s" "sync_at s i"
    using Some sync_at_bound by (fastforce simp: find_sync_Some)+
  have "find_sync (s @ t) = Some i"
    using Some by (rule find_sync_append)
  moreover have "find_sync (drop i s @ t) = Some 0"
    using i sync_at_drop [of i s 0] sync_at_prefix find_sync_0 by simp
  ultimately show ?thesis
    using i r by (simp add: next_event_def)
qed

section \<open>Parsing a whole stream\<close>

function parse :: "nat \<Rightarrow> byte list \<Rightarrow> event list \<times> byte list" where
  "parse maxSize s =
     (case next_event maxSize s of
        Wait r \<Rightarrow> ([], r)
      | Emit ev r \<Rightarrow> (let (evs, r') = parse maxSize r in (ev # evs, r')))"
  by pat_completeness auto
termination
  by (relation "measure (\<lambda>(m, s). length s)") (auto intro: next_event_shrinks)

declare parse.simps [simp del]

lemma parse_wait: "next_event m s = Wait r \<Longrightarrow> parse m s = ([], r)"
  by (simp add: parse.simps)

lemma parse_emit:
  "next_event m s = Emit ev r \<Longrightarrow> parse m s = (ev # fst (parse m r), snd (parse m r))"
  by (simp add: parse.simps [of m s] split: prod.splits)

lemma parse_cong: "next_event m s = next_event m s' \<Longrightarrow> parse m s = parse m s'"
  by (simp add: parse.simps [of m s] parse.simps [of m s'])

lemma parse_append:
  "parse m (s @ t) =
     (fst (parse m s) @ fst (parse m (snd (parse m s) @ t)), snd (parse m (snd (parse m s) @ t)))"
proof (induction m s rule: parse.induct)
  case (1 m s)
  show ?case
  proof (cases "next_event m s")
    case (Wait r)
    then have "parse m (s @ t) = parse m (r @ t)"
      using next_event_wait_append [of m s r t]
      by (simp add: parse.simps [of m "s @ t"] parse.simps [of m "r @ t"])
    with Wait show ?thesis by (simp add: parse_wait)
  next
    case (Emit ev r)
    then have "next_event m (s @ t) = Emit ev (r @ t)"
      by (rule next_event_append)
    with Emit "1.IH" [OF Emit] show ?thesis
      by (simp add: parse_emit)
  qed
qed

text \<open>What is left after parsing holds no further event.\<close>

definition settled :: "nat \<Rightarrow> byte list \<Rightarrow> bool" where
  "settled m s \<longleftrightarrow> next_event m s = Wait s"

lemma settled_Nil: "settled m []"
  by (simp add: settled_def next_event_def)

lemma settled_parse: "settled m s \<Longrightarrow> parse m s = ([], s)"
  by (simp add: settled_def parse_wait)

lemma parse_settled: "settled m (snd (parse m s))"
proof (induction m s rule: parse.induct)
  case (1 m s)
  show ?case
  proof (cases "next_event m s")
    case (Wait r)
    then have "next_event m r = Wait r"
      using next_event_wait_append [of m s r "[]"] by simp
    then show ?thesis
      by (simp add: parse_wait [OF Wait] settled_def)
  next
    case (Emit ev r)
    then show ?thesis using "1.IH" [OF Emit] by (simp add: parse_emit)
  qed
qed

text \<open>Only the frames of an event list.\<close>

fun frames_of :: "event list \<Rightarrow> byte list list" where
  "frames_of [] = []"
| "frames_of (FrameEvent f # evs) = f # frames_of evs"
| "frames_of (BadLength L # evs) = frames_of evs"

lemma frames_of_append [simp]: "frames_of (xs @ ys) = frames_of xs @ frames_of ys"
  by (induction xs rule: frames_of.induct) auto

section \<open>Well-formed frames\<close>

definition wf_frame :: "nat \<Rightarrow> byte list \<Rightarrow> bool" where
  "wf_frame maxSize f \<longleftrightarrow>
     sync_at f 0 \<and> HeaderByteSize \<le> length f
   \<and> length f = unat (length_field f) \<and> valid_length maxSize (length_field f)"

lemma wf_frame_length: "wf_frame m f \<Longrightarrow> 40 \<le> length f \<and> length f \<le> m"
  using valid_length_min valid_length_max by (auto simp: wf_frame_def)

lemma next_event_wf_frame:
  assumes "wf_frame m f"
  shows "next_event m (f @ t) = Emit (FrameEvent f) t"
proof -
  have "find_sync (f @ t) = Some 0"
    using assms by (auto simp: wf_frame_def intro: find_sync_0 sync_at_prefix)
  moreover have "length_field (f @ t) = length_field f"
    using assms by (intro length_field_append) (simp add: wf_frame_def HeaderByteSize_def)
  moreover have "unat (length_field f) = length f"
    using assms by (simp add: wf_frame_def)
  ultimately show ?thesis
    using assms by (simp add: next_event_def Let_def wf_frame_def)
qed

text \<open>A proper prefix of a well-formed frame never yields an event.\<close>

lemma next_event_partial_frame:
  assumes wf: "wf_frame m (p @ q)" and q: "q \<noteq> []"
  shows "next_event m p = Wait p"
proof (cases "find_sync p")
  case None
  then show ?thesis by (simp add: next_event_def)
next
  case (Some i)
  then have p4: "SyncWordSize \<le> length p"
    using sync_at_bound [of p i] by (simp add: find_sync_Some)
  then have "sync_at p 0"
    using wf sync_at_append [of 0 p q] by (simp add: wf_frame_def)
  then have s: "find_sync p = Some 0" by (rule find_sync_0)
  show ?thesis
  proof (cases "length p < HeaderByteSize")
    case True
    with s show ?thesis by (simp add: next_event_def Let_def)
  next
    case False
    then have "length_field p = length_field (p @ q)"
      by (simp add: length_field_append frame_consts)
    moreover have "length p < unat (length_field (p @ q))"
    proof -
      have "length (p @ q) = unat (length_field (p @ q))"
        using wf by (simp only: wf_frame_def)
      with q show ?thesis by (cases q) auto
    qed
    ultimately show ?thesis
      using s wf by (simp add: next_event_def Let_def wf_frame_def)
  qed
qed

lemma parse_wf_frame:
  "wf_frame m f \<Longrightarrow> parse m (f @ t) = (FrameEvent f # fst (parse m t), snd (parse m t))"
  by (simp add: parse_emit [OF next_event_wf_frame])

lemma parse_wf_frames:
  "list_all (wf_frame m) fs \<Longrightarrow>
     parse m (concat fs @ t) = (map FrameEvent fs @ fst (parse m t), snd (parse m t))"
  by (induction fs) (auto simp: parse_wf_frame)

end
