(* ===== verification/Frame_Assembler.thy ===== *)
theory Frame_Assembler
  imports Byte_Reader Stream_Spec
begin

text \<open>
  \<open>SlidingWindowAssembler\<close> of \<open>internal/framing/assembler.go\<close>: the record of its fields and one
  definition per method. \<open>Assembler_Correct\<close> has the invariant that the methods keep and the
  proof that feeding bytes refines the stream parser of \<open>Stream_Spec\<close>.

  The mutex is the flag \<open>a_mu\<close>: locking a locked mutex is \<open>Inl Deadlock\<close>. The two function
  fields \<open>onFrame\<close> and \<open>onError\<close> are kept in a record of their own (\<open>callbacks\<close>) because they
  take the assembler; \<open>'w\<close> is the state they work on. Positions are \<open>nat\<close>: they lie between 0
  and the capacity, which \<open>asm_inv\<close> proves.
\<close>

section \<open>State\<close>

datatype FrameState = StateWaitSync | StateReadHeader | StateReadPayload | StateFrameReady

text \<open>\<open>FrameState.String\<close>; its default case is not a state of the machine.\<close>

fun FrameState_String :: "FrameState \<Rightarrow> string" where
  "FrameState_String StateWaitSync = ''WAIT_SYNC''"
| "FrameState_String StateReadHeader = ''READ_HEADER''"
| "FrameState_String StateReadPayload = ''READ_PAYLOAD''"
| "FrameState_String StateFrameReady = ''FRAME_READY''"

record AssemblerStats =
  BytesFed :: u64
  SyncFound :: u64
  HeaderParsed :: u64
  FramesCompleted :: u64
  ResyncEvents :: u64
  InvalidLength :: u64
  Overruns :: u64
  Truncated :: u64

definition zero_stats :: AssemblerStats where
  "zero_stats = \<lparr>BytesFed = 0, SyncFound = 0, HeaderParsed = 0, FramesCompleted = 0,
     ResyncEvents = 0, InvalidLength = 0, Overruns = 0, Truncated = 0\<rparr>"

record assembler =
  a_buf :: "byte list"
  a_capacity :: nat
  a_readPos :: nat
  a_writePos :: nat
  a_state :: FrameState
  a_maxSize :: nat
  a_minSize :: nat
  a_expectedPayloadLen :: nat
  a_packetLenField :: u16
  a_syncScanOffset :: nat
  a_stats :: AssemblerStats
  a_mu :: bool
  a_debugLog :: bool

datatype 'e asm_error =
    BufferOverrun nat nat nat
  | SyncNotFound nat
  | InvalidPacketLength u16 nat nat
  | FrameHandlerError 'e

record ('w, 'e) callbacks =
  onFrame :: "(byte list \<Rightarrow> assembler \<Rightarrow> 'w \<Rightarrow> ('e option \<times> assembler \<times> 'w) go) option"
  onError :: "('e asm_error \<Rightarrow> assembler \<Rightarrow> 'w \<Rightarrow> (assembler \<times> 'w) go) option"

definition no_callbacks :: "('w, 'e) callbacks" where
  "no_callbacks = \<lparr>onFrame = None, onError = None\<rparr>"

definition NewSlidingWindowAssembler :: "int \<Rightarrow> assembler" where
  "NewSlidingWindowAssembler maxSize =
     (let m = (if maxSize \<le> 0 then MaxFrameSize else nat maxSize); cap = m * 4 in
      \<lparr>a_buf = replicate cap 0, a_capacity = cap, a_readPos = 0, a_writePos = 0,
       a_state = StateWaitSync, a_maxSize = m, a_minSize = MinFrameSize,
       a_expectedPayloadLen = 0, a_packetLenField = 0, a_syncScanOffset = 0,
       a_stats = zero_stats, a_mu = False, a_debugLog = False\<rparr>)"

section \<open>Locked and unlocked operations\<close>

text \<open>The guard of every exported method: take the mutex, run the body, release it.\<close>

definition lock :: "assembler \<Rightarrow> assembler go" where
  "lock a = (if a_mu a then Inl Deadlock else Inr (a\<lparr>a_mu := True\<rparr>))"

definition unlock :: "assembler \<Rightarrow> assembler" where
  "unlock a = a\<lparr>a_mu := False\<rparr>"

definition SetFrameHandler ::
    "(byte list \<Rightarrow> assembler \<Rightarrow> 'w \<Rightarrow> ('e option \<times> assembler \<times> 'w) go) \<Rightarrow>
     assembler \<Rightarrow> ('w, 'e) callbacks \<Rightarrow> (('w, 'e) callbacks) go" where
  "SetFrameHandler handler a cb =
     (case lock a of Inl s \<Rightarrow> Inl s | Inr _ \<Rightarrow> Inr (cb\<lparr>onFrame := Some handler\<rparr>))"

definition SetErrorHandler ::
    "('e asm_error \<Rightarrow> assembler \<Rightarrow> 'w \<Rightarrow> (assembler \<times> 'w) go) \<Rightarrow>
     assembler \<Rightarrow> ('w, 'e) callbacks \<Rightarrow> (('w, 'e) callbacks) go" where
  "SetErrorHandler handler a cb =
     (case lock a of Inl s \<Rightarrow> Inl s | Inr _ \<Rightarrow> Inr (cb\<lparr>onError := Some handler\<rparr>))"

definition SetDebug :: "bool \<Rightarrow> assembler \<Rightarrow> assembler" where
  "SetDebug enabled a = a\<lparr>a_debugLog := enabled\<rparr>"

definition Stats :: "assembler \<Rightarrow> AssemblerStats go" where
  "Stats a = (case lock a of Inl s \<Rightarrow> Inl s | Inr a' \<Rightarrow> Inr (a_stats a'))"

definition resetLocked :: "assembler \<Rightarrow> assembler" where
  "resetLocked a = a\<lparr>a_readPos := 0, a_writePos := 0, a_state := StateWaitSync,
     a_expectedPayloadLen := 0, a_packetLenField := 0, a_syncScanOffset := 0\<rparr>"

definition Reset :: "assembler \<Rightarrow> assembler go" where
  "Reset a = (case lock a of Inl s \<Rightarrow> Inl s | Inr a' \<Rightarrow> Inr (unlock (resetLocked a')))"

definition available :: "assembler \<Rightarrow> nat" where
  "available a = a_writePos a - a_readPos a"

definition compactIfNeeded :: "assembler \<Rightarrow> assembler go" where
  "compactIfNeeded a =
     (if a_readPos a > 0 \<and> available a < a_capacity a div 4 then
        (case (if available a > 0
               then (case go_slice (a_buf a) (a_readPos a) (a_writePos a) of
                       Inl s \<Rightarrow> Inl s
                     | Inr src \<Rightarrow> Inr (go_copy (a_buf a) src))
               else Inr (a_buf a)) of
           Inl s \<Rightarrow> Inl s
         | Inr b \<Rightarrow> Inr (a\<lparr>a_buf := b, a_writePos := a_writePos a - a_readPos a,
                            a_readPos := 0\<rparr>))
      else Inr a)"

text \<open>Calling a function field that may be nil.\<close>

definition call_onFrame ::
    "('w, 'e) callbacks \<Rightarrow> byte list \<Rightarrow> assembler \<Rightarrow> 'w \<Rightarrow> ('e option \<times> assembler \<times> 'w) go" where
  "call_onFrame cb frame a w =
     (case onFrame cb of None \<Rightarrow> Inr (None, a, w) | Some h \<Rightarrow> h frame a w)"

definition call_onError ::
    "('w, 'e) callbacks \<Rightarrow> 'e asm_error \<Rightarrow> assembler \<Rightarrow> 'w \<Rightarrow> (assembler \<times> 'w) go" where
  "call_onError cb err a w =
     (case onError cb of None \<Rightarrow> Inr (a, w) | Some h \<Rightarrow> h err a w)"

section \<open>The state machine\<close>

text \<open>
  The scan loop \<open>for i := scanStart; i <= maxScan; i++\<close>. Slicing \<open>a.buf[i:i+4]\<close> past the end
  of the buffer would panic.
\<close>

function scan_sync :: "byte list \<Rightarrow> nat \<Rightarrow> nat \<Rightarrow> nat option go" where
  "scan_sync buf i maxScan =
     (if i \<le> maxScan then
        (case go_slice buf i (i + SyncWordSize) of
           Inl s \<Rightarrow> Inl s
         | Inr word \<Rightarrow>
             if be_word word = SyncMagicBytes then Inr (Some i)
             else scan_sync buf (Suc i) maxScan)
      else Inr None)"
  by pat_completeness auto
termination
  by (relation "measure (\<lambda>(buf, i, m). Suc m - i)") auto

declare scan_sync.simps [simp del]

definition handleWaitSyncLocked ::
    "('w, 'e) callbacks \<Rightarrow> assembler \<Rightarrow> 'w \<Rightarrow> (bool \<times> assembler \<times> 'w) go" where
  "handleWaitSyncLocked cb a w =
     (if available a < SyncWordSize then Inr (False, a, w)
      else
        (let scanStart = a_readPos a + a_syncScanOffset a;
             maxScan = a_writePos a - SyncWordSize
         in case scan_sync (a_buf a) scanStart maxScan of
              Inl s \<Rightarrow> Inl s
            | Inr (Some i) \<Rightarrow>
                Inr (True, a\<lparr>a_readPos := i, a_syncScanOffset := 0, a_state := StateReadHeader,
                             a_stats := (a_stats a)\<lparr>SyncFound := SyncFound (a_stats a) + 1\<rparr>\<rparr>, w)
            | Inr None \<Rightarrow>
                if a_writePos a > a_capacity a div 2 then
                  (let a1 = a\<lparr>a_stats := (a_stats a)\<lparr>ResyncEvents := ResyncEvents (a_stats a) + 1\<rparr>\<rparr>
                   in case call_onError cb (SyncNotFound (available a1)) a1 w of
                        Inl s \<Rightarrow> Inl s
                      | Inr (a2, w2) \<Rightarrow> Inr (False, resetLocked a2, w2))
                else
                  Inr (False, a\<lparr>a_syncScanOffset := maxScan - a_readPos a + 1\<rparr>, w)))"

definition handleReadHeaderLocked ::
    "('w, 'e) callbacks \<Rightarrow> assembler \<Rightarrow> 'w \<Rightarrow> (bool \<times> assembler \<times> 'w) go" where
  "handleReadHeaderLocked cb a w =
     (if available a < HeaderByteSize then Inr (False, a, w)
      else
        (case go_slice (a_buf a) (a_readPos a) (a_readPos a + HeaderByteSize) of
           Inl s \<Rightarrow> Inl s
         | Inr hdr \<Rightarrow>
             (let (_, br1) = ReadUint32BE (NewByteReader hdr);
                  ((pktLen, _), _) = ReadUint16BE br1
              in if pktLen < (word_of_nat (a_minSize a) :: u16)
                    \<or> pktLen > (word_of_nat (a_maxSize a) :: u16) then
                   (let a1 = a\<lparr>a_stats := (a_stats a)\<lparr>InvalidLength := InvalidLength (a_stats a) + 1\<rparr>\<rparr>
                    in case call_onError cb
                              (InvalidPacketLength pktLen (a_minSize a) (a_maxSize a)) a1 w of
                         Inl s \<Rightarrow> Inl s
                       | Inr (a2, w2) \<Rightarrow>
                           Inr (True, a2\<lparr>a_readPos := a_readPos a2 + 1,
                                         a_stats := (a_stats a2)\<lparr>ResyncEvents := ResyncEvents (a_stats a2) + 1\<rparr>,
                                         a_state := StateWaitSync, a_syncScanOffset := 0\<rparr>, w2))
                 else
                   Inr (True, a\<lparr>a_packetLenField := pktLen, a_expectedPayloadLen := unat pktLen,
                                a_stats := (a_stats a)\<lparr>HeaderParsed := HeaderParsed (a_stats a) + 1\<rparr>,
                                a_state := StateReadPayload\<rparr>, w))))"

definition handleReadPayloadLocked ::
    "('w, 'e) callbacks \<Rightarrow> assembler \<Rightarrow> 'w \<Rightarrow> ((bool \<times> 'e option) \<times> assembler \<times> 'w) go" where
  "handleReadPayloadLocked cb a w =
     (if available a < a_expectedPayloadLen a then Inr ((False, None), a, w)
      else
        (case go_slice (a_buf a) (a_readPos a) (a_readPos a + a_expectedPayloadLen a) of
           Inl s \<Rightarrow> Inl s
         | Inr src \<Rightarrow>
             (let frame = go_copy (replicate (a_expectedPayloadLen a) 0) src;
                  a1 = a\<lparr>a_readPos := a_readPos a + a_expectedPayloadLen a,
                         a_stats := (a_stats a)\<lparr>FramesCompleted := FramesCompleted (a_stats a) + 1\<rparr>,
                         a_state := StateFrameReady\<rparr>
              in case call_onFrame cb frame a1 w of
                   Inl s \<Rightarrow> Inl s
                 | Inr (None, a2, w2) \<Rightarrow> Inr ((True, None), a2, w2)
                 | Inr (Some e, a2, w2) \<Rightarrow>
                     (case call_onError cb (FrameHandlerError e) a2 w2 of
                        Inl s \<Rightarrow> Inl s
                      | Inr (a3, w3) \<Rightarrow> Inr ((False, Some e), a3, w3)))))"

text \<open>
  One round of the \<open>for\<close> loop of \<open>runStateMachineLocked\<close>: it goes on in a new state or
  returns an error value (nil is \<open>None\<close>).
\<close>

datatype ('w, 'e) round = Continue assembler 'w | Return "'e option" assembler 'w

definition machine_round ::
    "('w, 'e) callbacks \<Rightarrow> assembler \<Rightarrow> 'w \<Rightarrow> ('w, 'e) round go" where
  "machine_round cb a w =
     (case a_state a of
        StateWaitSync \<Rightarrow>
          (case handleWaitSyncLocked cb a w of
             Inl s \<Rightarrow> Inl s
           | Inr (go_on, a', w') \<Rightarrow> Inr (if go_on then Continue a' w' else Return None a' w'))
      | StateReadHeader \<Rightarrow>
          (case handleReadHeaderLocked cb a w of
             Inl s \<Rightarrow> Inl s
           | Inr (go_on, a', w') \<Rightarrow> Inr (if go_on then Continue a' w' else Return None a' w'))
      | StateReadPayload \<Rightarrow>
          (case handleReadPayloadLocked cb a w of
             Inl s \<Rightarrow> Inl s
           | Inr ((go_on, err), a', w') \<Rightarrow>
               Inr (if err \<noteq> None then Return err a' w'
                    else if go_on then Continue a' w' else Return None a' w'))
      | StateFrameReady \<Rightarrow>
          Inr (Continue (a\<lparr>a_state := StateWaitSync, a_syncScanOffset := 0\<rparr>) w))"

partial_function (option) runStateMachineLocked ::
    "('w, 'e) callbacks \<Rightarrow> assembler \<Rightarrow> 'w \<Rightarrow> ('e option \<times> assembler \<times> 'w) go option" where
  "runStateMachineLocked cb a w =
     (case machine_round cb a w of
        Inl s \<Rightarrow> Some (Inl s)
      | Inr (Return err a' w') \<Rightarrow> Some (Inr (err, a', w'))
      | Inr (Continue a' w') \<Rightarrow> runStateMachineLocked cb a' w')"

section \<open>Feeding and draining\<close>

text \<open>The overrun branch of \<open>Feed\<close>: report, drop the window and the new data, return nil.\<close>

definition overrun ::
    "('w, 'e) callbacks \<Rightarrow> nat \<Rightarrow> assembler \<Rightarrow> 'w \<Rightarrow> ('e option \<times> assembler \<times> 'w) go" where
  "overrun cb n a w =
     (let a1 = a\<lparr>a_stats := (a_stats a)\<lparr>Overruns := Overruns (a_stats a) + 1\<rparr>\<rparr>
      in case call_onError cb (BufferOverrun (a_writePos a1) n (a_capacity a1)) a1 w of
           Inl s \<Rightarrow> Inl s
         | Inr (a2, w2) \<Rightarrow> Inr (None, resetLocked a2, w2))"

text \<open>The body of \<open>Feed\<close> under the mutex.\<close>

definition feedLocked ::
    "('w, 'e) callbacks \<Rightarrow> byte list \<Rightarrow> assembler \<Rightarrow> 'w \<Rightarrow> ('e option \<times> assembler \<times> 'w) go option" where
  "feedLocked cb data a w =
     (if data = [] then Some (Inr (None, a, w))
      else
        (case (if a_writePos a + length data > a_capacity a then compactIfNeeded a else Inr a) of
           Inl s \<Rightarrow> Some (Inl s)
         | Inr a1 \<Rightarrow>
             if a_writePos a1 + length data > a_capacity a1 then
               Some (overrun cb (length data) a1 w)
             else
               (case copy_at (a_buf a1) (a_writePos a1) data of
                  Inl s \<Rightarrow> Some (Inl s)
                | Inr b \<Rightarrow>
                    runStateMachineLocked cb
                      (a1\<lparr>a_buf := b, a_writePos := a_writePos a1 + length data,
                          a_stats := (a_stats a1)\<lparr>BytesFed := BytesFed (a_stats a1) + of_nat (length data)\<rparr>\<rparr>)
                      w)))"

definition Feed ::
    "('w, 'e) callbacks \<Rightarrow> byte list \<Rightarrow> assembler \<Rightarrow> 'w \<Rightarrow> ('e option \<times> assembler \<times> 'w) go option" where
  "Feed cb data a w =
     (case lock a of
        Inl s \<Rightarrow> Some (Inl s)
      | Inr a1 \<Rightarrow>
          (case feedLocked cb data a1 w of
             None \<Rightarrow> None
           | Some (Inl s) \<Rightarrow> Some (Inl s)
           | Some (Inr (err, a2, w2)) \<Rightarrow> Some (Inr (err, unlock a2, w2))))"

text \<open>
  \<open>DrainTo\<close> writes the window to an \<open>io.Writer\<close>: the writer is a parameter that returns how
  many bytes it took and an error.
\<close>

definition DrainTo ::
    "(byte list \<Rightarrow> 'w \<Rightarrow> (nat \<times> 'e option) \<times> 'w) \<Rightarrow> assembler \<Rightarrow> 'w \<Rightarrow>
     ((nat \<times> 'e option) \<times> assembler \<times> 'w) go" where
  "DrainTo write a w =
     (case lock a of
        Inl s \<Rightarrow> Inl s
      | Inr a1 \<Rightarrow>
          if available a1 = 0 then Inr ((0, None), unlock a1, w)
          else
            (case go_slice (a_buf a1) (a_readPos a1) (a_writePos a1) of
               Inl s \<Rightarrow> Inl s
             | Inr bytes \<Rightarrow>
                 (case write bytes w of
                    ((n, Some e), w') \<Rightarrow> Inr ((n, Some e), unlock a1, w')
                  | ((n, None), w') \<Rightarrow>
                      Inr ((n, None), unlock (a1\<lparr>a_readPos := a_readPos a1 + n\<rparr>), w'))))"

end
