(* ===== verification/Assembler_Correct.thy ===== *)
theory Assembler_Correct
  imports Frame_Assembler
begin

text \<open>
  Correctness of \<open>Frame_Assembler\<close>: the invariant \<open>asm_inv\<close>, the window as the abstraction
  function, and the simulation of the buffer-and-state machine by the stream parser.
\<close>

section \<open>Window and invariant\<close>

definition window :: "assembler \<Rightarrow> byte list" where
  "window a = sub_slice (a_readPos a) (a_writePos a) (a_buf a)"

definition buffer_inv :: "assembler \<Rightarrow> bool" where
  "buffer_inv a \<longleftrightarrow>
     length (a_buf a) = a_capacity a \<and> a_readPos a \<le> a_writePos a
   \<and> a_writePos a \<le> a_capacity a \<and> a_capacity a = a_maxSize a * 4
   \<and> a_minSize a = MinFrameSize"

text \<open>What each state remembers about the window.\<close>

definition state_inv :: "assembler \<Rightarrow> bool" where
  "state_inv a \<longleftrightarrow>
     (case a_state a of
        StateWaitSync \<Rightarrow>
          \<forall>i < a_syncScanOffset a. i + SyncWordSize \<le> available a \<and> \<not> sync_at (window a) i
      | StateReadHeader \<Rightarrow> sync_at (window a) 0
      | StateReadPayload \<Rightarrow>
          sync_at (window a) 0 \<and> HeaderByteSize \<le> available a
        \<and> valid_length (a_maxSize a) (length_field (window a))
        \<and> a_expectedPayloadLen a = unat (length_field (window a))
      | StateFrameReady \<Rightarrow> True)"

definition asm_inv :: "assembler \<Rightarrow> bool" where
  "asm_inv a \<longleftrightarrow> buffer_inv a \<and> state_inv a"

lemmas inv_defs = asm_inv_def buffer_inv_def state_inv_def

lemma length_window: "buffer_inv a \<Longrightarrow> length (window a) = available a"
  by (auto simp: window_def available_def buffer_inv_def slice_simps min_def)

lemma window_slice:
  "i + k \<le> available a \<Longrightarrow>
     sub_slice (a_readPos a + i) (a_readPos a + i + k) (a_buf a) = sub_slice i (i + k) (window a)"
proof (cases "a_readPos a \<le> a_writePos a")
  case True
  moreover assume "i + k \<le> available a"
  ultimately have "a_readPos a + (i + k) \<le> a_writePos a"
    by (simp add: available_def)
  from slice_nested [OF this, of i "a_buf a"] show ?thesis
    by (simp only: window_def add.assoc)
next
  case False
  moreover assume "i + k \<le> available a"
  ultimately show ?thesis by (simp add: available_def sub_slice_def)
qed

text \<open>Only positions, buffer and state decide the window and the invariant.\<close>

lemma window_cong [simp]:
  "window (a\<lparr>a_stats := st\<rparr>) = window a" "window (a\<lparr>a_mu := m\<rparr>) = window a"
  "window (a\<lparr>a_state := s\<rparr>) = window a" "window (a\<lparr>a_syncScanOffset := k\<rparr>) = window a"
  "window (a\<lparr>a_packetLenField := L\<rparr>) = window a"
  "window (a\<lparr>a_expectedPayloadLen := n\<rparr>) = window a"
  by (simp_all add: window_def)

lemma available_cong [simp]:
  "available (a\<lparr>a_stats := st\<rparr>) = available a" "available (a\<lparr>a_mu := m\<rparr>) = available a"
  "available (a\<lparr>a_state := s\<rparr>) = available a" "available (a\<lparr>a_syncScanOffset := k\<rparr>) = available a"
  "available (a\<lparr>a_packetLenField := L\<rparr>) = available a"
  "available (a\<lparr>a_expectedPayloadLen := n\<rparr>) = available a"
  by (simp_all add: available_def)

lemma window_advance:
  "window (a\<lparr>a_readPos := a_readPos a + n\<rparr>) = drop n (window a)"
  by (simp add: window_def slice_drop)

lemma asm_inv_mu [simp]: "asm_inv (a\<lparr>a_mu := m\<rparr>) = asm_inv a"
  by (simp add: inv_defs split: FrameState.splits)

lemma window_reset [simp]: "window (resetLocked a) = []"
  by (simp add: window_def resetLocked_def sub_slice_def)

lemma window_zero [simp]: "a_writePos a = 0 \<Longrightarrow> window a = []"
  by (simp add: window_def sub_slice_def)

lemma asm_inv_reset: "buffer_inv a \<Longrightarrow> asm_inv (resetLocked a)"
  by (simp add: inv_defs resetLocked_def)

lemma asm_inv_new: "asm_inv (NewSlidingWindowAssembler maxSize)"
  by (simp add: inv_defs NewSlidingWindowAssembler_def Let_def)

lemma window_new: "window (NewSlidingWindowAssembler maxSize) = []"
  by (simp add: window_def NewSlidingWindowAssembler_def Let_def sub_slice_def)

section \<open>The scan loop\<close>

lemma window_sync_at:
  assumes "buffer_inv a" and "k + SyncWordSize \<le> available a"
  shows "be_word (sub_slice (a_readPos a + k) (a_readPos a + k + SyncWordSize) (a_buf a)) = SyncMagicBytes
           \<longleftrightarrow> sync_at (window a) k"
  using assms by (simp add: sync_at_def length_window window_slice)

lemma scan_sync_window:
  assumes inv: "buffer_inv a" and avail: "SyncWordSize \<le> available a"
    and seen: "\<forall>j < k. \<not> sync_at (window a) j"
  shows "scan_sync (a_buf a) (a_readPos a + k) (a_writePos a - SyncWordSize)
           = Inr (map_option (\<lambda>i. a_readPos a + i) (find_sync (window a)))"
  using seen
proof (induction "Suc (a_writePos a - SyncWordSize) - (a_readPos a + k)" arbitrary: k)
  case 0
  have "\<not> sync_at (window a) j" for j
  proof (cases "j < k")
    case True
    with "0.prems" show ?thesis by blast
  next
    case False
    then have "available a < j + SyncWordSize"
      using "0.hyps" avail by (simp add: available_def SyncWordSize_def)
    then show ?thesis
      using sync_at_bound [of "window a" j] inv by (auto simp: length_window)
  qed
  then have "find_sync (window a) = None" by (simp add: find_sync_None)
  moreover have "a_writePos a - SyncWordSize < a_readPos a + k"
    using "0.hyps" by simp
  ultimately show ?case by (simp add: scan_sync.simps)
next
  case (Suc n)
  then have le: "a_readPos a + k \<le> a_writePos a - SyncWordSize" by simp
  then have bound: "k + SyncWordSize \<le> available a"
    using avail by (simp add: available_def SyncWordSize_def)
  then have slice: "go_slice (a_buf a) (a_readPos a + k) (a_readPos a + k + SyncWordSize)
      = Inr (sub_slice (a_readPos a + k) (a_readPos a + k + SyncWordSize) (a_buf a))"
    using inv by (intro go_slice_ok) (auto simp: available_def buffer_inv_def)
  show ?case
  proof (cases "sync_at (window a) k")
    case True
    then have "find_sync (window a) = Some k"
      using Suc.prems by (simp add: find_sync_Some)
    then show ?thesis
      using le slice True window_sync_at [OF inv bound] by (simp add: scan_sync.simps)
  next
    case False
    then have "\<forall>j < Suc k. \<not> sync_at (window a) j"
      using Suc.prems by (auto simp: less_Suc_eq)
    then have "scan_sync (a_buf a) (a_readPos a + Suc k) (a_writePos a - SyncWordSize)
        = Inr (map_option (\<lambda>i. a_readPos a + i) (find_sync (window a)))"
      using Suc.hyps by (intro Suc.hyps(1)) auto
    then show ?thesis
      using le slice False window_sync_at [OF inv bound]
      by (subst scan_sync.simps) simp
  qed
qed

text \<open>The header reader sees the length field of the window.\<close>

lemma header_length_field:
  assumes "HeaderByteSize \<le> length hdr"
  shows "fst (fst (ReadUint16BE (snd (ReadUint32BE (NewByteReader hdr))))) = length_field hdr"
  using assms by (simp add: byte_reader_simps length_field_def frame_consts)

lemma window_header:
  assumes "buffer_inv a" and "HeaderByteSize \<le> available a"
  shows "\<exists>hdr. go_slice (a_buf a) (a_readPos a) (a_readPos a + HeaderByteSize) = Inr hdr
           \<and> HeaderByteSize \<le> length hdr \<and> length_field hdr = length_field (window a)"
proof -
  let ?hdr = "sub_slice (a_readPos a) (a_readPos a + HeaderByteSize) (a_buf a)"
  have "go_slice (a_buf a) (a_readPos a) (a_readPos a + HeaderByteSize) = Inr ?hdr"
    using assms by (intro go_slice_ok) (auto simp: buffer_inv_def available_def)
  moreover have "?hdr = sub_slice 0 HeaderByteSize (window a)"
    using window_slice [of 0 HeaderByteSize a] assms by simp
  moreover have "length ?hdr = HeaderByteSize"
    using assms by (auto simp: length_slice buffer_inv_def available_def frame_consts min_def)
  moreover have "length_field (sub_slice 0 HeaderByteSize (window a)) = length_field (window a)"
    by (simp add: length_field_def slice_nested frame_consts)
  ultimately show ?thesis by auto
qed

section \<open>The abstract machine: events handled in stream order\<close>

text \<open>
  \<open>F\<close> is what the frame handler does to the world \<open>'w\<close>, \<open>G\<close> what the error handler does.
  A frame event runs the frame handler and, when it fails, the error handler, and stops the
  run; a bad length is reported and parsing goes on. At the end of the stream the window is
  kept, except that a window without a sync word in a buffer more than half \<open>full\<close> is
  reported and dropped.
\<close>

definition handle_event ::
    "(byte list \<Rightarrow> 'w \<Rightarrow> ('e option \<times> 'w) go) \<Rightarrow> ('e asm_error \<Rightarrow> 'w \<Rightarrow> 'w go) \<Rightarrow> nat \<Rightarrow>
     event \<Rightarrow> 'w \<Rightarrow> ('e option \<times> 'w) go" where
  "handle_event F G maxSize ev w =
     (case ev of
        FrameEvent f \<Rightarrow>
          (case F f w of
             Inl s \<Rightarrow> Inl s
           | Inr (None, w1) \<Rightarrow> Inr (None, w1)
           | Inr (Some e, w1) \<Rightarrow>
               (case G (FrameHandlerError e) w1 of
                  Inl s \<Rightarrow> Inl s
                | Inr w2 \<Rightarrow> Inr (Some e, w2)))
      | BadLength L \<Rightarrow>
          (case G (InvalidPacketLength L MinFrameSize maxSize) w of
             Inl s \<Rightarrow> Inl s
           | Inr w1 \<Rightarrow> Inr (None, w1)))"

function stream_run ::
    "(byte list \<Rightarrow> 'w \<Rightarrow> ('e option \<times> 'w) go) \<Rightarrow> ('e asm_error \<Rightarrow> 'w \<Rightarrow> 'w go) \<Rightarrow> nat \<Rightarrow> bool \<Rightarrow>
     byte list \<Rightarrow> 'w \<Rightarrow> ('e option \<times> byte list \<times> 'w) go" where
  "stream_run F G maxSize full s w =
     (case next_event maxSize s of
        Wait r \<Rightarrow>
          if full \<and> SyncWordSize \<le> length r \<and> find_sync r = None then
            (case G (SyncNotFound (length r)) w of
               Inl x \<Rightarrow> Inl x
             | Inr w1 \<Rightarrow> Inr (None, [], w1))
          else Inr (None, r, w)
      | Emit ev r \<Rightarrow>
          (case handle_event F G maxSize ev w of
             Inl x \<Rightarrow> Inl x
           | Inr (None, w1) \<Rightarrow> stream_run F G maxSize full r w1
           | Inr (Some e, w1) \<Rightarrow> Inr (Some e, r, w1)))"
  by pat_completeness auto
termination
  by (relation "measure (\<lambda>(F, G, m, full, s, w). length s)") (auto intro: next_event_shrinks)

declare stream_run.simps [simp del]

lemma stream_run_cong:
  "next_event m s = next_event m s' \<Longrightarrow> stream_run F G m full s w = stream_run F G m full s' w"
  by (simp add: stream_run.simps [of F G m full s] stream_run.simps [of F G m full s'])

lemma next_event_from_sync:
  "find_sync s = Some i \<Longrightarrow> next_event m (drop i s) = next_event m s"
proof -
  assume i: "find_sync s = Some i"
  then have "find_sync (drop i s) = Some 0"
    using sync_at_drop [of i s 0] find_sync_0 by (simp add: find_sync_Some)
  with i show ?thesis by (simp add: next_event_def)
qed

section \<open>The contract of the callbacks\<close>

text \<open>
  The assembler calls its handlers while it holds its mutex. The contract: a handler called
  so leaves the assembler alone and acts on the world as \<open>F\<close> and \<open>G\<close> do.
\<close>

locale locked_callbacks =
  fixes cb :: "('w, 'e) callbacks"
    and F :: "byte list \<Rightarrow> 'w \<Rightarrow> ('e option \<times> 'w) go"
    and G :: "'e asm_error \<Rightarrow> 'w \<Rightarrow> 'w go"
  assumes frame_law: "a_mu a \<Longrightarrow> call_onFrame cb f a w =
      (case F f w of Inl s \<Rightarrow> Inl s | Inr (e, w') \<Rightarrow> Inr (e, a, w'))"
    and error_law: "a_mu a \<Longrightarrow> call_onError cb err a w =
      (case G err w of Inl s \<Rightarrow> Inl s | Inr w' \<Rightarrow> Inr (a, w'))"

definition half_full :: "assembler \<Rightarrow> bool" where
  "half_full a \<longleftrightarrow> a_writePos a > a_capacity a div 2"

text \<open>The measure of the loop: four times the window, plus the distance to the next event.\<close>

definition machine_measure :: "assembler \<Rightarrow> nat" where
  "machine_measure a = 4 * available a +
     (case a_state a of StateWaitSync \<Rightarrow> 2 | StateReadHeader \<Rightarrow> 1 | StateReadPayload \<Rightarrow> 0
      | StateFrameReady \<Rightarrow> 3)"

text \<open>What every step keeps, and what a returning step guarantees.\<close>

definition same_frame :: "assembler \<Rightarrow> assembler \<Rightarrow> bool" where
  "same_frame a a' \<longleftrightarrow>
     asm_inv a' \<and> a_mu a' = a_mu a \<and> a_maxSize a' = a_maxSize a \<and> a_capacity a' = a_capacity a"

lemma same_frame_trans: "same_frame a b \<Longrightarrow> same_frame b c \<Longrightarrow> same_frame a c"
  by (simp add: same_frame_def)

definition round_sim ::
    "(byte list \<Rightarrow> 'w \<Rightarrow> ('e option \<times> 'w) go) \<Rightarrow> ('e asm_error \<Rightarrow> 'w \<Rightarrow> 'w go) \<Rightarrow>
     assembler \<Rightarrow> 'w \<Rightarrow> ('w, 'e) round go \<Rightarrow> bool" where
  "round_sim F G a w r \<longleftrightarrow>
     (let run = stream_run F G (a_maxSize a) (half_full a) (window a) w in
      case r of
        Inl x \<Rightarrow> run = Inl x
      | Inr (Return e a' w') \<Rightarrow>
          run = Inr (e, window a', w') \<and> same_frame a a' \<and> a_writePos a' \<le> a_writePos a
      | Inr (Continue a' w') \<Rightarrow>
          run = stream_run F G (a_maxSize a) (half_full a) (window a') w'
        \<and> same_frame a a' \<and> a_writePos a' = a_writePos a
        \<and> machine_measure a' < machine_measure a)"

lemma buffer_invI: "asm_inv a \<Longrightarrow> buffer_inv a"
  by (simp add: asm_inv_def)

lemma available_advance: "available (a\<lparr>a_readPos := a_readPos a + n\<rparr>) = available a - n"
  by (simp add: available_def)

context locked_callbacks
begin

lemma sim_frame_ready:
  assumes "asm_inv a" and "a_state a = StateFrameReady"
  shows "round_sim F G a w (machine_round cb a w)"
  using assms
  by (simp add: round_sim_def machine_round_def Let_def same_frame_def inv_defs machine_measure_def)

lemma sim_wait_sync:
  assumes inv: "asm_inv a" and mu: "a_mu a" and st: "a_state a = StateWaitSync"
  shows "round_sim F G a w (machine_round cb a w)"
proof (cases "available a < SyncWordSize")
  case True
  have "find_sync (window a) = None"
    using True inv sync_at_bound [of "window a"]
    by (fastforce simp: find_sync_None length_window buffer_invI)
  then have "stream_run F G (a_maxSize a) (half_full a) (window a) w = Inr (None, window a, w)"
    using True inv by (simp add: stream_run.simps next_event_def length_window buffer_invI)
  then show ?thesis
    using True inv st
    by (simp add: round_sim_def machine_round_def handleWaitSyncLocked_def same_frame_def)
next
  case False
  then have avail: "SyncWordSize \<le> available a" by simp
  have seen: "\<forall>j < a_syncScanOffset a. \<not> sync_at (window a) j"
    using inv st by (simp add: asm_inv_def state_inv_def)
  note scan = scan_sync_window [OF buffer_invI [OF inv] avail seen]
  show ?thesis
  proof (cases "find_sync (window a)")
    case (Some i)
    let ?a = "a\<lparr>a_readPos := a_readPos a + i, a_syncScanOffset := 0, a_state := StateReadHeader,
                 a_stats := (a_stats a)\<lparr>SyncFound := SyncFound (a_stats a) + 1\<rparr>\<rparr>"
    have i: "i + SyncWordSize \<le> available a" "sync_at (window a) i"
      using Some inv sync_at_bound [of "window a" i]
      by (auto simp: find_sync_Some length_window buffer_invI)
    have win: "window ?a = drop i (window a)"
      using window_advance [of a i] by (simp add: window_def)
    then have "asm_inv ?a"
      using inv i sync_at_drop [of i "window a" 0]
      by (auto simp: inv_defs available_def SyncWordSize_def)
    moreover have "machine_measure ?a < machine_measure a"
      using st by (simp add: machine_measure_def available_def)
    moreover have "stream_run F G m full (drop i (window a)) w = stream_run F G m full (window a) w"
      for m full
      using Some by (intro stream_run_cong next_event_from_sync)
    ultimately show ?thesis
      using Some st scan avail win
      by (simp add: round_sim_def machine_round_def handleWaitSyncLocked_def same_frame_def Let_def)
  next
    case None
    then have ne: "next_event (a_maxSize a) (window a) = Wait (window a)"
      by (simp add: next_event_def)
    have len: "length (window a) = available a"
      using inv by (simp add: length_window buffer_invI)
    show ?thesis
    proof (cases "half_full a")
      case True
      then have "stream_run F G (a_maxSize a) (half_full a) (window a) w =
          (case G (SyncNotFound (available a)) w of Inl x \<Rightarrow> Inl x | Inr w1 \<Rightarrow> Inr (None, [], w1))"
        using None ne avail len by (simp add: stream_run.simps)
      moreover have "asm_inv (resetLocked (a\<lparr>a_stats := s\<rparr>))" for s
        using inv by (intro asm_inv_reset) (simp add: inv_defs)
      ultimately show ?thesis
        using True None st scan avail mu
        by (auto simp: round_sim_def machine_round_def handleWaitSyncLocked_def same_frame_def
            Let_def half_full_def error_law resetLocked_def split: sum.splits)
    next
      case False
      let ?a = "a\<lparr>a_syncScanOffset := a_writePos a - SyncWordSize - a_readPos a + 1\<rparr>"
      have "asm_inv ?a"
        using inv st None avail
        by (auto simp: inv_defs find_sync_None available_def SyncWordSize_def)
      moreover have "stream_run F G (a_maxSize a) (half_full a) (window a) w
          = Inr (None, window a, w)"
        using False ne by (simp add: stream_run.simps)
      ultimately show ?thesis
        using False None st scan avail
        by (simp add: round_sim_def machine_round_def handleWaitSyncLocked_def same_frame_def
            Let_def half_full_def)
    qed
  qed
qed

lemma sim_read_header:
  assumes inv: "asm_inv a" and mu: "a_mu a" and st: "a_state a = StateReadHeader"
  shows "round_sim F G a w (machine_round cb a w)"
proof (cases "available a < HeaderByteSize")
  case True
  have sync: "find_sync (window a) = Some 0"
    using inv st by (simp add: inv_defs find_sync_0)
  then have "stream_run F G (a_maxSize a) (half_full a) (window a) w = Inr (None, window a, w)"
    using True inv
    by (simp add: stream_run.simps next_event_def Let_def length_window buffer_invI)
  then show ?thesis
    using True inv st
    by (simp add: round_sim_def machine_round_def handleReadHeaderLocked_def same_frame_def)
next
  case False
  have sync: "find_sync (window a) = Some 0"
    using inv st by (simp add: inv_defs find_sync_0)
  have len: "length (window a) = available a"
    using inv by (simp add: length_window buffer_invI)
  have min: "a_minSize a = MinFrameSize"
    using inv by (simp add: inv_defs)
  obtain hdr where hdr: "go_slice (a_buf a) (a_readPos a) (a_readPos a + HeaderByteSize) = Inr hdr"
    "HeaderByteSize \<le> length hdr" "length_field hdr = length_field (window a)"
    using window_header [of a] inv False by (auto simp: buffer_invI)
  let ?L = "length_field (window a)"
  have read: "fst (fst (ReadUint16BE (snd (ReadUint32BE (NewByteReader hdr))))) = ?L"
    using header_length_field [OF hdr(2)] hdr(3) by simp
  show ?thesis
  proof (cases "valid_length (a_maxSize a) ?L")
    case True
    then show ?thesis
      using inv st False hdr read sync min
      by (auto simp: round_sim_def machine_round_def handleReadHeaderLocked_def same_frame_def
          Let_def valid_length_def machine_measure_def inv_defs half_full_def find_sync_Some
          split: prod.splits)
  next
    case bad: False
    let ?a = "\<lambda>s t. a\<lparr>a_readPos := a_readPos a + 1, a_stats := s,
                         a_state := StateWaitSync, a_syncScanOffset := t\<rparr>"
    have win: "window (a\<lparr>a_stats := s, a_readPos := Suc (a_readPos a)\<rparr>) = drop (Suc 0) (window a)"
      for s
      using window_advance [of a 1] by (simp add: window_def)
    have "asm_inv (?a s 0)" for s
      using inv False by (auto simp: inv_defs available_def frame_consts)
    moreover have "stream_run F G (a_maxSize a) (half_full a) (window a) w =
        (case G (InvalidPacketLength ?L MinFrameSize (a_maxSize a)) w of
           Inl x \<Rightarrow> Inl x
         | Inr w1 \<Rightarrow> stream_run F G (a_maxSize a) (half_full a) (drop 1 (window a)) w1)"
      using bad sync False len
      by (subst stream_run.simps)
        (simp add: next_event_def Let_def handle_event_def split: sum.splits)
    moreover have "machine_measure (?a s 0) < machine_measure a" for s
      using st False by (simp add: machine_measure_def available_def frame_consts)
    ultimately show ?thesis
      using bad inv st False hdr read min mu win
      by (auto simp: round_sim_def machine_round_def handleReadHeaderLocked_def same_frame_def
          Let_def valid_length_def half_full_def error_law split: prod.splits sum.splits)
  qed
qed

lemma sim_read_payload:
  assumes inv: "asm_inv a" and mu: "a_mu a" and st: "a_state a = StateReadPayload"
  shows "round_sim F G a w (machine_round cb a w)"
proof -
  let ?n = "a_expectedPayloadLen a"
  have sync: "find_sync (window a) = Some 0" and n: "?n = unat (length_field (window a))"
    and valid: "valid_length (a_maxSize a) (length_field (window a))"
    and hdr: "HeaderByteSize \<le> available a"
    using inv st by (simp_all add: inv_defs find_sync_0)
  have len: "length (window a) = available a"
    using inv by (simp add: length_window buffer_invI)
  show ?thesis
  proof (cases "available a < ?n")
    case True
    then have "stream_run F G (a_maxSize a) (half_full a) (window a) w = Inr (None, window a, w)"
      using sync n valid hdr len by (simp add: stream_run.simps next_event_def Let_def)
    then show ?thesis
      using True inv st
      by (simp add: round_sim_def machine_round_def handleReadPayloadLocked_def same_frame_def)
  next
    case False
    let ?frame = "take ?n (window a)"
    let ?a = "\<lambda>s. a\<lparr>a_readPos := a_readPos a + ?n, a_stats := s, a_state := StateFrameReady\<rparr>"
    have src: "go_slice (a_buf a) (a_readPos a) (a_readPos a + ?n) = Inr ?frame"
      using False inv window_slice [of 0 ?n a]
      by (auto simp: go_slice_def inv_defs available_def sub_slice_def)
    have frame: "go_copy (replicate ?n 0) ?frame = ?frame"
      using False len by (simp add: go_copy_def)
    have win: "window (?a s) = drop ?n (window a)" for s
      using window_advance [of a ?n] by (simp add: window_def)
    have ev: "next_event (a_maxSize a) (window a) = Emit (FrameEvent ?frame) (drop ?n (window a))"
      using False sync n valid hdr len by (simp add: next_event_def Let_def)
    have "asm_inv (?a s)" for s
      using inv False by (auto simp: inv_defs available_def)
    moreover have "machine_measure (?a s) < machine_measure a" for s
      using st False valid_length_min [OF valid] n
      by (simp add: machine_measure_def available_def)
    moreover have "stream_run F G (a_maxSize a) (half_full a) (window a) w =
        (case handle_event F G (a_maxSize a) (FrameEvent ?frame) w of
           Inl x \<Rightarrow> Inl x
         | Inr (None, w1) \<Rightarrow> stream_run F G (a_maxSize a) (half_full a) (drop ?n (window a)) w1
         | Inr (Some e, w1) \<Rightarrow> Inr (Some e, drop ?n (window a), w1))"
      using ev by (subst stream_run.simps) simp
    ultimately show ?thesis
      using inv st False src mu win frame
      by (auto simp: round_sim_def machine_round_def handleReadPayloadLocked_def same_frame_def
          Let_def half_full_def handle_event_def frame_law error_law
          split: prod.splits sum.splits option.splits)
  qed
qed

lemma round_simulates:
  assumes "asm_inv a" and "a_mu a"
  shows "round_sim F G a w (machine_round cb a w)"
  using assms sim_frame_ready sim_wait_sync sim_read_header sim_read_payload
  by (cases "a_state a") auto

text \<open>
  The loop returns, and what it returns is what the abstract machine computes on the window.
\<close>

lemma run_refines:
  assumes "asm_inv a" and "a_mu a"
  shows "\<exists>res. runStateMachineLocked cb a w = Some res \<and>
           (case res of
              Inl x \<Rightarrow> stream_run F G (a_maxSize a) (half_full a) (window a) w = Inl x
            | Inr (e, a', w') \<Rightarrow>
                stream_run F G (a_maxSize a) (half_full a) (window a) w = Inr (e, window a', w')
              \<and> same_frame a a' \<and> a_writePos a' \<le> a_writePos a)"
  using assms
proof (induction "machine_measure a" arbitrary: a w rule: less_induct)
  case less
  note sim = round_simulates [OF less.prems, of w]
  show ?case
  proof (cases "machine_round cb a w")
    case (Inl x)
    then show ?thesis
      using sim by (simp add: runStateMachineLocked.simps round_sim_def Let_def)
  next
    case (Inr r)
    show ?thesis
    proof (cases r)
      case (Return e a' w')
      then show ?thesis
        using sim Inr by (simp add: runStateMachineLocked.simps round_sim_def Let_def)
    next
      case (Continue a' w')
      then have step: "same_frame a a'" "a_writePos a' = a_writePos a"
          "machine_measure a' < machine_measure a"
          "stream_run F G (a_maxSize a) (half_full a) (window a) w =
             stream_run F G (a_maxSize a) (half_full a) (window a') w'"
        using sim Inr by (auto simp: round_sim_def Let_def)
      then have "half_full a' = half_full a" "asm_inv a'" "a_mu a'" "a_maxSize a' = a_maxSize a"
        using less.prems by (auto simp: half_full_def same_frame_def)
      with step less.hyps [of a' w'] show ?thesis
        using Continue Inr
        by (subst runStateMachineLocked.simps) (auto simp: same_frame_def split: sum.splits)
    qed
  qed
qed

end

section \<open>Feeding refines the stream parser\<close>

text \<open>
  \<open>Feed\<close> on the abstract level: \<open>wp\<close> is the write position once the buffer was compacted if
  that was needed to make room.
\<close>

definition write_position :: "assembler \<Rightarrow> nat \<Rightarrow> nat" where
  "write_position a n =
     (if a_writePos a + n > a_capacity a \<and> available a < a_capacity a div 4
      then available a else a_writePos a)"

definition feed_spec ::
    "(byte list \<Rightarrow> 'w \<Rightarrow> ('e option \<times> 'w) go) \<Rightarrow> ('e asm_error \<Rightarrow> 'w \<Rightarrow> 'w go) \<Rightarrow> assembler \<Rightarrow>
     byte list \<Rightarrow> 'w \<Rightarrow> ('e option \<times> byte list \<times> 'w) go" where
  "feed_spec F G a data w =
     (let wp = write_position a (length data); cap = a_capacity a in
      if data = [] then Inr (None, window a, w)
      else if wp + length data > cap then
        (case G (BufferOverrun wp (length data) cap) w of
           Inl x \<Rightarrow> Inl x
         | Inr w1 \<Rightarrow> Inr (None, [], w1))
      else stream_run F G (a_maxSize a) (wp + length data > cap div 2) (window a @ data) w)"

lemma compact_same_frame:
  assumes inv: "asm_inv a"
  shows "\<exists>b. compactIfNeeded a = Inr b \<and> same_frame a b \<and> window b = window a
           \<and> a_writePos b = (if available a < a_capacity a div 4 then available a else a_writePos a)
           \<and> a_stats b = a_stats a"
proof (cases "a_readPos a > 0 \<and> available a < a_capacity a div 4")
  case False
  then have "compactIfNeeded a = Inr a"
    unfolding compactIfNeeded_def by (rule if_not_P)
  with False inv show ?thesis
    by (auto simp: available_def same_frame_def)
next
  case True
  let ?w = "sub_slice (a_readPos a) (a_writePos a) (a_buf a)"
  let ?b = "a\<lparr>a_buf := (if available a > 0 then go_copy (a_buf a) ?w else a_buf a),
              a_writePos := a_writePos a - a_readPos a, a_readPos := 0\<rparr>"
  have compact: "compactIfNeeded a = Inr ?b"
    using True inv by (auto simp: compactIfNeeded_def go_slice_def inv_defs)
  have win: "window ?b = window a" and av: "available ?b = available a"
    using inv slice_go_copy_front [of "a_readPos a" "a_writePos a" "a_buf a"]
    by (auto simp: window_def available_def inv_defs sub_slice_def)
  have "asm_inv ?b"
    unfolding asm_inv_def buffer_inv_def state_inv_def win av
    using inv by (auto simp: inv_defs slice_simps split: FrameState.splits)
  with compact win True show ?thesis
    by (auto simp: available_def same_frame_def)
qed

text \<open>New bytes behind the window keep what the state knows of it.\<close>

lemma asm_inv_append:
  assumes "asm_inv a" and "a_writePos a + length data \<le> a_capacity a"
  shows "\<exists>b. copy_at (a_buf a) (a_writePos a) data = Inr b \<and>
           (let a' = a\<lparr>a_buf := b, a_writePos := a_writePos a + length data, a_stats := s\<rparr>
            in asm_inv a' \<and> window a' = window a @ data)"
proof -
  obtain b where b: "copy_at (a_buf a) (a_writePos a) data = Inr b" "length b = length (a_buf a)"
    "sub_slice (a_readPos a) (a_writePos a + length data) b
       = sub_slice (a_readPos a) (a_writePos a) (a_buf a) @ data"
    using slice_copy_at [of "a_readPos a" "a_writePos a" data "a_buf a"] assms
    by (auto simp: inv_defs)
  let ?a = "a\<lparr>a_buf := b, a_writePos := a_writePos a + length data, a_stats := s\<rparr>"
  have win: "window ?a = window a @ data"
    using b(3) by (simp add: window_def)
  have len: "length (window a) = available a"
    using assms by (simp add: length_window asm_inv_def)
  have "asm_inv ?a"
    using assms b(2) win len length_field_append [of "window a" data] sync_at_prefix [of "window a" 0 data]
    by (auto simp: inv_defs available_def sync_at_append frame_consts split: FrameState.splits)
  with b(1) win show ?thesis by (auto simp: Let_def)
qed

context locked_callbacks
begin

lemma feedLocked_refines:
  assumes inv: "asm_inv a" and mu: "a_mu a"
  shows "\<exists>res. feedLocked cb data a w = Some res \<and>
           (case res of
              Inl x \<Rightarrow> feed_spec F G a data w = Inl x
            | Inr (e, a', w') \<Rightarrow>
                feed_spec F G a data w = Inr (e, window a', w')
              \<and> same_frame a a' \<and> a_writePos a' \<le> a_writePos a + length data)"
proof (cases "data = []")
  case True
  with inv show ?thesis by (simp add: feedLocked_def feed_spec_def same_frame_def)
next
  case ne: False
  let ?n = "length data"
  obtain a1 where a1: "(if a_writePos a + ?n > a_capacity a then compactIfNeeded a else Inr a) = Inr a1"
    and sf: "same_frame a a1" and win: "window a1 = window a"
    and wp: "a_writePos a1 = write_position a ?n"
  proof (cases "a_writePos a + ?n > a_capacity a")
    case True
    obtain b where b: "compactIfNeeded a = Inr b" "same_frame a b" "window b = window a"
      "a_writePos b = (if available a < a_capacity a div 4 then available a else a_writePos a)"
      using compact_same_frame [OF inv] by blast
    show ?thesis
    proof (rule that [of b])
      show "(if a_writePos a + ?n > a_capacity a then compactIfNeeded a else Inr a) = Inr b"
        using True b(1) by simp
      show "a_writePos b = write_position a ?n"
        using True b(4) by (simp add: write_position_def)
    qed (rule b)+
  next
    case False
    with inv show ?thesis
      by (intro that [of a]) (simp_all add: write_position_def same_frame_def)
  qed
  have inv1: "asm_inv a1" "a_mu a1" "a_maxSize a1 = a_maxSize a" "a_capacity a1 = a_capacity a"
    using sf mu by (auto simp: same_frame_def)
  show ?thesis
  proof (cases "a_writePos a1 + ?n > a_capacity a1")
    case True
    have "asm_inv (resetLocked (a1\<lparr>a_stats := s\<rparr>))" for s
      using inv1 by (intro asm_inv_reset) (simp add: inv_defs)
    moreover have "feedLocked cb data a w = Some (overrun cb ?n a1 w)"
      using ne a1 True by (simp add: feedLocked_def)
    moreover have "feed_spec F G a data w =
        (case G (BufferOverrun (a_writePos a1) ?n (a_capacity a1)) w of
           Inl x \<Rightarrow> Inl x | Inr w1 \<Rightarrow> Inr (None, [], w1))"
      using ne True wp inv1 by (simp add: feed_spec_def Let_def)
    ultimately show ?thesis
      using sf inv1
      by (auto simp: overrun_def Let_def error_law same_frame_def resetLocked_def split: sum.splits)
  next
    case False
    let ?s = "(a_stats a1)\<lparr>BytesFed := BytesFed (a_stats a1) + of_nat ?n\<rparr>"
    obtain b where b: "copy_at (a_buf a1) (a_writePos a1) data = Inr b"
      and app: "asm_inv (a1\<lparr>a_buf := b, a_writePos := a_writePos a1 + ?n, a_stats := ?s\<rparr>)"
        "window (a1\<lparr>a_buf := b, a_writePos := a_writePos a1 + ?n, a_stats := ?s\<rparr>) = window a1 @ data"
      using asm_inv_append [OF inv1(1), of data ?s] False by (auto simp: Let_def)
    let ?a2 = "a1\<lparr>a_buf := b, a_writePos := a_writePos a1 + ?n, a_stats := ?s\<rparr>"
    have "feedLocked cb data a w = runStateMachineLocked cb ?a2 w"
      using ne a1 b False by (simp add: feedLocked_def)
    moreover have "feed_spec F G a data w =
        stream_run F G (a_maxSize ?a2) (half_full ?a2) (window ?a2) w"
      using ne False wp inv1 app(2) win by (simp add: feed_spec_def Let_def half_full_def)
    moreover have "same_frame a a'" if "same_frame ?a2 a'" for a'
      using that inv1 mu by (simp add: same_frame_def)
    moreover have "a_writePos a1 \<le> a_writePos a"
      using wp inv by (simp add: write_position_def available_def)
    then have "a_writePos ?a2 \<le> a_writePos a + ?n"
      by simp
    ultimately show ?thesis
      using run_refines [OF app(1), of w] inv1(2)
      by (auto split: sum.splits intro: order_trans)
  qed
qed

lemma feed_refines:
  assumes "asm_inv a" and "\<not> a_mu a"
  shows "\<exists>res. Feed cb data a w = Some res \<and>
           (case res of
              Inl x \<Rightarrow> feed_spec F G a data w = Inl x
            | Inr (e, a', w') \<Rightarrow>
                feed_spec F G a data w = Inr (e, window a', w')
              \<and> same_frame a a' \<and> a_writePos a' \<le> a_writePos a + length data)"
proof -
  have spec: "feed_spec F G (a\<lparr>a_mu := True\<rparr>) data w = feed_spec F G a data w"
    by (simp add: feed_spec_def write_position_def Let_def cong: if_cong)
  have "asm_inv (a\<lparr>a_mu := True\<rparr>)" and "a_mu (a\<lparr>a_mu := True\<rparr>)"
    using assms by simp_all
  from feedLocked_refines [OF this, of data w]
  obtain res where res: "feedLocked cb data (a\<lparr>a_mu := True\<rparr>) w = Some res"
    "case res of
       Inl x \<Rightarrow> feed_spec F G a data w = Inl x
     | Inr (e, a', w') \<Rightarrow>
         feed_spec F G a data w = Inr (e, window a', w') \<and> same_frame (a\<lparr>a_mu := True\<rparr>) a'
       \<and> a_writePos a' \<le> a_writePos (a\<lparr>a_mu := True\<rparr>) + length data"
    unfolding spec by blast
  then show ?thesis
    using assms(2)
    by (cases res) (auto simp: Feed_def lock_def unlock_def same_frame_def)
qed

end

end
