(* ===== verification/Assembler_Streams.thy ===== *)
theory Assembler_Streams
  imports Assembler_Correct
begin

text \<open>
  What callers of \<open>Feed\<close> get over a whole stream: the callbacks built from two effects, the
  recorder that lists the events it is given, sequences of \<open>Feed\<close> calls, and the theorems
  that the events do not depend on how the stream was cut into reads.
\<close>

section \<open>Callbacks from effects\<close>

definition callbacks_of ::
    "(byte list \<Rightarrow> 'w \<Rightarrow> ('e option \<times> 'w) go) \<Rightarrow> ('e asm_error \<Rightarrow> 'w \<Rightarrow> 'w go) \<Rightarrow> ('w, 'e) callbacks" where
  "callbacks_of F G =
     \<lparr>onFrame = Some (\<lambda>f a w. case F f w of Inl s \<Rightarrow> Inl s | Inr (e, w') \<Rightarrow> Inr (e, a, w')),
      onError = Some (\<lambda>err a w. case G err w of Inl s \<Rightarrow> Inl s | Inr w' \<Rightarrow> Inr (a, w'))\<rparr>"

interpretation effects: locked_callbacks "callbacks_of F G" F G for F G
  by unfold_locales (simp_all add: callbacks_of_def call_onFrame_def call_onError_def)

text \<open>
  A property of the world that both effects keep is kept by a whole run, and a run gets stuck
  only as an effect does.
\<close>

definition keeps :: "('w \<Rightarrow> bool) \<Rightarrow> (stuck \<Rightarrow> bool) \<Rightarrow> ('r \<times> 'w) go \<Rightarrow> bool" where
  "keeps P S res \<longleftrightarrow> (case res of Inl s \<Rightarrow> S s | Inr (_, w) \<Rightarrow> P w)"

definition keeps_world :: "('w \<Rightarrow> bool) \<Rightarrow> (stuck \<Rightarrow> bool) \<Rightarrow> 'w go \<Rightarrow> bool" where
  "keeps_world P S res \<longleftrightarrow> (case res of Inl s \<Rightarrow> S s | Inr w \<Rightarrow> P w)"

lemma handle_event_keeps:
  assumes "\<And>f w. P w \<Longrightarrow> keeps P S (F f w)" and "\<And>err w. P w \<Longrightarrow> keeps_world P S (G err w)" and "P w"
  shows "keeps P S (handle_event F G m ev w)"
proof (cases ev)
  case (FrameEvent f)
  show ?thesis
  proof (cases "F f w")
    case (Inl s)
    with assms(1) [OF assms(3), of f] FrameEvent show ?thesis by (simp add: handle_event_def keeps_def)
  next
    case (Inr res)
    obtain e w1 where res: "res = (e, w1)" by (cases res)
    then have "P w1" using assms(1) [OF assms(3), of f] Inr by (simp add: keeps_def)
    then have "keeps_world P S (G (FrameHandlerError (the e)) w1)"
      by (rule assms(2))
    with \<open>P w1\<close> Inr res FrameEvent show ?thesis
      by (cases e) (auto simp: handle_event_def keeps_def keeps_world_def split: sum.splits)
  qed
next
  case (BadLength L)
  with assms(2) [OF assms(3), of "InvalidPacketLength L MinFrameSize m"] show ?thesis
    by (auto simp: handle_event_def keeps_def keeps_world_def split: sum.splits)
qed

lemma stream_run_keeps:
  assumes F: "\<And>f w. P w \<Longrightarrow> keeps P S (F f w)" and G: "\<And>err w. P w \<Longrightarrow> keeps_world P S (G err w)"
    and "P w"
  shows "keeps (P \<circ> snd) S (stream_run F G m full s w)"
  using assms(3)
proof (induction m s arbitrary: w rule: parse.induct)
  case (1 m s)
  show ?case
  proof (cases "next_event m s")
    case (Wait r)
    with "1.prems" G [of w "SyncNotFound (length r)"] show ?thesis
      by (auto simp: stream_run.simps [of _ _ m _ s] keeps_def keeps_world_def split: sum.splits)
  next
    case (Emit ev s')
    note step = handle_event_keeps [of P S F G, OF F G "1.prems", of m ev]
    show ?thesis
    proof (cases "handle_event F G m ev w")
      case (Inl x)
      with Emit step show ?thesis by (simp add: stream_run.simps [of _ _ m _ s] keeps_def)
    next
      case (Inr res)
      obtain err w1 where res: "res = (err, w1)" by (cases res)
      then have "P w1" using step Inr by (simp add: keeps_def)
      with Emit Inr res "1.IH" [OF Emit, of w1] show ?thesis
        by (cases err) (simp_all add: stream_run.simps [of _ _ m _ s] keeps_def)
    qed
  qed
qed

lemma feed_spec_keeps:
  assumes F: "\<And>f w. P w \<Longrightarrow> keeps P S (F f w)" and G: "\<And>err w. P w \<Longrightarrow> keeps_world P S (G err w)"
    and "P w"
  shows "keeps (P \<circ> snd) S (feed_spec F G a data w)"
proof -
  have "keeps (P \<circ> snd) S (stream_run F G m full s w)" for m full s
    using assms by (rule stream_run_keeps)
  moreover have "keeps_world P S (G (BufferOverrun (write_position a (length data)) (length data) (a_capacity a)) w)"
    using assms(3) by (rule G)
  ultimately show ?thesis
    using assms(3)
    by (auto simp: feed_spec_def Let_def keeps_def keeps_world_def split: sum.splits)
qed

text \<open>The recorder: every frame and every bad length, in order; it never fails.\<close>

definition record_frame :: "byte list \<Rightarrow> event list \<Rightarrow> (unit option \<times> event list) go" where
  "record_frame f evs = Inr (None, evs @ [FrameEvent f])"

fun record_error :: "unit asm_error \<Rightarrow> event list \<Rightarrow> event list go" where
  "record_error (InvalidPacketLength L lo hi) evs = Inr (evs @ [BadLength L])"
| "record_error _ evs = Inr evs"

definition recorder :: "(event list, unit) callbacks" where
  "recorder = callbacks_of record_frame record_error"

interpretation recorder: locked_callbacks recorder record_frame record_error
  unfolding recorder_def by (rule effects.locked_callbacks_axioms)

text \<open>The reads of a connection: one \<open>Feed\<close> per read, going on after an error.\<close>

fun feed_all ::
    "('w, 'e) callbacks \<Rightarrow> byte list list \<Rightarrow> assembler \<Rightarrow> 'w \<Rightarrow>
     ('e option list \<times> assembler \<times> 'w) go option" where
  "feed_all cb [] a w = Some (Inr ([], a, w))"
| "feed_all cb (c # cs) a w =
     (case Feed cb c a w of
        None \<Rightarrow> None
      | Some (Inl s) \<Rightarrow> Some (Inl s)
      | Some (Inr (e, a1, w1)) \<Rightarrow>
          (case feed_all cb cs a1 w1 of
             None \<Rightarrow> None
           | Some (Inl s) \<Rightarrow> Some (Inl s)
           | Some (Inr (es, a2, w2)) \<Rightarrow> Some (Inr (e # es, a2, w2))))"

lemma stream_run_record:
  "stream_run record_frame record_error m full s w =
     (let (evs, r) = parse m s in
      Inr (None, if full \<and> SyncWordSize \<le> length r \<and> find_sync r = None then [] else r, w @ evs))"
proof (induction m s arbitrary: w rule: parse.induct)
  case (1 m s)
  show ?case
  proof (cases "next_event m s")
    case (Wait r)
    then show ?thesis by (simp add: stream_run.simps parse_wait)
  next
    case (Emit ev r)
    have "handle_event record_frame record_error m ev w = Inr (None, w @ [ev])"
      by (cases ev) (simp_all add: handle_event_def record_frame_def)
    with Emit show ?thesis
      using "1.IH" [OF Emit, of "w @ [ev]"]
      by (simp add: stream_run.simps [of _ _ m _ s] parse_emit split: prod.splits)
  qed
qed

lemma Feed_recorder:
  assumes inv: "asm_inv a" "\<not> a_mu a"
    and spec: "feed_spec record_frame record_error a c w = Inr (None, r, w')"
  shows "\<exists>a'. Feed recorder c a w = Some (Inr (None, a', w')) \<and> window a' = r \<and> same_frame a a'
              \<and> a_writePos a' \<le> a_writePos a + length c"
proof -
  obtain res where res: "Feed recorder c a w = Some res"
    "case res of
       Inl x \<Rightarrow> feed_spec record_frame record_error a c w = Inl x
     | Inr (e, a', w') \<Rightarrow>
         feed_spec record_frame record_error a c w = Inr (e, window a', w')
       \<and> same_frame a a' \<and> a_writePos a' \<le> a_writePos a + length c"
    using recorder.feed_refines [OF inv, of c w] by blast
  then show ?thesis
    using spec by (cases res) auto
qed

section \<open>Streams of any content within half the buffer\<close>

lemma Feed_recorder_small:
  assumes inv: "asm_inv a" "\<not> a_mu a" and settled: "settled (a_maxSize a) (window a)"
    and room: "a_writePos a + length c \<le> 2 * a_maxSize a"
  shows "\<exists>a'. Feed recorder c a w = Some (Inr (None, a', w @ fst (parse (a_maxSize a) (window a @ c))))
           \<and> window a' = snd (parse (a_maxSize a) (window a @ c)) \<and> same_frame a a'
           \<and> a_writePos a' \<le> a_writePos a + length c"
proof (cases "c = []")
  case True
  then show ?thesis using settled
    by (intro Feed_recorder [OF inv]) (simp add: feed_spec_def settled_parse)
next
  case False
  have "a_capacity a = 4 * a_maxSize a"
    using inv by (simp add: inv_defs)
  with False room show ?thesis
    by (intro Feed_recorder [OF inv])
      (auto simp: feed_spec_def write_position_def stream_run_record Let_def split: prod.splits)
qed

lemma feed_all_recorder_small:
  assumes "asm_inv a" and "\<not> a_mu a" and "settled (a_maxSize a) (window a)"
    and "a_writePos a + length (concat cs) \<le> 2 * a_maxSize a"
  shows "\<exists>a'. feed_all recorder cs a w =
             Some (Inr (replicate (length cs) None, a',
                        w @ fst (parse (a_maxSize a) (window a @ concat cs))))
           \<and> window a' = snd (parse (a_maxSize a) (window a @ concat cs))"
  using assms
proof (induction cs arbitrary: a w)
  case Nil
  then show ?case by (simp add: settled_parse)
next
  case (Cons c cs)
  let ?m = "a_maxSize a" and ?s = "window a @ c"
  obtain a1 where a1: "Feed recorder c a w = Some (Inr (None, a1, w @ fst (parse ?m ?s)))"
    "window a1 = snd (parse ?m ?s)" "same_frame a a1" "a_writePos a1 \<le> a_writePos a + length c"
    using Feed_recorder_small [OF Cons.prems(1-3), of c w] Cons.prems(4) by auto
  then obtain a' where "feed_all recorder cs a1 (w @ fst (parse ?m ?s)) =
      Some (Inr (replicate (length cs) None, a',
        (w @ fst (parse ?m ?s)) @ fst (parse ?m (snd (parse ?m ?s) @ concat cs))))"
    "window a' = snd (parse ?m (snd (parse ?m ?s) @ concat cs))"
    using Cons.IH [of a1 "w @ fst (parse ?m ?s)"] Cons.prems parse_settled [of ?m ?s]
    by (auto simp: same_frame_def)
  with a1 show ?case
    using parse_append [of ?m ?s "concat cs"] by simp
qed

section \<open>Streams of well-formed frames of any length\<close>

text \<open>A prefix of a stream of frames is whole frames and a piece of the next one.\<close>

lemma frames_prefix:
  assumes "list_all (wf_frame m) fs" and "p @ q = concat fs"
  shows "\<exists>fs1 fs2 r. fs = fs1 @ fs2 \<and> p = concat fs1 @ r \<and> r @ q = concat fs2
           \<and> settled m r \<and> (find_sync r = None \<longrightarrow> length r < SyncWordSize)
           \<and> (r = [] \<or> length r < m)"
  using assms
proof (induction fs arbitrary: p)
  case Nil
  then show ?case
    by (auto simp: settled_Nil SyncWordSize_def)
next
  case (Cons f fs)
  have wf: "wf_frame m f" "list_all (wf_frame m) fs"
    using Cons.prems(1) by simp_all
  from Cons.prems(2) have "p @ q = f @ concat fs" by simp
  then consider (whole) p2 where "p = f @ p2" "p2 @ q = concat fs"
    | (part) q1 where "f = p @ q1" "q1 \<noteq> []" "q = q1 @ concat fs"
    by (auto simp: append_eq_append_conv2) blast
  then show ?case
  proof cases
    case whole
    from Cons.IH [OF wf(2) whole(2)] obtain fs1 fs2 r where
      cut: "fs = fs1 @ fs2 \<and> p2 = concat fs1 @ r \<and> r @ q = concat fs2 \<and> settled m r
        \<and> (find_sync r = None \<longrightarrow> length r < SyncWordSize) \<and> (r = [] \<or> length r < m)"
      by (elim exE)
    then have "f # fs = (f # fs1) @ fs2 \<and> p = concat (f # fs1) @ r"
      using whole(1) by simp
    with cut show ?thesis
      by (rule_tac x = "f # fs1" in exI, rule_tac x = fs2 in exI, rule_tac x = r in exI) simp
  next
    case q1: part
    have "settled m p"
      using next_event_partial_frame [of m p q1] wf(1) q1 by (simp add: settled_def)
    moreover have "length p < SyncWordSize" if "find_sync p = None"
      using that wf(1) q1 sync_at_append [of 0 p q1]
      by (auto simp: wf_frame_def find_sync_None intro: ccontr)
    moreover have "length p < m"
      using q1 wf_frame_length [OF wf(1)] by (cases q1) auto
    ultimately show ?thesis
      using Cons.prems(2) by (rule_tac x = "[]" in exI, rule_tac x = "f # fs" in exI, rule_tac x = p in exI) simp
  qed
qed

text \<open>A handler accepts a list of frames when it returns nil on each of them in turn.\<close>

fun deliver :: "(byte list \<Rightarrow> 'w \<Rightarrow> ('e option \<times> 'w) go) \<Rightarrow> byte list list \<Rightarrow> 'w \<Rightarrow> 'w option" where
  "deliver F [] w = Some w"
| "deliver F (f # fs) w =
     (case F f w of Inr (None, w') \<Rightarrow> deliver F fs w' | _ \<Rightarrow> None)"

lemma deliver_append:
  "deliver F (xs @ ys) w = Option.bind (deliver F xs w) (deliver F ys)"
  by (induction xs arbitrary: w) (auto split: sum.splits option.splits)

lemma deliver_record: "deliver record_frame fs w = Some (w @ map FrameEvent fs)"
  by (induction fs arbitrary: w) (simp_all add: record_frame_def)

lemma stream_run_frames:
  assumes "list_all (wf_frame m) fs" and "deliver F fs w = Some w'"
    and "settled m r" and "find_sync r = None \<longrightarrow> length r < SyncWordSize"
  shows "stream_run F G m full (concat fs @ r) w = Inr (None, r, w')"
  using assms
proof (induction fs arbitrary: w)
  case Nil
  then show ?case
    by (auto simp: settled_def stream_run.simps)
next
  case (Cons f fs)
  then obtain w1 where "F f w = Inr (None, w1)" "deliver F fs w1 = Some w'"
    by (auto split: sum.splits option.splits)
  with Cons show ?case
    by (simp add: stream_run.simps [of F G m full "f @ concat fs @ r"]
        next_event_wf_frame handle_event_def)
qed

context locked_callbacks
begin

lemma Feed_keeps:
  assumes "asm_inv a" and "\<not> a_mu a"
    and "\<And>f w. P w \<Longrightarrow> keeps P S (F f w)" and "\<And>err w. P w \<Longrightarrow> keeps_world P S (G err w)"
    and "P w"
  shows "\<exists>res. Feed cb data a w = Some res
           \<and> (case res of Inl s \<Rightarrow> S s | Inr (e, a', w') \<Rightarrow> P w' \<and> same_frame a a')"
proof -
  have "keeps (P \<circ> snd) S (feed_spec F G a data w)"
    using assms(3-5) by (rule feed_spec_keeps)
  then show ?thesis
    using feed_refines [OF assms(1,2), of data w]
    by (auto simp: keeps_def split: sum.splits)
qed

text \<open>
  One read of a stream of frames: the window holds less than a frame, so the read fits after
  compaction, and the bytes end inside a frame, so nothing is dropped.
\<close>

lemma Feed_frames:
  assumes inv: "asm_inv a" "\<not> a_mu a" and m: "m = a_maxSize a" "0 < m"
    and wf: "list_all (wf_frame m) fs" and stream: "window a @ c @ rest = concat fs"
    and short: "length (window a) < m" "settled m (window a)" and chunk: "length c \<le> 3 * m"
    and acc: "deliver F fs w = Some w'"
  shows "\<exists>a' w1 fs2. Feed cb c a w = Some (Inr (None, a', w1))
           \<and> list_all (wf_frame m) fs2 \<and> deliver F fs2 w1 = Some w'
           \<and> window a' @ rest = concat fs2 \<and> same_frame a a'
           \<and> length (window a') < m \<and> settled m (window a')"
proof -
  obtain fs1 fs2 r where cut: "fs = fs1 @ fs2" "window a @ c = concat fs1 @ r" "r @ rest = concat fs2"
    "settled m r" "find_sync r = None \<longrightarrow> length r < SyncWordSize" "r = [] \<or> length r < m"
    using frames_prefix [OF wf, of "window a @ c" rest] stream by (metis append_assoc)
  have r: "length r < m"
    using m(2) cut(6) by auto
  have wf1: "list_all (wf_frame m) fs1" and wf2: "list_all (wf_frame m) fs2"
    using wf cut(1) by simp_all
  obtain w1 where w1: "deliver F fs1 w = Some w1" "deliver F fs2 w1 = Some w'"
    using acc cut(1) by (auto simp: deliver_append bind_eq_Some_conv)
  note run = stream_run_frames [OF wf1 w1(1) cut(4,5)]
  have "feed_spec F G a c w = Inr (None, r, w1)"
  proof (cases "c = []")
    case True
    then have "stream_run F G m False (window a) w = Inr (None, window a, w)"
      using short(2) by (simp add: settled_def stream_run.simps)
    with True show ?thesis
      using run [of G False] cut(2) by (simp add: feed_spec_def)
  next
    case False
    have "write_position a (length c) + length c \<le> a_capacity a"
      using inv short(1) chunk m by (auto simp: write_position_def length_window inv_defs)
    then show ?thesis
      using False m(1) run cut(2) by (simp add: feed_spec_def Let_def)
  qed
  moreover obtain res where "Feed cb c a w = Some res"
    "case res of
       Inl x \<Rightarrow> feed_spec F G a c w = Inl x
     | Inr (e, a', w') \<Rightarrow>
         feed_spec F G a c w = Inr (e, window a', w')
       \<and> same_frame a a' \<and> a_writePos a' \<le> a_writePos a + length c"
    using feed_refines [OF inv, of c w] by blast
  ultimately obtain a' where "Feed cb c a w = Some (Inr (None, a', w1))"
    "window a' = r" "same_frame a a'"
    by (cases res) auto
  with cut(3,4) r wf2 w1(2) show ?thesis
    by (rule_tac x = a' in exI, rule_tac x = w1 in exI, rule_tac x = fs2 in exI) simp
qed

lemma feed_all_frames:
  assumes "asm_inv a" and "\<not> a_mu a" and "m = a_maxSize a" and "0 < m"
    and "list_all (wf_frame m) fs" and "window a @ concat cs = concat fs"
    and "length (window a) < m" and "settled m (window a)" and "\<forall>c \<in> set cs. length c \<le> 3 * m"
    and "deliver F fs w = Some w'"
  shows "\<exists>a'. feed_all cb cs a w = Some (Inr (replicate (length cs) None, a', w'))
           \<and> window a' = [] \<and> same_frame a a'"
  using assms
proof (induction cs arbitrary: a w fs)
  case Nil
  then have "window a = concat fs" by simp
  then have "parse m (window a) = (map FrameEvent fs, [])"
    using parse_wf_frames [OF Nil.prems(5), of "[]"] by (simp add: settled_parse settled_Nil)
  then have "fs = []" "window a = []"
    using settled_parse [OF Nil.prems(8)] by simp_all
  then show ?case
    using Nil.prems by (simp add: same_frame_def)
next
  case (Cons c cs)
  obtain a1 w1 fs2 where step: "Feed cb c a w = Some (Inr (None, a1, w1))"
    "list_all (wf_frame m) fs2" "deliver F fs2 w1 = Some w'" "window a1 @ concat cs = concat fs2"
    "same_frame a a1" "length (window a1) < m" "settled m (window a1)"
    using Feed_frames [OF Cons.prems(1-5), of c "concat cs" w w'] Cons.prems(6-10) by auto
  moreover obtain a' where "feed_all cb cs a1 w1 = Some (Inr (replicate (length cs) None, a', w'))"
    "window a' = []" "same_frame a1 a'"
    using Cons.IH [of a1 fs2 w1] Cons.prems step by (auto simp: same_frame_def)
  ultimately show ?case
    using same_frame_trans [of a a1 a'] by simp
qed

end

section \<open>Properties of the framing\<close>

lemma new_assembler_facts:
  "asm_inv (NewSlidingWindowAssembler m)" "\<not> a_mu (NewSlidingWindowAssembler m)"
  "window (NewSlidingWindowAssembler m) = []"
  "a_maxSize (NewSlidingWindowAssembler m) = (if m \<le> 0 then MaxFrameSize else nat m)"
  "a_capacity (NewSlidingWindowAssembler m) = 4 * (if m \<le> 0 then MaxFrameSize else nat m)"
  "a_writePos (NewSlidingWindowAssembler m) = 0"
  "a_state (NewSlidingWindowAssembler m) = StateWaitSync"
  "available (NewSlidingWindowAssembler m) = 0"
  by (simp_all add: asm_inv_new window_new)
    (simp_all add: NewSlidingWindowAssembler_def Let_def available_def)

text \<open>C7. \<open>Feed\<close> refines the stream parser. With handlers that act on the world only, in any
  state the invariant allows, \<open>Feed\<close> returns (it neither loops nor panics by itself), and it
  does what \<open>feed_spec\<close> says: the events of the window followed by the new bytes are handled in
  order and the rest becomes the window, or the read does not fit and is reported and dropped.
  The invariant and the size of the buffer are kept, and the mutex is released.\<close>

theorem Feed_refines_parser:
  assumes "asm_inv a" and "\<not> a_mu a"
  shows "\<exists>res. Feed (callbacks_of F G) data a w = Some res \<and>
           (case res of
              Inl x \<Rightarrow> feed_spec F G a data w = Inl x
            | Inr (e, a', w') \<Rightarrow>
                feed_spec F G a data w = Inr (e, window a', w')
              \<and> asm_inv a' \<and> \<not> a_mu a' \<and> a_maxSize a' = a_maxSize a \<and> a_capacity a' = a_capacity a)"
proof -
  obtain res where res: "Feed (callbacks_of F G) data a w = Some res"
    "case res of
       Inl x \<Rightarrow> feed_spec F G a data w = Inl x
     | Inr (e, a', w') \<Rightarrow>
         feed_spec F G a data w = Inr (e, window a', w')
       \<and> same_frame a a' \<and> a_writePos a' \<le> a_writePos a + length data"
    using effects.feed_refines [OF assms, of F G data w] by blast
  with assms(2) show ?thesis
    by (cases res) (auto simp: same_frame_def)
qed

text \<open>The smallest frame: sync word, length 40, no beams.\<close>

definition small_frame :: "byte list" where
  "small_frame = [0x53, 0x4F, 0x4E, 0x52, 0, 40] @ replicate 34 0"

lemma wf_small_frame: "wf_frame 64 small_frame"
  by (simp add: wf_frame_def small_frame_def sync_at_def sub_slice_def length_field_def
      valid_length_def frame_consts SyncMagicBytes_def be_word_def be_nat_def)

lemma length_small_frame: "length small_frame = 40"
  by (simp add: small_frame_def)

lemma Feed_refines_parser_witness:
  "\<exists>res. Feed (callbacks_of record_frame record_error) small_frame (NewSlidingWindowAssembler 64) [] = Some res \<and>
     (case res of
        Inl x \<Rightarrow> feed_spec record_frame record_error (NewSlidingWindowAssembler 64) small_frame [] = Inl x
      | Inr (e, a', w') \<Rightarrow>
          feed_spec record_frame record_error (NewSlidingWindowAssembler 64) small_frame [] = Inr (e, window a', w')
        \<and> asm_inv a' \<and> \<not> a_mu a' \<and> a_maxSize a' = a_maxSize (NewSlidingWindowAssembler 64)
        \<and> a_capacity a' = a_capacity (NewSlidingWindowAssembler 64))"
  using Feed_refines_parser [of "NewSlidingWindowAssembler 64" record_frame record_error small_frame "[]"]
  by (simp add: new_assembler_facts)

text \<open>C8. A stream of well-formed frames, cut into reads anywhere, is delivered frame by frame
  and in order, whatever the frames hold between their headers: a sync word inside a payload or
  across two reads changes nothing, and no bytes stay in the window at the end. Reads are
  at most three frame sizes long, so that they fit beside an unfinished frame.\<close>

theorem framing_delivers_every_frame:
  assumes "0 < maxSize" and "list_all (wf_frame (nat maxSize)) fs" and "concat cs = concat fs"
    and "\<forall>c \<in> set cs. length c \<le> 3 * nat maxSize"
  shows "\<exists>a'. feed_all recorder cs (NewSlidingWindowAssembler maxSize) [] =
             Some (Inr (replicate (length cs) None, a', map FrameEvent fs)) \<and> window a' = []"
  using recorder.feed_all_frames [of "NewSlidingWindowAssembler maxSize" "nat maxSize" fs cs "[]"
      "map FrameEvent fs"] assms
  by (auto simp: new_assembler_facts settled_Nil deliver_record)

lemma framing_delivers_every_frame_witness:
  "\<exists>a'. feed_all recorder [take 3 small_frame, drop 3 small_frame @ take 39 small_frame, drop 39 small_frame]
      (NewSlidingWindowAssembler 64) []
      = Some (Inr ([None, None, None], a', [FrameEvent small_frame, FrameEvent small_frame])) \<and> window a' = []"
  using framing_delivers_every_frame [of 64 "[small_frame, small_frame]"
      "[take 3 small_frame, drop 3 small_frame @ take 39 small_frame, drop 39 small_frame]"]
    wf_small_frame length_small_frame
  by (simp add: append_assoc [symmetric] del: append_assoc) (simp add: numeral_3_eq_3)

text \<open>C40. On any bytes, frames or not, that fit in half the buffer, the events recorded are those
  of the stream parser on the whole stream, however it was cut into reads; so garbage before a
  frame is skipped, a header with a bad length is reported once and scanning goes on one byte
  behind it.\<close>

theorem framing_ignores_read_boundaries:
  assumes "0 < maxSize" and "length (concat cs) \<le> 2 * nat maxSize"
  shows "\<exists>a'. feed_all recorder cs (NewSlidingWindowAssembler maxSize) [] =
             Some (Inr (replicate (length cs) None, a', fst (parse (nat maxSize) (concat cs))))
           \<and> window a' = snd (parse (nat maxSize) (concat cs))"
  using feed_all_recorder_small [of "NewSlidingWindowAssembler maxSize" cs "[]"] assms
  by (simp add: new_assembler_facts settled_Nil)

lemma framing_ignores_read_boundaries_witness:
  "\<exists>a'. feed_all recorder [[0x53], [0x4F, 0x53, 0x4F]] (NewSlidingWindowAssembler 64) [] =
      Some (Inr ([None, None], a', fst (parse 64 [0x53, 0x4F, 0x53, 0x4F])))
    \<and> window a' = snd (parse 64 [0x53, 0x4F, 0x53, 0x4F])"
  using framing_ignores_read_boundaries [of 64 "[[0x53], [0x4F, 0x53, 0x4F]]"]
  by (simp add: numeral_2_eq_2)

lemma no_valid_length:
  assumes "m mod 65536 < 40"
  shows "\<not> valid_length m L"
proof
  assume "valid_length m L"
  then have "40 \<le> unat L" and "unat L \<le> unat (word_of_nat m :: u16)"
    by (auto simp: valid_length_def MinFrameSize_def word_less_nat_alt not_less)
  with assms show False
    by (simp add: unat_of_nat)
qed

lemma parse_no_frames:
  "m mod 65536 < 40 \<Longrightarrow> frames_of (fst (parse m s)) = []"
proof (induction m s rule: parse.induct)
  case (1 m s)
  show ?case
  proof (cases "next_event m s")
    case (Wait r)
    then show ?thesis by (simp add: parse_wait)
  next
    case (Emit ev r)
    moreover from Emit obtain L where "ev = BadLength L"
      using no_valid_length [OF "1.prems"] by (auto simp: next_event_def Let_def split: option.splits if_splits)
    ultimately show ?thesis
      using "1.IH" [OF Emit "1.prems"] by (simp add: parse_emit)
  qed
qed

text \<open>The length check compares with \<open>uint16(maxSize)\<close>: for a frame size whose low 16 bits
  are below 40, such as 65536, every length field is out of range, and no frame is ever
  delivered, whatever is sent.\<close>

theorem truncated_size_rejects_all_frames:
  assumes "0 < maxSize" and "nat maxSize mod 65536 < 40" and "length (concat cs) \<le> 2 * nat maxSize"
  shows "\<exists>a' evs. feed_all recorder cs (NewSlidingWindowAssembler maxSize) []
             = Some (Inr (replicate (length cs) None, a', evs)) \<and> frames_of evs = []"
  using feed_all_recorder_small [of "NewSlidingWindowAssembler maxSize" cs "[]"] assms
    parse_no_frames [OF assms(2)]
  by (auto simp: new_assembler_facts settled_Nil)

lemma truncated_size_rejects_all_frames_witness:
  "\<exists>a' evs. feed_all recorder [small_frame] (NewSlidingWindowAssembler 65536) []
      = Some (Inr ([None], a', evs)) \<and> frames_of evs = []"
  using truncated_size_rejects_all_frames [of 65536 "[small_frame]"]
  by (simp add: length_small_frame)

end
