(* ===== verification/Assembler_Drain.thy ===== *)
theory Assembler_Drain
  imports Assembler_Streams
begin

text \<open>
  \<open>DrainTo\<close> of the sliding-window assembler: what the writer gets and what is left, and the
  scan offset that \<open>DrainTo\<close> does not reset.
\<close>

text \<open>A writer that takes all it is given, as \<open>bytes.Buffer\<close> does.\<close>

definition write_all :: "byte list \<Rightarrow> byte list \<Rightarrow> (nat \<times> unit option) \<times> byte list" where
  "write_all bs out = ((length bs, None), out @ bs)"

lemma DrainTo_window:
  assumes "buffer_inv a" and "\<not> a_mu a" and "window a \<noteq> []"
    and "wr (window a) w = ((n, err), w')"
  shows "DrainTo wr a w =
     Inr ((n, err), if err = None then a\<lparr>a_readPos := a_readPos a + n\<rparr> else a, w')"
proof -
  have "available a \<noteq> 0"
    using assms(1,3) by (metis length_window length_0_conv)
  moreover have "a\<lparr>a_mu := False\<rparr> = a"
    using assms(2) by (cases a) simp
  moreover have "a\<lparr>a_mu := False, a_readPos := a_readPos a + n\<rparr> = a\<lparr>a_readPos := a_readPos a + n\<rparr>"
    using assms(2) by (cases a) simp
  ultimately show ?thesis
    using assms
    by (auto simp: DrainTo_def lock_def unlock_def available_def go_slice_def buffer_inv_def
        window_def split: option.splits)
qed

text \<open>\<open>DrainTo\<close> hands the window to the writer and, if the writer reports no error, drops
  from it the bytes the writer took; on an error it keeps them all. The buffer's invariant holds
  after it, for any writer that takes no more than it is given (the contract of \<open>io.Writer\<close>).\<close>

theorem DrainTo_returns_window:
  assumes "buffer_inv a" and "\<not> a_mu a" and "window a \<noteq> []"
    and "wr (window a) w = ((n, err), w')" and "n \<le> length (window a)"
  shows "\<exists>a'. DrainTo wr a w = Inr ((n, err), a', w') \<and> buffer_inv a' \<and> \<not> a_mu a'
           \<and> window a' = (if err = None then drop n (window a) else window a)"
  using assms DrainTo_window [of a wr w n err w'] length_window [OF assms(1)]
  by (auto simp: window_advance buffer_inv_def available_def)

lemma DrainTo_returns_window_witness:
  "\<exists>a'. DrainTo write_all (NewSlidingWindowAssembler 64\<lparr>a_writePos := 3\<rparr>) [9] = Inr ((3, None), a', [9, 0, 0, 0])
     \<and> buffer_inv a' \<and> \<not> a_mu a' \<and> window a' = []"
proof -
  have win: "window (NewSlidingWindowAssembler 64\<lparr>a_writePos := 3\<rparr>) = [0, 0, 0]"
    by (simp add: window_def NewSlidingWindowAssembler_def Let_def sub_slice_def numeral_3_eq_3)
  have "buffer_inv (NewSlidingWindowAssembler 64\<lparr>a_writePos := 3\<rparr>)"
    by (simp add: buffer_inv_def NewSlidingWindowAssembler_def Let_def MinFrameSize_def)
  from DrainTo_returns_window [OF this, of write_all "[9]" 3 None "[9, 0, 0, 0]"] win show ?thesis
    by (simp add: write_all_def new_assembler_facts)
qed

section \<open>The stale scan offset\<close>

lemma scan_sync_none:
  assumes "\<forall>i. start \<le> i \<and> i \<le> maxScan \<longrightarrow> be_word (sub_slice i (i + SyncWordSize) buf) \<noteq> SyncMagicBytes"
    and "maxScan + SyncWordSize \<le> length buf"
  shows "scan_sync buf start maxScan = Inr None"
  using assms
proof (induction buf start maxScan rule: scan_sync.induct)
  case (1 buf start maxScan)
  show ?case
  proof (cases "start \<le> maxScan")
    case True
    then have "go_slice buf start (start + SyncWordSize) = Inr (sub_slice start (start + SyncWordSize) buf)"
      using "1.prems"(2) by (intro go_slice_ok) auto
    with True "1.prems" "1.IH" [OF True] show ?thesis
      by (subst scan_sync.simps) simp
  next
    case False
    then show ?thesis by (simp add: scan_sync.simps)
  qed
qed

lemma scan_sync_window_none:
  assumes inv: "buffer_inv a" and "SyncWordSize \<le> available a"
    and none: "\<forall>i \<ge> k. \<not> sync_at (window a) i"
  shows "scan_sync (a_buf a) (a_readPos a + k) (a_writePos a - SyncWordSize) = Inr None"
proof (rule scan_sync_none)
  show "a_writePos a - SyncWordSize + SyncWordSize \<le> length (a_buf a)"
    using assms by (auto simp: buffer_inv_def available_def)
  show "\<forall>i. a_readPos a + k \<le> i \<and> i \<le> a_writePos a - SyncWordSize \<longrightarrow>
      be_word (sub_slice i (i + SyncWordSize) (a_buf a)) \<noteq> SyncMagicBytes"
  proof (intro allI impI)
    fix i
    assume i: "a_readPos a + k \<le> i \<and> i \<le> a_writePos a - SyncWordSize"
    then obtain j where j: "i = a_readPos a + j" "k \<le> j"
      by (metis add.assoc le_add1 le_iff_add)
    moreover have "j + SyncWordSize \<le> available a"
      using i j assms(2) by (simp add: available_def)
    ultimately show "be_word (sub_slice i (i + SyncWordSize) (a_buf a)) \<noteq> SyncMagicBytes"
      using window_sync_at [OF inv] none by simp
  qed
qed

lemma handleWaitSync_none:
  assumes "buffer_inv a" and "SyncWordSize \<le> available a" and "\<not> half_full a"
    and "\<forall>i \<ge> a_syncScanOffset a. \<not> sync_at (window a) i"
  shows "handleWaitSyncLocked cb a w = Inr (False,
           a\<lparr>a_syncScanOffset := a_writePos a - SyncWordSize - a_readPos a + 1\<rparr>, w)"
  using assms scan_sync_window_none [OF assms(1,2,4)]
  by (simp add: handleWaitSyncLocked_def Let_def half_full_def)

text \<open>\<open>DrainTo\<close> resets neither the state nor the scan offset. When it empties the window of an
  assembler that has scanned bytes without finding a sync word, the next frame, although it
  arrives whole and well formed, is scanned from the old offset on: its sync word is passed
  over and the frame is not delivered but stays in the window.\<close>

theorem drain_hides_next_frame:
  assumes "asm_inv a" and "\<not> a_mu a" and "a_state a = StateWaitSync" and "0 < a_syncScanOffset a"
    and "wf_frame (a_maxSize a) f" and "a_writePos a + length f \<le> 2 * a_maxSize a"
    and "\<forall>i \<ge> a_syncScanOffset a. \<not> sync_at f i"
  shows "\<exists>a1 a2. DrainTo write_all a out = Inr ((length (window a), None), a1, out @ window a)
           \<and> Feed recorder f a1 evs = Some (Inr (None, a2, evs)) \<and> window a2 = f
           \<and> a_state a2 = StateWaitSync"
proof -
  let ?n = "length (window a)" and ?off = "a_syncScanOffset a"
  let ?a1 = "a\<lparr>a_readPos := a_writePos a\<rparr>"
  have bi: "buffer_inv a" and len: "?n = available a"
    using assms(1) by (simp_all add: asm_inv_def length_window)
  have "0 < ?n"
    using assms(1,3,4) len by (auto simp: inv_defs SyncWordSize_def)
  then have "window a \<noteq> []" by auto
  then have drain: "DrainTo write_all a out = Inr ((?n, None), ?a1, out @ window a)"
    using DrainTo_window [OF bi assms(2), of write_all out ?n None "out @ window a"] bi len
    by (auto simp: write_all_def buffer_inv_def available_def)
  have f: "40 \<le> length f"
    using wf_frame_length [OF assms(5)] by simp
  have cap: "a_capacity a = 4 * a_maxSize a"
    using bi by (simp add: buffer_inv_def)
  obtain b where b: "copy_at (a_buf a) (a_writePos a) f = Inr b" "length b = length (a_buf a)"
    "sub_slice (a_writePos a) (a_writePos a + length f) b = f"
    using slice_copy_at [of "a_writePos a" "a_writePos a" f "a_buf a"] bi assms(6) cap
    by (auto simp: buffer_inv_def sub_slice_def)
  let ?a2 = "?a1\<lparr>a_mu := True, a_buf := b, a_writePos := a_writePos a + length f,
      a_stats := (a_stats a)\<lparr>BytesFed := BytesFed (a_stats a) + of_nat (length f)\<rparr>\<rparr>"
  let ?a3 = "?a2\<lparr>a_syncScanOffset := a_writePos ?a2 - SyncWordSize - a_readPos ?a2 + 1\<rparr>"
  have win: "window ?a2 = f" "window ?a3 = f"
    using b(3) by (simp_all add: window_def)
  have "handleWaitSyncLocked recorder ?a2 evs = Inr (False, ?a3, evs)"
    using bi b(2) assms(6,7) f cap win
    by (intro handleWaitSync_none) (auto simp: buffer_inv_def available_def half_full_def SyncWordSize_def)
  then have run: "runStateMachineLocked recorder ?a2 evs = Some (Inr (None, ?a3, evs))"
    using assms(3) by (subst runStateMachineLocked.simps) (simp add: machine_round_def)
  have "feedLocked recorder f (?a1\<lparr>a_mu := True\<rparr>) evs = Some (Inr (None, ?a3, evs))"
    using f b(1) run assms(6) cap by (auto simp: feedLocked_def)
  then have "Feed recorder f ?a1 evs = Some (Inr (None, unlock ?a3, evs))"
    using assms(2) by (simp add: Feed_def lock_def)
  moreover have "window (unlock ?a3) = f" and "a_state (unlock ?a3) = StateWaitSync"
    using win assms(3) by (simp_all add: unlock_def window_def)
  ultimately show ?thesis
    using drain by blast
qed

lemma sync_at_first_byte: "sync_at bs i \<Longrightarrow> bs ! i = 0x53"
proof -
  assume sync: "sync_at bs i"
  then have i: "i + 4 \<le> length bs"
    using sync_at_bound [of bs i] by (simp add: SyncWordSize_def)
  obtain b0 b1 b2 b3 where bs: "sub_slice i (i + 4) bs = [b0, b1, b2, b3]"
  proof -
    have "length (sub_slice i (i + 4) bs) = Suc (Suc (Suc (Suc 0)))"
      using i by (simp add: length_slice)
    then show ?thesis
      using that by (auto simp: length_Suc_conv)
  qed
  have b0: "bs ! i = b0"
    using arg_cong [OF bs, of hd] i by (simp add: sub_slice_def hd_drop_conv_nth)
  have "be_nat [b0, b1, b2, b3] = 0x534F4E52"
    using sync bs arg_cong [of "be_word [b0, b1, b2, b3] :: u32" _ unat]
      unat_be_word [of "[b0, b1, b2, b3]", where 'a = 32]
    by (simp add: sync_at_def SyncWordSize_def SyncMagicBytes_def)
  then have "unat b0 = 0x53"
    using unat_byte_less [of b1] unat_byte_less [of b2] unat_byte_less [of b3]
    by (simp add: be_nat_def)
  then show ?thesis
    using b0 by (simp add: word_unat_eq_iff)
qed

lemma small_frame_one_sync: "2 \<le> i \<Longrightarrow> \<not> sync_at small_frame i"
proof
  assume i: "2 \<le> i" and sync: "sync_at small_frame i"
  obtain j where j: "i = Suc (Suc j)"
    using i by (metis add_2_eq_Suc le_iff_add)
  let ?rest = "[0x4E, 0x52, 0, 40] @ replicate 34 (0 :: byte)"
  have "small_frame ! i = ?rest ! j"
    by (simp add: small_frame_def j)
  moreover have "j < length ?rest"
    using sync_at_bound [OF sync] j by (simp add: length_small_frame SyncWordSize_def)
  then have "?rest ! j \<in> set ?rest" by (rule nth_mem)
  ultimately show False
    using sync_at_first_byte [OF sync] by auto
qed

lemma drain_hides_next_frame_witness:
  "\<exists>a1 a2. DrainTo write_all (NewSlidingWindowAssembler 64\<lparr>a_writePos := 5, a_syncScanOffset := 2\<rparr>) []
        = Inr ((5, None), a1, [0, 0, 0, 0, 0])
     \<and> Feed recorder small_frame a1 [] = Some (Inr (None, a2, [])) \<and> window a2 = small_frame
     \<and> a_state a2 = StateWaitSync"
proof -
  let ?a = "NewSlidingWindowAssembler 64\<lparr>a_writePos := 5, a_syncScanOffset := 2\<rparr>"
  have win: "window ?a = [0, 0, 0, 0, 0]"
    by (simp add: window_def NewSlidingWindowAssembler_def Let_def sub_slice_def eval_nat_numeral)
  have "\<not> sync_at [0, 0, 0, 0, 0] i" for i
    using sync_at_first_byte [of "[0, 0, 0, 0, 0]" i] sync_at_bound [of "[0, 0, 0, 0, 0]" i]
    by (cases "i = 0 \<or> i = 1") (auto simp: SyncWordSize_def)
  then have "asm_inv ?a"
    unfolding asm_inv_def state_inv_def win
    by (simp add: buffer_inv_def available_def NewSlidingWindowAssembler_def Let_def MinFrameSize_def
        SyncWordSize_def)
  then have "\<exists>a1 a2. DrainTo write_all ?a [] = Inr ((length (window ?a), None), a1, [] @ window ?a)
      \<and> Feed recorder small_frame a1 [] = Some (Inr (None, a2, [])) \<and> window a2 = small_frame
      \<and> a_state a2 = StateWaitSync"
    using wf_small_frame small_frame_one_sync length_small_frame
    by (intro drain_hides_next_frame) (simp_all add: new_assembler_facts)
  moreover have "length [0, 0, 0, 0, 0 :: byte] = 5" by simp
  ultimately show ?thesis
    unfolding win by (simp only: append_Nil)
qed

end
