(* ===== verification/Sonar_Model.thy ===== *)
theory Sonar_Model
  imports Gateway_Prelude
begin

text \<open>
  The package \<open>internal/model\<close>: the ping, beam, INS, point-cloud and sound-speed records that
  the other packages pass around. Integer fields keep their width (an \<open>int16\<close> is a
  \<open>16 word\<close> read by \<open>sint\<close>); \<open>float64\<close> values are read as exact reals.
\<close>

section \<open>Pings and beams (sonar.go)\<close>

record BeamData =
  b_BeamIndex :: u16
  b_PointingAngle :: u16
  b_TravelTimeUS :: u16
  b_IntensityDB :: byte
  b_QualityFactor :: byte
  b_DetectInfo :: byte
  b_Reserved :: byte

record SonarPing =
  p_SyncPattern :: u32
  p_PacketLength :: u16
  p_PingCounter :: u16
  p_TimestampUS :: u64
  p_SoundSpeedDM :: u16
  p_NumBeams :: u16
  p_TiltAlongTrack :: u16
  p_TiltAcrossTrack :: u16
  p_SamplingFreqHz :: u32
  p_PulseLengthUS :: u16
  p_TransducerDepth :: u16
  p_Beams :: "BeamData list"

definition SyncMagic :: u32 where "SyncMagic = 0x534F4E52"
definition MaxBeamCount :: u16 where "MaxBeamCount = 512"
definition PacketHeaderBitLen :: nat where "PacketHeaderBitLen = 160"
definition BeamEntryBitLen :: nat where "BeamEntryBitLen = 80"

definition go_pi :: real where
  "go_pi = 314159265358979323846 / 10 ^ 20"

definition centideg_rad :: "u16 \<Rightarrow> real" where
  "centideg_rad c = real_of_int (sint c) / 100 * (go_pi / 180)"

definition TimestampSeconds :: "SonarPing \<Rightarrow> real" where
  "TimestampSeconds p = real (unat (p_TimestampUS p)) / 10 ^ 6"

definition SoundSpeedMs :: "SonarPing \<Rightarrow> real" where
  "SoundSpeedMs p = real (unat (p_SoundSpeedDM p)) / 10"

definition AngleRad :: "BeamData \<Rightarrow> real" where
  "AngleRad b = centideg_rad (b_PointingAngle b)"

definition TravelTimeSec :: "BeamData \<Rightarrow> real" where
  "TravelTimeSec b = real (unat (b_TravelTimeUS b)) / 10 ^ 6"

section \<open>Inertial navigation data (ins.go)\<close>

record INSData =
  i_TimestampUS :: u64
  i_LatDeg7 :: u64
  i_LonDeg7 :: u64
  i_DepthMM :: u32
  i_RollCentidg :: u16
  i_PitchCentidg :: u16
  i_HeadingCentidg :: u16
  i_HeaveMM :: u16
  i_VelXMM :: u16
  i_VelYMM :: u16
  i_VelZMM :: u16

definition zero_INSData :: INSData where
  "zero_INSData = \<lparr>i_TimestampUS = 0, i_LatDeg7 = 0, i_LonDeg7 = 0, i_DepthMM = 0,
     i_RollCentidg = 0, i_PitchCentidg = 0, i_HeadingCentidg = 0, i_HeaveMM = 0,
     i_VelXMM = 0, i_VelYMM = 0, i_VelZMM = 0\<rparr>"

definition Latitude :: "INSData \<Rightarrow> real" where
  "Latitude d = real_of_int (sint (i_LatDeg7 d)) / 10 ^ 7"

definition Longitude :: "INSData \<Rightarrow> real" where
  "Longitude d = real_of_int (sint (i_LonDeg7 d)) / 10 ^ 7"

definition DepthM :: "INSData \<Rightarrow> real" where
  "DepthM d = real_of_int (sint (i_DepthMM d)) / 1000"

definition RollRad :: "INSData \<Rightarrow> real" where
  "RollRad d = centideg_rad (i_RollCentidg d)"

definition PitchRad :: "INSData \<Rightarrow> real" where
  "PitchRad d = centideg_rad (i_PitchCentidg d)"

definition HeadingRad :: "INSData \<Rightarrow> real" where
  "HeadingRad d = centideg_rad (i_HeadingCentidg d)"

definition HeaveM :: "INSData \<Rightarrow> real" where
  "HeaveM d = real_of_int (sint (i_HeaveMM d)) / 1000"

section \<open>Point clouds (pointcloud.go)\<close>

record Point3D =
  q_Latitude :: real
  q_Longitude :: real
  q_Depth :: real
  q_X :: real
  q_Y :: real
  q_Z :: real
  q_Intensity :: byte
  q_TimestampUS :: u64
  q_PingIndex :: u16
  q_BeamIndex :: u16

record PointCloudFrame =
  f_TimestampUS :: u64
  f_PingCounter :: u16
  f_Points :: "Point3D list"
  f_NumPoints :: nat

definition NewPointCloudFrame :: "u64 \<Rightarrow> u16 \<Rightarrow> PointCloudFrame" where
  "NewPointCloudFrame ts cnt =
     \<lparr>f_TimestampUS = ts, f_PingCounter = cnt, f_Points = [], f_NumPoints = 0\<rparr>"

definition AddPoint :: "PointCloudFrame \<Rightarrow> Point3D \<Rightarrow> PointCloudFrame" where
  "AddPoint f p = f\<lparr>f_Points := f_Points f @ [p], f_NumPoints := f_NumPoints f + 1\<rparr>"

section \<open>Sound speed profiles (ssp.go)\<close>

record SSPEntry =
  s_DepthM :: real
  s_SoundSpeedMs :: real

record SoundSpeedProfile =
  s_Entries :: "SSPEntry list"
  s_TimestampUS :: u64

text \<open>The loop over adjacent entries of \<open>Interpolate\<close>.\<close>

fun interpolate_loop :: "SSPEntry list \<Rightarrow> real \<Rightarrow> real" where
  "interpolate_loop (e1 # e2 # es) depth =
     (if s_DepthM e1 \<le> depth \<and> depth < s_DepthM e2 then
        let ratio = (depth - s_DepthM e1) / (s_DepthM e2 - s_DepthM e1)
        in s_SoundSpeedMs e1 + ratio * (s_SoundSpeedMs e2 - s_SoundSpeedMs e1)
      else interpolate_loop (e2 # es) depth)"
| "interpolate_loop es depth = 1500"

definition Interpolate :: "SoundSpeedProfile \<Rightarrow> real \<Rightarrow> real" where
  "Interpolate s depth =
     (let es = s_Entries s in
      if es = [] then 1500
      else if depth \<le> s_DepthM (hd es) then s_SoundSpeedMs (hd es)
      else if s_DepthM (last es) \<le> depth then s_SoundSpeedMs (last es)
      else interpolate_loop es depth)"

definition MeanSpeed :: "SoundSpeedProfile \<Rightarrow> real" where
  "MeanSpeed s =
     (if s_Entries s = [] then 1500
      else foldl (\<lambda>sum e. sum + s_SoundSpeedMs e) 0 (s_Entries s)
             / real (length (s_Entries s)))"

subsection \<open>Interpolation stays inside the profile\<close>

lemma segment_between:
  fixes x0 x1 y0 y1 x :: real
  assumes "x0 \<le> x" "x < x1" "lo \<le> y0" "lo \<le> y1" "y0 \<le> hi" "y1 \<le> hi"
  shows "lo \<le> y0 + (x - x0) / (x1 - x0) * (y1 - y0)
       \<and> y0 + (x - x0) / (x1 - x0) * (y1 - y0) \<le> hi"
proof -
  define r where "r = (x - x0) / (x1 - x0)"
  have r: "0 \<le> r" "r \<le> 1"
    using assms by (auto simp: r_def field_simps)
  have eq: "y0 + r * (y1 - y0) = (1 - r) * y0 + r * y1"
    by (simp add: algebra_simps)
  have "(1 - r) * lo + r * lo \<le> (1 - r) * y0 + r * y1"
    using r assms by (intro add_mono mult_left_mono) auto
  moreover have "(1 - r) * y0 + r * y1 \<le> (1 - r) * hi + r * hi"
    using r assms by (intro add_mono mult_left_mono) auto
  ultimately show ?thesis
    using eq by (simp add: r_def[symmetric] algebra_simps)
qed

text \<open>
  Between the first and the last depth of any profile, sorted or not, the loop finds a
  segment: the depths cross the target somewhere.
\<close>

lemma interpolate_loop_bounds:
  assumes "es \<noteq> []" and "s_DepthM (hd es) \<le> depth" and "depth < s_DepthM (last es)"
    and "\<forall>e \<in> set es. lo \<le> s_SoundSpeedMs e \<and> s_SoundSpeedMs e \<le> hi"
  shows "lo \<le> interpolate_loop es depth \<and> interpolate_loop es depth \<le> hi"
  using assms
proof (induction es depth rule: interpolate_loop.induct)
  case (1 e1 e2 es depth)
  show ?case
  proof (cases "depth < s_DepthM e2")
    case True
    then show ?thesis
      using 1 segment_between [of "s_DepthM e1" depth "s_DepthM e2" lo
          "s_SoundSpeedMs e1" "s_SoundSpeedMs e2" hi]
      by (simp add: Let_def)
  next
    case False
    then show ?thesis using 1 by simp
  qed
qed auto

text \<open>At an entry's own depth a strictly sorted profile returns that entry's speed.\<close>

lemma interpolate_loop_knot:
  assumes "sorted_wrt (\<lambda>a b. s_DepthM a < s_DepthM b) (xs @ e # e' # ys)"
  shows "interpolate_loop (xs @ e # e' # ys) (s_DepthM e) = s_SoundSpeedMs e"
  using assms
proof (induction xs)
  case Nil
  then show ?case by simp
next
  case (Cons x xs)
  have "\<not> s_DepthM e < s_DepthM y" if "y \<in> set xs \<union> {e}" for y
    using Cons.prems that by (auto simp: sorted_wrt_append)
  then show ?case
    using Cons by (cases xs) auto
qed

text \<open>An interpolated speed lies between the smallest and the largest speed of the profile,
  at any depth, also when the entries are not sorted by depth: the fallback of 1500 at the end
  of the loop is never reached.\<close>

theorem Interpolate_bounds:
  assumes "s_Entries s \<noteq> []"
    and "\<forall>e \<in> set (s_Entries s). lo \<le> s_SoundSpeedMs e \<and> s_SoundSpeedMs e \<le> hi"
  shows "lo \<le> Interpolate s depth \<and> Interpolate s depth \<le> hi"
  using assms interpolate_loop_bounds [of "s_Entries s" depth lo hi]
  by (simp add: Interpolate_def Let_def)

definition sample_profile :: SoundSpeedProfile where
  "sample_profile = \<lparr>s_Entries = [\<lparr>s_DepthM = 0, s_SoundSpeedMs = 1520\<rparr>, \<lparr>s_DepthM = 40, s_SoundSpeedMs = 1490\<rparr>,
     \<lparr>s_DepthM = 100, s_SoundSpeedMs = 1500\<rparr>], s_TimestampUS = 0\<rparr>"

lemma Interpolate_bounds_witness:
  "1490 \<le> Interpolate sample_profile 20 \<and> Interpolate sample_profile 20 \<le> 1520"
  by (rule Interpolate_bounds) (simp_all add: sample_profile_def)

text \<open>On a profile sorted strictly by depth, interpolation at the depth of an entry returns
  the speed of that entry.\<close>

theorem Interpolate_knots:
  assumes "sorted_wrt (\<lambda>a b. s_DepthM a < s_DepthM b) (s_Entries s)" and "e \<in> set (s_Entries s)"
  shows "Interpolate s (s_DepthM e) = s_SoundSpeedMs e"
proof -
  obtain xs ys where es: "s_Entries s = xs @ e # ys"
    using assms(2) by (meson split_list)
  show ?thesis
  proof (cases ys)
    case Nil
    then show ?thesis
      using assms(1) es by (cases xs) (auto simp: Interpolate_def Let_def)
  next
    case (Cons e' zs)
    have "\<not> s_DepthM (last (e' # zs)) \<le> s_DepthM e"
      using assms(1) es Cons last_in_set [of "e' # zs"] by (auto simp: sorted_wrt_append not_le)
    moreover have "xs \<noteq> [] \<Longrightarrow> \<not> s_DepthM e \<le> s_DepthM (hd xs)"
      using assms(1) es hd_in_set [of xs] by (auto simp: sorted_wrt_append not_le)
    ultimately show ?thesis
      using assms(1) es Cons interpolate_loop_knot [of xs e e' zs]
      by (cases xs) (simp_all add: Interpolate_def Let_def)
  qed
qed

lemma Interpolate_knots_witness: "Interpolate sample_profile 40 = 1490"
  using Interpolate_knots [of sample_profile "\<lparr>s_DepthM = 40, s_SoundSpeedMs = 1490\<rparr>"]
  by (simp add: sample_profile_def)

end
