(* ===== verification/Frame_Validation.thy ===== *)
theory Frame_Validation
  imports Frame_Assembler Sonar_Model
begin

text \<open>
  \<open>ValidateSonarFrame\<close> and \<open>ValidatingAssembler\<close> of \<open>internal/framing/assembler.go\<close>: the
  checks of a completed frame as a function that returns the first failing check.
\<close>

datatype 'd frame_error =
    FrameTooShort nat
  | InvalidSyncWord u32
  | LengthMismatch u16 nat
  | TooManyBeams u16
  | TruncatedFrame nat u16 nat
  | FrameTooLong nat nat
  | DecodeError 'd
  | ValidationFailed "'d frame_error"

definition sync_word :: "byte list \<Rightarrow> u32" where
  "sync_word frame = be_word (sub_slice 0 4 frame)"

definition num_beams :: "byte list \<Rightarrow> u16" where
  "num_beams frame = be_word (sub_slice 18 20 frame)"

definition ValidateSonarFrame :: "byte list \<Rightarrow> 'd frame_error option" where
  "ValidateSonarFrame frame =
     (if length frame < HeaderByteSize then Some (FrameTooShort (length frame))
      else if sync_word frame \<noteq> SyncMagic then Some (InvalidSyncWord (sync_word frame))
      else if unat (length_field frame) \<noteq> length frame then
        Some (LengthMismatch (length_field frame) (length frame))
      else if num_beams frame > MaxBeamCount then Some (TooManyBeams (num_beams frame))
      else
        (let expectedLen = HeaderByteSize + unat (num_beams frame) * 10 in
         if length frame < expectedLen then
           Some (TruncatedFrame expectedLen (num_beams frame) (length frame))
         else None))"

text \<open>
  \<open>NewValidatingAssembler\<close> installs a frame handler that runs the validator, if there is one.
\<close>

definition validating_handler ::
    "(byte list \<Rightarrow> 'd frame_error option) option \<Rightarrow> byte list \<Rightarrow> assembler \<Rightarrow> 'w \<Rightarrow>
     ('d frame_error option \<times> assembler \<times> 'w) go" where
  "validating_handler validator frame a w =
     (case validator of
        None \<Rightarrow> Inr (None, a, w)
      | Some v \<Rightarrow>
          (case v frame of
             Some err \<Rightarrow> Inr (Some (ValidationFailed err), a, w)
           | None \<Rightarrow> Inr (None, a, w)))"

definition NewValidatingAssembler ::
    "int \<Rightarrow> (byte list \<Rightarrow> 'd frame_error option) option \<Rightarrow>
     (assembler \<times> ('w, 'd frame_error) callbacks) go" where
  "NewValidatingAssembler maxSize validator =
     (let a = NewSlidingWindowAssembler maxSize in
      case SetFrameHandler (validating_handler validator) a no_callbacks of
        Inl s \<Rightarrow> Inl s
      | Inr cb \<Rightarrow> Inr (a, cb))"

text \<open>A validated frame is exactly one that passes each check.\<close>

lemma ValidateSonarFrame_None:
  "ValidateSonarFrame frame = None \<longleftrightarrow>
     HeaderByteSize \<le> length frame \<and> sync_word frame = SyncMagic
   \<and> unat (length_field frame) = length frame
   \<and> unat (num_beams frame) \<le> 512 \<and> HeaderByteSize + unat (num_beams frame) * 10 \<le> length frame"
  by (auto simp: ValidateSonarFrame_def Let_def MaxBeamCount_def word_less_nat_alt)

lemma sync_word_sync_at:
  "HeaderByteSize \<le> length frame \<Longrightarrow> sync_word frame = SyncMagic \<longleftrightarrow> sync_at frame 0"
  by (simp add: sync_word_def sync_at_def SyncMagic_def SyncMagicBytes_def frame_consts)

end
