(* ===== verification/Safe_Processor.thy ===== *)
theory Safe_Processor
  imports Frame_Validation Assembler_Streams
begin

text \<open>
  \<open>SafeFrameProcessor\<close> of \<open>internal/framing/safe_processor.go\<close>: the checks and the decoder run
  on each completed frame, the count of consecutive errors, and the reset it asks of the
  assembler. The processor's own state is a record; \<open>'w\<close> is what the ping handler works on.
  The handlers run inside \<open>Feed\<close>, so the assembler's mutex is held when they call its
  \<open>Reset\<close>, which locks it again.
\<close>

record safe_processor =
  sp_maxConsecutiveErrors :: nat
  sp_errorCount :: nat
  sp_mu :: bool

text \<open>The decoder and the ping handler, the two functions the processor is given.\<close>

record ('w, 'd) processor_hooks =
  decoder :: "byte list \<Rightarrow> ('d + SonarPing) go"
  onPing :: "(SonarPing \<Rightarrow> 'w \<Rightarrow> 'w go) option"

definition new_processor :: safe_processor where
  "new_processor = \<lparr>sp_maxConsecutiveErrors = 10, sp_errorCount = 0, sp_mu = False\<rparr>"

text \<open>The length and beam-count checks at the head of \<open>handleValidFrame\<close>.\<close>

definition check_frame :: "byte list \<Rightarrow> 'd frame_error option" where
  "check_frame frame =
     (if length frame < HeaderByteSize then Some (FrameTooShort (length frame))
      else if unat (length_field frame) \<noteq> length frame then
        Some (LengthMismatch (length_field frame) (length frame))
      else if num_beams frame > MaxBeamCount then Some (TooManyBeams (num_beams frame))
      else
        (let minExpectedLen = HeaderByteSize + unat (num_beams frame) * 10;
             safeMaxLen = HeaderByteSize + unat MaxBeamCount * 10
         in if length frame < minExpectedLen then
              Some (TruncatedFrame minExpectedLen (num_beams frame) (length frame))
            else if length frame > safeMaxLen then Some (FrameTooLong (length frame) safeMaxLen)
            else None))"

text \<open>Count one more error; past the limit, reset the assembler and start counting again.\<close>

definition count_error :: "assembler \<Rightarrow> safe_processor \<Rightarrow> (assembler \<times> safe_processor) go" where
  "count_error a sp =
     (let sp1 = sp\<lparr>sp_errorCount := sp_errorCount sp + 1\<rparr> in
      if sp_errorCount sp1 > sp_maxConsecutiveErrors sp1 then
        (case Reset a of
           Inl s \<Rightarrow> Inl s
         | Inr a' \<Rightarrow> Inr (a', sp1\<lparr>sp_errorCount := 0\<rparr>))
      else Inr (a, sp1))"

definition sp_lock :: "safe_processor \<Rightarrow> safe_processor go" where
  "sp_lock sp = (if sp_mu sp then Inl Deadlock else Inr (sp\<lparr>sp_mu := True\<rparr>))"

definition sp_unlock :: "safe_processor \<Rightarrow> safe_processor" where
  "sp_unlock sp = sp\<lparr>sp_mu := False\<rparr>"

definition handleValidFrame ::
    "('w, 'd) processor_hooks \<Rightarrow> byte list \<Rightarrow> assembler \<Rightarrow> safe_processor \<times> 'w \<Rightarrow>
     ('d frame_error option \<times> assembler \<times> safe_processor \<times> 'w) go" where
  "handleValidFrame hooks frame a = (\<lambda>(sp, w).
     (case sp_lock sp of
        Inl s \<Rightarrow> Inl s
      | Inr sp1 \<Rightarrow>
          (case check_frame frame of
             Some err \<Rightarrow> Inr (Some err, a, sp_unlock sp1, w)
           | None \<Rightarrow>
               (case decoder hooks frame of
                  Inl s \<Rightarrow> Inl s
                | Inr (Inl err) \<Rightarrow>
                    (case count_error a sp1 of
                       Inl s \<Rightarrow> Inl s
                     | Inr (a', sp2) \<Rightarrow> Inr (Some (DecodeError err), a', sp_unlock sp2, w))
                | Inr (Inr ping) \<Rightarrow>
                    (let sp2 = sp1\<lparr>sp_errorCount := 0\<rparr> in
                     case onPing hooks of
                       None \<Rightarrow> Inr (None, a, sp_unlock sp2, w)
                     | Some handler \<Rightarrow>
                         (case handler ping w of
                            Inl s \<Rightarrow> Inl s
                          | Inr w' \<Rightarrow> Inr (None, a, sp_unlock sp2, w')))))))"

definition handleAssemblerError ::
    "'d frame_error asm_error \<Rightarrow> assembler \<Rightarrow> safe_processor \<times> 'w \<Rightarrow>
     (assembler \<times> safe_processor \<times> 'w) go" where
  "handleAssemblerError err a = (\<lambda>(sp, w).
     (case sp_lock sp of
        Inl s \<Rightarrow> Inl s
      | Inr sp1 \<Rightarrow>
          (case count_error a sp1 of
             Inl s \<Rightarrow> Inl s
           | Inr (a', sp2) \<Rightarrow> Inr (a', sp_unlock sp2, w))))"

text \<open>
  \<open>NewSafeSonarProcessor\<close>: a validating assembler whose frame handler is then replaced by
  \<open>handleValidFrame\<close>, so that the validator never runs.
\<close>

definition NewSafeSonarProcessor ::
    "('w, 'd) processor_hooks \<Rightarrow> int \<Rightarrow>
     (assembler \<times> safe_processor \<times> (safe_processor \<times> 'w, 'd frame_error) callbacks) go" where
  "NewSafeSonarProcessor hooks maxFrameSize =
     (case NewValidatingAssembler maxFrameSize (Some ValidateSonarFrame) of
        Inl s \<Rightarrow> Inl s
      | Inr (a, cb0) \<Rightarrow>
          (case SetFrameHandler (handleValidFrame hooks) a cb0 of
             Inl s \<Rightarrow> Inl s
           | Inr cb1 \<Rightarrow>
               (case SetErrorHandler handleAssemblerError a cb1 of
                  Inl s \<Rightarrow> Inl s
                | Inr cb2 \<Rightarrow> Inr (a, new_processor, cb2))))"

definition safe_callbacks ::
    "('w, 'd) processor_hooks \<Rightarrow> (safe_processor \<times> 'w, 'd frame_error) callbacks" where
  "safe_callbacks hooks =
     \<lparr>onFrame = Some (handleValidFrame hooks), onError = Some handleAssemblerError\<rparr>"

lemma NewSafeSonarProcessor_eq:
  "NewSafeSonarProcessor hooks maxFrameSize =
     Inr (NewSlidingWindowAssembler maxFrameSize, new_processor, safe_callbacks hooks)"
  by (simp add: NewSafeSonarProcessor_def NewValidatingAssembler_def SetFrameHandler_def
      SetErrorHandler_def safe_callbacks_def no_callbacks_def lock_def
      NewSlidingWindowAssembler_def Let_def)

definition SetPingHandler ::
    "(SonarPing \<Rightarrow> 'w \<Rightarrow> 'w go) \<Rightarrow> safe_processor \<Rightarrow> ('w, 'd) processor_hooks \<Rightarrow>
     (('w, 'd) processor_hooks) go" where
  "SetPingHandler handler sp hooks =
     (case sp_lock sp of Inl s \<Rightarrow> Inl s | Inr _ \<Rightarrow> Inr (hooks\<lparr>onPing := Some handler\<rparr>))"

definition safe_Feed ::
    "('w, 'd) processor_hooks \<Rightarrow> byte list \<Rightarrow> assembler \<Rightarrow> safe_processor \<times> 'w \<Rightarrow>
     ('d frame_error option \<times> assembler \<times> safe_processor \<times> 'w) go option" where
  "safe_Feed hooks data a spw = Feed (safe_callbacks hooks) data a spw"

definition safe_Stats :: "assembler \<Rightarrow> AssemblerStats go" where
  "safe_Stats a = Stats a"

definition safe_Reset :: "assembler \<Rightarrow> safe_processor \<Rightarrow> (assembler \<times> safe_processor) go" where
  "safe_Reset a sp =
     (case sp_lock sp of
        Inl s \<Rightarrow> Inl s
      | Inr sp1 \<Rightarrow>
          (case Reset a of
             Inl s \<Rightarrow> Inl s
           | Inr a' \<Rightarrow> Inr (a', sp_unlock (sp1\<lparr>sp_errorCount := 0\<rparr>))))"

definition safe_SetDebug :: "bool \<Rightarrow> assembler \<Rightarrow> assembler" where
  "safe_SetDebug enabled a = SetDebug enabled a"

section \<open>The handlers under the assembler's mutex\<close>

text \<open>
  What the handlers do when \<open>Feed\<close> calls them: the same code with every \<open>Reset\<close> blocked.
\<close>

definition count_error_effect :: "safe_processor \<Rightarrow> safe_processor go" where
  "count_error_effect sp =
     (if sp_errorCount sp + 1 > sp_maxConsecutiveErrors sp then Inl Deadlock
      else Inr (sp\<lparr>sp_errorCount := sp_errorCount sp + 1\<rparr>))"

definition frame_effect ::
    "('w, 'd) processor_hooks \<Rightarrow> byte list \<Rightarrow> safe_processor \<times> 'w \<Rightarrow>
     ('d frame_error option \<times> safe_processor \<times> 'w) go" where
  "frame_effect hooks frame = (\<lambda>(sp, w).
     (if sp_mu sp then Inl Deadlock
      else case check_frame frame of
        Some err \<Rightarrow> Inr (Some err, sp, w)
      | None \<Rightarrow>
          (case decoder hooks frame of
             Inl s \<Rightarrow> Inl s
           | Inr (Inl err) \<Rightarrow>
               (case count_error_effect sp of
                  Inl s \<Rightarrow> Inl s
                | Inr sp' \<Rightarrow> Inr (Some (DecodeError err), sp', w))
           | Inr (Inr ping) \<Rightarrow>
               (case onPing hooks of
                  None \<Rightarrow> Inr (None, sp\<lparr>sp_errorCount := 0\<rparr>, w)
                | Some handler \<Rightarrow>
                    (case handler ping w of
                       Inl s \<Rightarrow> Inl s
                     | Inr w' \<Rightarrow> Inr (None, sp\<lparr>sp_errorCount := 0\<rparr>, w'))))))"

definition error_effect ::
    "'d frame_error asm_error \<Rightarrow> safe_processor \<times> 'w \<Rightarrow> (safe_processor \<times> 'w) go" where
  "error_effect err = (\<lambda>(sp, w).
     (if sp_mu sp then Inl Deadlock
      else case count_error_effect sp of Inl s \<Rightarrow> Inl s | Inr sp' \<Rightarrow> Inr (sp', w)))"

lemma Reset_locked: "a_mu a \<Longrightarrow> Reset a = Inl Deadlock"
  by (simp add: Reset_def lock_def)

lemma count_error_locked:
  "a_mu a \<Longrightarrow> count_error a sp =
     (case count_error_effect sp of Inl s \<Rightarrow> Inl s | Inr sp' \<Rightarrow> Inr (a, sp'))"
  by (simp add: count_error_def count_error_effect_def Reset_locked Let_def)

interpretation safe: locked_callbacks "safe_callbacks hooks" "frame_effect hooks" error_effect for hooks
proof
  fix a :: assembler and f and w :: "safe_processor \<times> 'a"
  assume mu: "a_mu a"
  obtain sp v where w: "w = (sp, v)" by (cases w)
  show "call_onFrame (safe_callbacks hooks) f a w =
      (case frame_effect hooks f w of Inl s \<Rightarrow> Inl s | Inr (e, w') \<Rightarrow> Inr (e, a, w'))"
    using mu w
    by (cases sp)
      (auto simp: call_onFrame_def safe_callbacks_def handleValidFrame_def frame_effect_def
        sp_lock_def sp_unlock_def count_error_locked count_error_effect_def Let_def
        split: option.splits sum.splits)
next
  fix a :: assembler and err and w :: "safe_processor \<times> 'a"
  assume mu: "a_mu a"
  obtain sp v where w: "w = (sp, v)" by (cases w)
  show "call_onError (safe_callbacks hooks) err a w =
      (case error_effect err w of Inl s \<Rightarrow> Inl s | Inr w' \<Rightarrow> Inr (a, w'))"
    using mu w
    by (cases sp)
      (auto simp: call_onError_def safe_callbacks_def handleAssemblerError_def error_effect_def
        sp_lock_def sp_unlock_def count_error_locked count_error_effect_def
        split: sum.splits)
qed

section \<open>Errors and the deadlock\<close>

lemma check_frame_None:
  "check_frame frame = None \<longleftrightarrow>
     HeaderByteSize \<le> length frame \<and> unat (length_field frame) = length frame
   \<and> unat (num_beams frame) \<le> 512 \<and> HeaderByteSize + unat (num_beams frame) * 10 \<le> length frame
   \<and> length frame \<le> 5140"
  by (auto simp: check_frame_def Let_def MaxBeamCount_def word_less_nat_alt HeaderByteSize_def)

text \<open>A run that returns never leaves the count above the limit, and releases the mutex.\<close>

definition processor_ok :: "safe_processor \<Rightarrow> bool" where
  "processor_ok sp \<longleftrightarrow> \<not> sp_mu sp \<and> sp_errorCount sp \<le> sp_maxConsecutiveErrors sp"

lemma frame_effect_ok:
  "processor_ok sp \<Longrightarrow> frame_effect hooks f (sp, w) = Inr (e, sp', w') \<Longrightarrow>
     processor_ok sp' \<and> sp_maxConsecutiveErrors sp' = sp_maxConsecutiveErrors sp"
  by (auto simp: frame_effect_def count_error_effect_def processor_ok_def
      split: option.splits sum.splits if_splits)

lemma error_effect_ok:
  "processor_ok sp \<Longrightarrow> error_effect err (sp, w) = Inr (sp', w') \<Longrightarrow>
     processor_ok sp' \<and> sp_maxConsecutiveErrors sp' = sp_maxConsecutiveErrors sp
   \<and> sp_errorCount sp' = sp_errorCount sp + 1 \<and> w' = w"
  by (auto simp: error_effect_def count_error_effect_def processor_ok_def
      split: sum.splits if_splits)

text \<open>An error past the limit asks the locked assembler for a reset and never comes back.\<close>

lemma error_effect_limit:
  "sp_maxConsecutiveErrors sp \<le> sp_errorCount sp \<Longrightarrow> error_effect err (sp, w) = Inl Deadlock"
  by (simp add: error_effect_def count_error_effect_def)

lemma stream_run_bad_lengths:
  fixes hooks :: "('w, 'd) processor_hooks"
  assumes "parse m s = (map BadLength Ls @ evs, r)"
    and "sp_maxConsecutiveErrors sp < sp_errorCount sp + length Ls"
    and "processor_ok sp"
  shows "stream_run (frame_effect hooks) error_effect m full s (sp, w) = Inl Deadlock"
  using assms
proof (induction Ls arbitrary: s sp w)
  case Nil
  then show ?case by (simp add: processor_ok_def)
next
  case (Cons L Ls)
  then obtain s' where ev: "next_event m s = Emit (BadLength L) s'"
    and rest: "parse m s' = (map BadLength Ls @ evs, r)"
    by (cases "next_event m s") (auto simp: parse_wait parse_emit prod_eq_iff)
  show ?case
  proof (cases "error_effect (InvalidPacketLength L MinFrameSize m :: 'd frame_error asm_error) (sp, w)")
    case (Inl x)
    then have "x = Deadlock"
      by (auto simp: error_effect_def count_error_effect_def split: if_splits)
    with ev Inl show ?thesis
      by (simp add: stream_run.simps handle_event_def)
  next
    case (Inr spw)
    obtain sp1 w1 where spw: "spw = (sp1, w1)"
      by (cases spw)
    note sp1 = error_effect_ok [OF Cons.prems(3) Inr [unfolded spw]]
    with Cons.IH [OF rest, of sp1] Cons.prems(2) ev Inr spw show ?thesis
      by (simp add: stream_run.simps [of _ _ m _ s] handle_event_def)
  qed
qed

text \<open>What the handlers keep when the ping handler keeps a property \<open>Q\<close> of its world.\<close>

definition safe_world :: "('w \<Rightarrow> bool) \<Rightarrow> safe_processor \<times> 'w \<Rightarrow> bool" where
  "safe_world Q spw \<longleftrightarrow> processor_ok (fst spw) \<and> Q (snd spw)"

lemma frame_effect_keeps:
  assumes "\<And>f s. decoder hooks f = Inl s \<Longrightarrow> S s"
    and "\<And>h p w. onPing hooks = Some h \<Longrightarrow> Q w \<Longrightarrow> keeps_world Q S (h p w)"
    and "S Deadlock" and "safe_world Q spw"
  shows "keeps (safe_world Q) S (frame_effect hooks f spw)"
proof (cases spw)
  case (Pair sp w)
  have "processor_ok sp'" if "frame_effect hooks f (sp, w) = Inr (e, sp', w')" for e sp' w'
    using frame_effect_ok [OF _ that] assms(4) Pair by (simp add: safe_world_def)
  moreover have "Q w \<and> (\<forall>h p. onPing hooks = Some h \<longrightarrow> keeps_world Q S (h p w))"
    using assms(2,4) Pair by (simp add: safe_world_def)
  ultimately show ?thesis
    using assms(1,3) Pair
    by (fastforce simp: keeps_def keeps_world_def safe_world_def frame_effect_def count_error_effect_def
        split: sum.splits option.splits if_splits)
qed

lemma error_effect_keeps:
  assumes "S Deadlock" and "safe_world Q spw"
  shows "keeps_world (safe_world Q) S (error_effect err spw)"
  using assms by (cases spw)
    (auto simp: keeps_world_def safe_world_def error_effect_def count_error_effect_def processor_ok_def
      split: sum.splits if_splits)

end
