(* ===== verification/Bit_Reader.thy ===== *)
theory Bit_Reader
  imports Gateway_Prelude
begin

text \<open>
  \<open>BitReader\<close> of \<open>internal/uper/decoder.go\<close>: bits are read most significant first across byte
  boundaries. Values are \<open>64 word\<close> as in the code; bit positions are \<open>nat\<close>, which agrees with
  \<open>uint64\<close> while \<open>offset + n\<close> stays below \<open>2 ^ 64\<close> (the callers read at most 64 bits at a time).
  The specification \<open>bit_field\<close> takes the buffer as one big-endian number and cuts the field
  out of it.
\<close>

section \<open>Operations\<close>

record bit_reader =
  r_data :: "byte list"
  r_offset :: nat
  r_len :: nat

datatype bit_error = Overflow nat nat

definition NewBitReader :: "byte list \<Rightarrow> bit_reader" where
  "NewBitReader data = \<lparr>r_data = data, r_offset = 0, r_len = length data * 8\<rparr>"

definition BitsRemaining :: "bit_reader \<Rightarrow> nat" where
  "BitsRemaining r = (if r_offset r \<ge> r_len r then 0 else r_len r - r_offset r)"

text \<open>
  The loop of \<open>ReadBits\<close>: the rest of the current byte, or what is left to read. The mask
  \<open>byte((1 << bitsToRead) - 1)\<close> is computed at 8 bits, where \<open>1 << 8\<close> is 0.
\<close>

function read_bits_loop :: "byte list \<Rightarrow> nat \<Rightarrow> u64 \<Rightarrow> nat \<Rightarrow> (u64 \<times> nat) go" where
  "read_bits_loop data offset result remaining =
     (if remaining > 0 then
        (let byteIdx = offset div 8; bitIdx = offset mod 8;
             bitsInCurrentByte = 8 - bitIdx;
             bitsToRead = (if remaining > bitsInCurrentByte then bitsInCurrentByte else remaining);
             shift = bitsInCurrentByte - bitsToRead;
             mask = push_bit bitsToRead 1 - (1 :: byte)
         in if byteIdx \<ge> length data then Inl Panic
            else
              (let extracted = drop_bit shift (data ! byteIdx) AND mask
               in read_bits_loop data (offset + bitsToRead)
                    (push_bit bitsToRead result OR ucast extracted) (remaining - bitsToRead)))
      else Inr (result, offset))"
  by pat_completeness auto
termination
  by (relation "measure (\<lambda>(data, offset, result, remaining). remaining)") (auto simp: Let_def)

declare read_bits_loop.simps [simp del]

definition ReadBits :: "nat \<Rightarrow> bit_reader \<Rightarrow> ((bit_error + u64) \<times> bit_reader) go" where
  "ReadBits n r =
     (if n = 0 then Inr (Inr 0, r)
      else if r_offset r + n > r_len r then Inr (Inl (Overflow n (BitsRemaining r)), r)
      else
        (case read_bits_loop (r_data r) (r_offset r) 0 n of
           Inl s \<Rightarrow> Inl s
         | Inr (result, offset) \<Rightarrow> Inr (Inr result, r\<lparr>r_offset := offset\<rparr>)))"

definition ReadUint :: "nat \<Rightarrow> bit_reader \<Rightarrow> ((bit_error + u64) \<times> bit_reader) go" where
  "ReadUint n r = ReadBits n r"

text \<open>\<open>int64(val)\<close> keeps the bits, so the result stays a \<open>64 word\<close> read by \<open>sint\<close>.\<close>

definition sign_extend_val :: "nat \<Rightarrow> u64 \<Rightarrow> u64" where
  "sign_extend_val n val =
     (if n > 0 \<and> val AND push_bit (n - 1) 1 \<noteq> 0 then val OR NOT (push_bit n 1 - 1) else val)"

definition ReadInt :: "nat \<Rightarrow> bit_reader \<Rightarrow> ((bit_error + u64) \<times> bit_reader) go" where
  "ReadInt n r =
     (case ReadBits n r of
        Inl s \<Rightarrow> Inl s
      | Inr (Inl e, r') \<Rightarrow> Inr (Inl e, r')
      | Inr (Inr val, r') \<Rightarrow> Inr (Inr (sign_extend_val n val), r'))"

function bit_len_loop :: "u64 \<Rightarrow> nat \<Rightarrow> nat" where
  "bit_len_loop v n = (if v > 0 then bit_len_loop (drop_bit 1 v) (n + 1) else n)"
  by pat_completeness auto
termination
proof (relation "measure (\<lambda>(v, n). unat v)")
  fix v :: u64 and n :: nat
  assume "v > 0"
  then have "0 < unat v" by (simp add: word_less_nat_alt)
  then show "((drop_bit 1 v, n + 1), v, n) \<in> measure (\<lambda>(v, n). unat v)"
    by (simp add: drop_bit_eq_div unat_div)
qed simp

declare bit_len_loop.simps [simp del]

definition bitLen :: "u64 \<Rightarrow> nat" where
  "bitLen v = bit_len_loop v 0"

definition ReadConstrainedWholeNumber ::
    "u64 \<Rightarrow> u64 \<Rightarrow> bit_reader \<Rightarrow> ((bit_error + u64) \<times> bit_reader) go" where
  "ReadConstrainedWholeNumber lo hi r =
     (let rangeVal = hi - lo in
      if rangeVal = 0 then Inr (Inr lo, r)
      else
        (case ReadBits (bitLen rangeVal) r of
           Inl s \<Rightarrow> Inl s
         | Inr (Inl e, r') \<Rightarrow> Inr (Inl e, r')
         | Inr (Inr val, r') \<Rightarrow> Inr (Inr (lo + val), r')))"

text \<open>\<open>ReadBitField\<close>: one bit at a time into a left-aligned byte buffer.\<close>

fun read_bit_field_loop ::
    "nat \<Rightarrow> nat \<Rightarrow> byte list \<Rightarrow> bit_reader \<Rightarrow> ((bit_error + byte list) \<times> bit_reader) go" where
  "read_bit_field_loop i 0 buf r = Inr (Inr buf, r)"
| "read_bit_field_loop i (Suc k) buf r =
     (case ReadBits 1 r of
        Inl s \<Rightarrow> Inl s
      | Inr (Inl e, r') \<Rightarrow> Inr (Inl e, r')
      | Inr (Inr b, r') \<Rightarrow>
          (let byteIdx = i div 8; bitIdx = 7 - i mod 8 in
           if byteIdx \<ge> length buf then Inl Panic
           else read_bit_field_loop (i + 1) k
                  (buf[byteIdx := buf ! byteIdx OR ucast (push_bit bitIdx b)]) r'))"

definition ReadBitField :: "nat \<Rightarrow> bit_reader \<Rightarrow> ((bit_error + byte list) \<times> bit_reader) go" where
  "ReadBitField n r = read_bit_field_loop 0 n (replicate ((n + 7) div 8) 0) r"

definition ByteAlign :: "bit_reader \<Rightarrow> bit_reader" where
  "ByteAlign r =
     (let rem = r_offset r mod 8 in
      if rem \<noteq> 0 then r\<lparr>r_offset := r_offset r + (8 - rem)\<rparr> else r)"

definition Offset :: "bit_reader \<Rightarrow> nat" where
  "Offset r = r_offset r"

section \<open>The specification of a field\<close>

definition bit_field :: "byte list \<Rightarrow> nat \<Rightarrow> nat \<Rightarrow> nat" where
  "bit_field data p n = be_nat data div 2 ^ (8 * length data - p - n) mod 2 ^ n"

lemma be_nat_append: "be_nat (xs @ ys) = be_nat xs * 256 ^ length ys + be_nat ys"
proof (induction ys rule: rev_induct)
  case Nil
  show ?case by simp
next
  case (snoc y ys)
  have "be_nat (xs @ ys @ [y]) = be_nat (xs @ ys) * 256 + unat y"
    using be_nat_snoc [of "xs @ ys" y] by simp
  with snoc.IH show ?case by (simp add: algebra_simps)
qed

lemma bit_field_bound: "bit_field data p n < 2 ^ n"
  by (simp add: bit_field_def)

text \<open>A byte-aligned field is the number its bytes spell.\<close>

lemma pow_256: "(256 :: nat) ^ k = 2 ^ (8 * k)"
  by (simp add: power_mult)

lemma bit_field_bytes:
  assumes "i + k \<le> length data"
  shows "bit_field data (8 * i) (8 * k) = be_nat (take k (drop i data))"
proof -
  let ?post = "drop (i + k) data"
  have data: "data = take i data @ take k (drop i data) @ ?post"
    by (metis add.commute append_take_drop_id drop_drop)
  have len: "length ?post = length data - i - k"
    by simp
  have exp: "8 * length data - 8 * i - 8 * k = 8 * length ?post"
    using assms by simp
  have mid: "length (take k (drop i data)) = k"
    using assms by simp
  have "be_nat data = (be_nat (take i data) * 256 ^ k + be_nat (take k (drop i data)))
      * 256 ^ length ?post + be_nat ?post"
    by (subst data) (simp only: be_nat_append length_append mid power_add, simp add: algebra_simps)
  then have "be_nat data div 256 ^ length ?post
      = be_nat (take i data) * 256 ^ k + be_nat (take k (drop i data))"
    using be_nat_bound [of ?post] by simp
  moreover have "be_nat (take k (drop i data)) < 256 ^ k"
    using be_nat_bound [of "take k (drop i data)"] unfolding mid .
  ultimately show ?thesis
    unfolding bit_field_def exp by (simp add: pow_256 [symmetric] flip: power_mult)
qed

text \<open>A field splits into its leading and trailing bits.\<close>

lemma bit_field_split:
  assumes "p + k + n \<le> 8 * length data"
  shows "bit_field data p (k + n) = bit_field data p k * 2 ^ n + bit_field data (p + k) n"
proof -
  let ?N = "be_nat data" and ?A = "8 * length data - p - (k + n)"
  have "8 * length data - p - k = ?A + n"
    using assms by simp
  then have hi: "?N div 2 ^ (8 * length data - p - k) = ?N div 2 ^ ?A div 2 ^ n"
    by (simp add: power_add div_mult2_eq)
  have "(?N div 2 ^ ?A) mod (2 ^ n * 2 ^ k)
      = 2 ^ n * (?N div 2 ^ ?A div 2 ^ n mod 2 ^ k) + ?N div 2 ^ ?A mod 2 ^ n"
    by (rule mod_mult2_eq)
  then show ?thesis
    unfolding bit_field_def hi by (simp add: power_add mult.commute add.assoc)
qed

text \<open>The bits of one byte.\<close>

lemma bit_field_in_byte:
  assumes "i < length data" and "j + k \<le> 8"
  shows "bit_field data (8 * i + j) k = unat (data ! i) div 2 ^ (8 - j - k) mod 2 ^ k"
proof -
  define s where "s = 8 - j - k"
  have s: "j + (k + s) = 8"
    using assms(2) by (simp add: s_def)
  have "bit_field data (8 * i) 8 = be_nat [data ! i]"
    using bit_field_bytes [of i 1 data] assms(1)
    by (simp add: take_Suc_conv_app_nth)
  then have byte: "bit_field data (8 * i) 8 = unat (data ! i)"
    by (simp add: be_nat_def)
  have "8 * i + (j + (k + s)) \<le> 8 * length data"
    using assms(1) s by simp
  then have "bit_field data (8 * i) (j + (k + s)) =
      bit_field data (8 * i) j * 2 ^ (k + s)
      + (bit_field data (8 * i + j) k * 2 ^ s + bit_field data (8 * i + j + k) s)"
    using bit_field_split [of "8 * i" j "k + s" data]
      bit_field_split [of "8 * i + j" k s data] by (simp add: add.assoc)
  then have "unat (data ! i) =
      (bit_field data (8 * i) j * 2 ^ k + bit_field data (8 * i + j) k) * 2 ^ s
      + bit_field data (8 * i + j + k) s"
    unfolding s byte by (simp add: power_add algebra_simps)
  then have "unat (data ! i) div 2 ^ s =
      bit_field data (8 * i) j * 2 ^ k + bit_field data (8 * i + j) k"
    using bit_field_bound [of data "8 * i + j + k" s] by simp
  then show ?thesis
    using bit_field_bound [of data "8 * i + j" k] by (simp add: s_def)
qed

section \<open>Reading refines the specification\<close>

lemma low_mask: "push_bit k 1 - (1 :: 'a::len word) = mask k"
  by (simp add: mask_eq_exp_minus_1 push_bit_eq_mult)

lemma extracted_bits:
  "unat (drop_bit s (b :: byte) AND (push_bit k 1 - 1)) = unat b div 2 ^ s mod 2 ^ k"
  using unat_byte_less [of b]
  by (simp only: low_mask take_bit_eq_mask [symmetric] unsigned_take_bit_eq unsigned_drop_bit_eq)
    (simp add: take_bit_eq_mod drop_bit_eq_div unsigned_drop_bit_eq drop_bit_take_bit
      take_bit_drop_bit)

text \<open>Shifting an accumulator and or-ing in fewer bits than the shift is adding.\<close>

lemma shift_or_add:
  assumes "unat (x :: byte) < 2 ^ k"
  shows "push_bit k (word_of_nat acc) OR ucast x = (word_of_nat (acc * 2 ^ k + unat x) :: u64)"
proof -
  have "\<not> bit x i" if "k \<le> i" for i
  proof -
    have "take_bit k (unat x) = unat x"
      using assms by (simp add: take_bit_nat_eq_self)
    then have "bit (unat x) i \<longleftrightarrow> i < k \<and> bit (unat x) i"
      by (metis bit_take_bit_iff)
    with that show ?thesis
      by (simp add: bit_unsigned_iff)
  qed
  then have "push_bit k (word_of_nat acc) OR ucast x = push_bit k (word_of_nat acc) + (ucast x :: u64)"
    by (intro disjunctive_add [symmetric]) (auto simp: bit_push_bit_iff bit_ucast_iff)
  also have "\<dots> = word_of_nat (acc * 2 ^ k + unat x)"
    by (simp add: push_bit_eq_mult unsigned_ucast_eq) 
  finally show ?thesis .
qed

lemma read_bits_loop_spec:
  assumes "p + n \<le> 8 * length data"
  shows "read_bits_loop data p (word_of_nat acc) n
           = Inr (word_of_nat (acc * 2 ^ n + bit_field data p n), p + n)"
  using assms
proof (induction n arbitrary: p acc rule: less_induct)
  case (less n)
  show ?case
  proof (cases "n = 0")
    case True
    then show ?thesis by (simp add: read_bits_loop.simps bit_field_def)
  next
    case False
    let ?i = "p div 8" and ?j = "p mod 8"
    define k where "k = (if n > 8 - ?j then 8 - ?j else n)"
    have j: "?j < 8" by simp
    have k: "0 < k" "k \<le> n" "?j + k \<le> 8"
      using False j by (auto simp: k_def)
    have i: "?i < length data"
      using less.prems False by simp
    have p: "p = 8 * ?i + ?j" by simp
    let ?x = "drop_bit (8 - ?j - k) (data ! ?i) AND (push_bit k 1 - 1)"
    have x: "unat ?x = bit_field data p k"
      unfolding extracted_bits using bit_field_in_byte [OF i k(3)] by simp
    then have "push_bit k (word_of_nat acc) OR ucast ?x
        = (word_of_nat (acc * 2 ^ k + bit_field data p k) :: u64)"
      using shift_or_add [of ?x k acc] bit_field_bound [of data p k] by simp
    then have "read_bits_loop data p (word_of_nat acc) n
        = read_bits_loop data (p + k) (word_of_nat (acc * 2 ^ k + bit_field data p k)) (n - k)"
      using False i by (subst read_bits_loop.simps) (simp add: Let_def k_def [symmetric])
    also have "\<dots> = Inr (word_of_nat ((acc * 2 ^ k + bit_field data p k) * 2 ^ (n - k)
        + bit_field data (p + k) (n - k)), p + k + (n - k))"
      using k less.prems by (intro less.IH) auto
    also have "(acc * 2 ^ k + bit_field data p k) * 2 ^ (n - k) + bit_field data (p + k) (n - k)
        = acc * 2 ^ n + bit_field data p n"
    proof -
      have "(2 :: nat) ^ n = 2 ^ k * 2 ^ (n - k)"
        using k by (simp flip: power_add)
      then show ?thesis
        using bit_field_split [of p k "n - k" data] k less.prems by (simp add: algebra_simps)
    qed
    finally show ?thesis using k by simp
  qed
qed

text \<open>The reader's own invariant: its length is its buffer's.\<close>

definition reader_ok :: "bit_reader \<Rightarrow> bool" where
  "reader_ok r \<longleftrightarrow> r_len r = length (r_data r) * 8"

lemma reader_ok_new [simp]: "reader_ok (NewBitReader data)"
  by (simp add: reader_ok_def NewBitReader_def)

lemma ReadBits_spec:
  assumes "reader_ok r"
  shows "ReadBits n r =
     (if n = 0 then Inr (Inr 0, r)
      else if r_len r < r_offset r + n then Inr (Inl (Overflow n (BitsRemaining r)), r)
      else Inr (Inr (word_of_nat (bit_field (r_data r) (r_offset r) n)),
                r\<lparr>r_offset := r_offset r + n\<rparr>))"
  using assms read_bits_loop_spec [of "r_offset r" n "r_data r" 0]
  by (auto simp: ReadBits_def reader_ok_def not_less)

lemma ReadBits_ok:
  assumes "reader_ok r" and "r_offset r + n \<le> r_len r"
  shows "ReadBits n r = Inr (Inr (word_of_nat (bit_field (r_data r) (r_offset r) n)),
                             r\<lparr>r_offset := r_offset r + n\<rparr>)"
  using assms by (auto simp: ReadBits_spec bit_field_def)

lemma ReadBits_no_panic: "reader_ok r \<Longrightarrow> ReadBits n r \<noteq> Inl s"
  by (simp add: ReadBits_spec)

lemma ReadBits_keeps: "reader_ok r \<Longrightarrow> ReadBits n r = Inr (v, r') \<Longrightarrow> reader_ok r'"
  by (auto simp: ReadBits_spec reader_ok_def split: if_splits)

section \<open>Bit lengths and constrained whole numbers\<close>

lemma bit_len_loop_bounds:
  "n \<le> bit_len_loop v n \<and> unat v < 2 ^ (bit_len_loop v n - n)
     \<and> (v \<noteq> 0 \<longrightarrow> n < bit_len_loop v n \<and> 2 ^ (bit_len_loop v n - n - 1) \<le> unat v)"
proof (induction v n rule: bit_len_loop.induct)
  case (1 v n)
  show ?case
  proof (cases "v = 0")
    case True
    then show ?thesis by (simp add: bit_len_loop.simps)
  next
    case False
    then have pos: "0 < v" "0 < unat v"
      by (simp_all add: word_gt_0 unat_gt_0)
    let ?h = "drop_bit 1 v" and ?L = "bit_len_loop v n"
    have half: "unat ?h = unat v div 2"
      by (simp add: drop_bit_eq_div unat_div)
    have L: "?L = bit_len_loop ?h (n + 1)"
      using pos by (subst bit_len_loop.simps) simp
    have IH: "n + 1 \<le> ?L" "unat v div 2 < 2 ^ (?L - (n + 1))"
      "?h \<noteq> 0 \<longrightarrow> n + 1 < ?L \<and> 2 ^ (?L - (n + 1) - 1) \<le> unat v div 2"
      using "1.IH" [OF pos(1)] unfolding L half by auto
    have exp: "?L - n = Suc (?L - (n + 1))"
      using IH(1) by simp
    have "unat v < 2 ^ (?L - n)"
      unfolding exp using IH(2) by simp
    moreover have "2 ^ (?L - n - 1) \<le> unat v"
    proof (cases "?h = 0")
      case True
      then have "unat v div 2 = 0"
        using half by simp
      then have "unat v = 1"
        using pos(2) by simp
      then have "?L = n + 1"
        using L True by (simp add: bit_len_loop.simps)
      with pos show ?thesis by simp
    next
      case h: False
      with IH(3) have "n + 1 < ?L" and le: "2 ^ (?L - (n + 1) - 1) \<le> unat v div 2"
        by blast+
      then have "?L - n - 1 = Suc (?L - (n + 1) - 1)"
        by arith
      with le show ?thesis by simp
    qed
    ultimately show ?thesis using IH(1) by simp
  qed
qed

lemma bitLen_bounds:
  "unat v < 2 ^ bitLen v" and bitLen_lower: "v \<noteq> 0 \<Longrightarrow> 2 ^ (bitLen v - 1) \<le> unat v"
  using bit_len_loop_bounds [of 0 v] by (simp_all add: bitLen_def)

section \<open>Signed reads\<close>

lemma sign_extend_low:
  "LENGTH('a::len) \<le> n \<Longrightarrow> (ucast (sign_extend_val n val) :: 'a word) = ucast val"
  unfolding sign_extend_val_def low_mask
  by (rule bit_word_eqI) (auto simp: bit_simps)

section \<open>What the reader returns\<close>

text \<open>\<open>ReadBits\<close> in any position and of any width up to 64 returns the bits of the buffer
  read as one big-endian number, most significant bit first across byte boundaries, and moves
  the offset by the width; it reports an overflow and stays where it is exactly when the
  buffer holds fewer bits, and its byte accesses never panic.\<close>

theorem ReadBits_reads_field:
  assumes "reader_ok r" and "0 < n" and "n \<le> 64"
  shows "(\<exists>v. ReadBits n r = Inr (Inr v, r\<lparr>r_offset := r_offset r + n\<rparr>)
            \<and> unat v = bit_field (r_data r) (r_offset r) n \<and> r_offset r + n \<le> 8 * length (r_data r))
       \<or> (ReadBits n r = Inr (Inl (Overflow n (BitsRemaining r)), r)
            \<and> 8 * length (r_data r) < r_offset r + n)"
proof (cases "r_len r < r_offset r + n")
  case True
  with assms show ?thesis
    by (simp add: ReadBits_spec reader_ok_def)
next
  case False
  have "bit_field (r_data r) (r_offset r) n < 2 ^ n"
    by (rule bit_field_bound)
  also have "\<dots> \<le> (2 :: nat) ^ 64"
    using assms(3) by (intro power_increasing) auto
  finally have "unat (word_of_nat (bit_field (r_data r) (r_offset r) n) :: u64)
      = bit_field (r_data r) (r_offset r) n"
    by (simp add: unat_of_nat)
  with False assms show ?thesis
    by (simp add: ReadBits_ok reader_ok_def)
qed

lemma ReadBits_reads_field_witness:
  "\<exists>v. ReadBits 7 (NewBitReader [0xA5, 0x3C]\<lparr>r_offset := 5\<rparr>)
        = Inr (Inr v, NewBitReader [0xA5, 0x3C]\<lparr>r_offset := 12\<rparr>) \<and> unat v = 83"
  using ReadBits_reads_field [of "NewBitReader [0xA5, 0x3C]\<lparr>r_offset := 5\<rparr>" 7]
  by (simp add: reader_ok_def NewBitReader_def bit_field_def be_nat_def)

text \<open>Two's complement of an \<open>n\<close>-bit number.\<close>

definition signed_value :: "nat \<Rightarrow> nat \<Rightarrow> int" where
  "signed_value n x = (if x < 2 ^ (n - 1) then int x else int x - 2 ^ n)"

lemma signed_value_range:
  assumes "x < 2 ^ n" and "0 < n"
  shows "- (2 ^ (n - 1)) \<le> signed_value n x \<and> signed_value n x < 2 ^ (n - 1)"
proof -
  have "int x < 2 ^ n" and "x < 2 ^ (n - 1) \<longleftrightarrow> int x < 2 ^ (n - 1)"
    using assms(1) by simp_all
  moreover have "2 ^ n = 2 * (2 :: int) ^ (n - 1)"
    using assms(2) by (cases n) simp_all
  moreover have "0 < (2 :: int) ^ (n - 1)" by simp
  ultimately show ?thesis
    unfolding signed_value_def by (simp split: if_splits)
qed

lemma sign_bit_test:
  assumes "x < 2 ^ n" and "0 < n" and "n \<le> 64"
  shows "((word_of_nat x :: u64) AND push_bit (n - 1) 1 \<noteq> 0) = (2 ^ (n - 1) \<le> x)"
proof -
  have "(word_of_nat x :: u64) AND push_bit (n - 1) 1 \<noteq> 0 \<longleftrightarrow> bit (word_of_nat x :: u64) (n - 1)"
    by (simp add: and_exp_eq_0_iff_not_bit push_bit_eq_mult)
  also have "\<dots> \<longleftrightarrow> bit x (n - 1)"
    using assms by (auto simp: bit_simps)
  also have "\<dots> \<longleftrightarrow> 2 ^ (n - 1) \<le> x"
  proof -
    have "2 ^ n = 2 * (2 :: nat) ^ (n - 1)"
      using assms(2) by (cases n) simp_all
    with assms(1) have "x div 2 ^ (n - 1) < 2"
      by (simp add: less_mult_imp_div_less)
    moreover have "x div 2 ^ (n - 1) = 0 \<longleftrightarrow> x < 2 ^ (n - 1)"
      by (simp add: div_eq_0_iff)
    ultimately show ?thesis
      unfolding bit_iff_odd by (cases "x div 2 ^ (n - 1)") (auto simp: not_less)
  qed
  finally show ?thesis .
qed

lemma sign_extend_val_word:
  assumes "x < 2 ^ n" and "0 < n" and "n \<le> 64"
  shows "sign_extend_val n (word_of_nat x) = word_of_int (signed_value n x)"
proof (cases "2 ^ (n - 1) \<le> x")
  case False
  with sign_bit_test [OF assms] show ?thesis
    by (simp add: sign_extend_val_def signed_value_def)
next
  case True
  let ?x = "word_of_nat x :: u64"
  have "\<not> bit ?x i" if "n \<le> i" for i
  proof -
    have "take_bit n x = x"
      using assms(1) by (simp add: take_bit_nat_eq_self)
    then have "bit x i \<longleftrightarrow> i < n \<and> bit x i"
      by (metis bit_take_bit_iff)
    with that show ?thesis by (simp add: bit_simps)
  qed
  then have "?x OR NOT (mask n) = ?x + NOT (mask n)"
    by (intro disjunctive_add [symmetric]) (auto simp: bit_not_iff bit_mask_iff not_less)
  moreover have neg: "NOT (mask n :: u64) = - (2 ^ n)"
    by (simp add: not_eq_complement mask_eq_decr_exp)
  ultimately have "?x OR NOT (mask n) = word_of_int (int x - 2 ^ n)"
    unfolding neg by simp
  then show ?thesis
    using True sign_bit_test [OF assms] assms(2)
    unfolding sign_extend_val_def low_mask signed_value_def by simp
qed

text \<open>\<open>ReadInt\<close> reads the field of its width as a two's complement number: the bits are
  sign-extended to 64, so the value lies between \<open>- 2 ^ (n - 1)\<close> and \<open>2 ^ (n - 1) - 1\<close>.\<close>

theorem ReadInt_reads_signed:
  assumes "reader_ok r" and "0 < n" and "n \<le> 64" and "r_offset r + n \<le> 8 * length (r_data r)"
  shows "\<exists>v. ReadInt n r = Inr (Inr v, r\<lparr>r_offset := r_offset r + n\<rparr>)
           \<and> sint v = signed_value n (bit_field (r_data r) (r_offset r) n)
           \<and> - (2 ^ (n - 1)) \<le> sint v \<and> sint v < 2 ^ (n - 1)"
proof -
  let ?x = "bit_field (r_data r) (r_offset r) n" and ?m = "n - 1"
  have x: "?x < 2 ^ n" by (rule bit_field_bound)
  have range: "- (2 ^ ?m) \<le> signed_value n ?x" "signed_value n ?x < 2 ^ ?m"
    using signed_value_range [OF x assms(2)] by simp_all
  then have "- (2 ^ 63) \<le> signed_value n ?x" "signed_value n ?x < 2 ^ 63"
    using power_increasing [of ?m 63 "2 :: int"] assms(3) by linarith+
  then have "sint (word_of_int (signed_value n ?x) :: u64) = signed_value n ?x"
    by (simp add: signed_of_int signed_take_bit_int_eq_self)
  moreover have "ReadInt n r = Inr (Inr (word_of_int (signed_value n ?x)), r\<lparr>r_offset := r_offset r + n\<rparr>)"
    using assms x by (simp add: ReadInt_def ReadBits_ok reader_ok_def sign_extend_val_word)
  ultimately show ?thesis using range by auto
qed

lemma ReadInt_reads_signed_witness:
  "\<exists>v. ReadInt 12 (NewBitReader [0xFF, 0xE7]) = Inr (Inr v, NewBitReader [0xFF, 0xE7]\<lparr>r_offset := 12\<rparr>)
     \<and> sint v = -2"
  using ReadInt_reads_signed [of "NewBitReader [0xFF, 0xE7]" 12]
  by (simp add: NewBitReader_def bit_field_def be_nat_def signed_value_def) (auto simp: reader_ok_def)

text \<open>\<open>ReadConstrainedWholeNumber\<close> reads the value back that an encoder wrote as its offset
  from the lower bound, in the fewest bits that hold the range; nothing keeps the value within
  the range, but it is below the next power of two.\<close>

theorem ReadConstrained_reads_offset:
  assumes "reader_ok r" and "lo < hi" and "r_offset r + bitLen (hi - lo) \<le> 8 * length (r_data r)"
  shows "ReadConstrainedWholeNumber lo hi r =
           Inr (Inr (lo + word_of_nat (bit_field (r_data r) (r_offset r) (bitLen (hi - lo)))),
                r\<lparr>r_offset := r_offset r + bitLen (hi - lo)\<rparr>)
       \<and> unat (hi - lo) < 2 ^ bitLen (hi - lo) \<and> 2 ^ bitLen (hi - lo) \<le> 2 * unat (hi - lo)
       \<and> bit_field (r_data r) (r_offset r) (bitLen (hi - lo)) < 2 * unat (hi - lo)"
proof -
  let ?L = "bitLen (hi - lo)"
  have ne: "hi - lo \<noteq> 0"
    using assms(2) by simp
  have hi: "unat (hi - lo) < 2 ^ ?L" and lo: "2 ^ (?L - 1) \<le> unat (hi - lo)"
    by (rule bitLen_bounds) (rule bitLen_lower [OF ne])
  have "0 < ?L"
    using hi ne by (cases ?L) (auto simp: unat_eq_0)
  then have pow: "2 ^ ?L = 2 * (2 :: nat) ^ (?L - 1)"
    by (cases ?L) simp_all
  have "ReadBits ?L r = Inr (Inr (word_of_nat (bit_field (r_data r) (r_offset r) ?L)),
      r\<lparr>r_offset := r_offset r + ?L\<rparr>)"
    using assms by (intro ReadBits_ok) (simp_all add: reader_ok_def)
  then show ?thesis
    using ne hi lo pow bit_field_bound [of "r_data r" "r_offset r" ?L]
    by (simp add: ReadConstrainedWholeNumber_def Let_def)
qed

lemma ReadConstrained_reads_offset_witness:
  "ReadConstrainedWholeNumber 3 8 (NewBitReader [0xE0]) = Inr (Inr 10, NewBitReader [0xE0]\<lparr>r_offset := 3\<rparr>)"
proof -
  have "bitLen (8 - 3) = 3"
    by (simp add: bitLen_def bit_len_loop.simps)
  with ReadConstrained_reads_offset [of "NewBitReader [0xE0]" 3 8] show ?thesis
    by (simp add: NewBitReader_def bit_field_def be_nat_def reader_ok_def)
qed

end
