(* ===== verification/Packet_Decoder.thy ===== *)
theory Packet_Decoder
  imports Bit_Reader Sonar_Model
begin

text \<open>
  \<open>SonarPacketDecoder\<close> and \<open>DecodeINSFromBytes\<close> of \<open>internal/uper/decoder.go\<close>. A decoding
  step takes the reader and returns a value or an error together with the reader, or panics.
  The wire format is stated apart from the code, as the bytes each field occupies.
\<close>

section \<open>Decoding steps\<close>

datatype decode_error =
    ReadField string bit_error
  | BadSync u32
  | BadBeamCount u16
  | BeamError u16 decode_error

type_synonym 'a dec = "bit_reader \<Rightarrow> ((decode_error + 'a) \<times> bit_reader) go"

definition bind_dec :: "'a dec \<Rightarrow> ('a \<Rightarrow> 'b dec) \<Rightarrow> 'b dec" where
  "bind_dec m f = (\<lambda>r.
     case m r of
       Inl s \<Rightarrow> Inl s
     | Inr (Inl e, r') \<Rightarrow> Inr (Inl e, r')
     | Inr (Inr x, r') \<Rightarrow> f x r')"

definition return_dec :: "'a \<Rightarrow> 'a dec" where
  "return_dec x = (\<lambda>r. Inr (Inr x, r))"

definition fail_dec :: "decode_error \<Rightarrow> 'a dec" where
  "fail_dec e = (\<lambda>r. Inr (Inl e, r))"

text \<open>\<open>d.reader.ReadUint(n)\<close> and \<open>ReadInt(n)\<close> with the error wrapped by the field's name.\<close>

definition wrap_read :: "string \<Rightarrow> ((bit_error + u64) \<times> bit_reader) go \<Rightarrow>
    ((decode_error + u64) \<times> bit_reader) go" where
  "wrap_read what res =
     (case res of
        Inl s \<Rightarrow> Inl s
      | Inr (Inl e, r) \<Rightarrow> Inr (Inl (ReadField what e), r)
      | Inr (Inr v, r) \<Rightarrow> Inr (Inr v, r))"

definition dec_uint :: "string \<Rightarrow> nat \<Rightarrow> u64 dec" where
  "dec_uint what n = (\<lambda>r. wrap_read what (ReadUint n r))"

definition dec_int :: "string \<Rightarrow> nat \<Rightarrow> u64 dec" where
  "dec_int what n = (\<lambda>r. wrap_read what (ReadInt n r))"

definition decodeBeam :: "u16 \<Rightarrow> BeamData dec" where
  "decodeBeam index =
     bind_dec (dec_int ''pointing angle'' 16) (\<lambda>angle.
     bind_dec (dec_uint ''travel time'' 16) (\<lambda>tt.
     bind_dec (dec_uint ''intensity'' 8) (\<lambda>intensity.
     bind_dec (dec_uint ''quality factor'' 8) (\<lambda>qf.
     bind_dec (dec_uint ''detect info'' 8) (\<lambda>di.
     bind_dec (dec_uint ''reserved'' 8) (\<lambda>res.
     return_dec \<lparr>b_BeamIndex = index, b_PointingAngle = ucast angle, b_TravelTimeUS = ucast tt,
       b_IntensityDB = ucast intensity, b_QualityFactor = ucast qf, b_DetectInfo = ucast di,
       b_Reserved = ucast res\<rparr>))))))"

lemma unat_succ_below:
  fixes i n :: "'a::len word"
  assumes "i < n"
  shows "unat (i + 1) = unat i + 1"
proof -
  have "unat n < 2 ^ LENGTH('a)"
    by (rule unsigned_less)
  with assms have "unat i + 1 < 2 ^ LENGTH('a)"
    unfolding word_less_nat_alt by linarith
  then show ?thesis by (simp add: unat_word_ariths)
qed

text \<open>The loop \<open>for i := uint16(0); i < ping.NumBeams; i++\<close>.\<close>

function decode_beams :: "u16 \<Rightarrow> u16 \<Rightarrow> BeamData list \<Rightarrow> BeamData list dec" where
  "decode_beams i numBeams beams r =
     (if i < numBeams then
        (case decodeBeam i r of
           Inl s \<Rightarrow> Inl s
         | Inr (Inl e, r') \<Rightarrow> Inr (Inl (BeamError i e), r')
         | Inr (Inr beam, r') \<Rightarrow> decode_beams (i + 1) numBeams (beams @ [beam]) r')
      else Inr (Inr beams, r))"
  by pat_completeness auto

termination
proof (relation "measure (\<lambda>(i, n, bs, r). unat n - unat i)")
  fix i numBeams :: u16 and beams beam and r r' and p q
  assume "i < numBeams"
  then show "((i + 1, numBeams, beams @ [beam], r' :: bit_reader), i, numBeams, beams, r)
      \<in> measure (\<lambda>(i, n, bs, r). unat n - unat i)"
    using unat_succ_below [of i numBeams] by (simp add: word_less_nat_alt)
qed simp

declare decode_beams.simps [simp del]

definition Decode :: "SonarPing dec" where
  "Decode =
     bind_dec (dec_uint ''sync pattern'' 32) (\<lambda>sync.
     (if (ucast sync :: u32) \<noteq> SyncMagic then fail_dec (BadSync (ucast sync)) else
     bind_dec (dec_uint ''packet length'' 16) (\<lambda>pktLen.
     bind_dec (dec_uint ''ping counter'' 16) (\<lambda>pingCnt.
     bind_dec (dec_uint ''timestamp'' 64) (\<lambda>ts.
     bind_dec (dec_uint ''sound speed'' 16) (\<lambda>ss.
     bind_dec (dec_uint ''num beams'' 16) (\<lambda>nBeams.
     (if (ucast nBeams :: u16) > MaxBeamCount then fail_dec (BadBeamCount (ucast nBeams)) else
     bind_dec (dec_int ''tilt along-track'' 16) (\<lambda>tiltA.
     bind_dec (dec_int ''tilt across-track'' 16) (\<lambda>tiltC.
     bind_dec (dec_uint ''sampling frequency'' 32) (\<lambda>sf.
     bind_dec (dec_uint ''pulse length'' 16) (\<lambda>pl.
     bind_dec (dec_uint ''transducer depth'' 16) (\<lambda>td.
     bind_dec (decode_beams 0 (ucast nBeams) []) (\<lambda>beams.
     return_dec \<lparr>p_SyncPattern = ucast sync, p_PacketLength = ucast pktLen,
       p_PingCounter = ucast pingCnt, p_TimestampUS = ts, p_SoundSpeedDM = ucast ss,
       p_NumBeams = ucast nBeams, p_TiltAlongTrack = ucast tiltA, p_TiltAcrossTrack = ucast tiltC,
       p_SamplingFreqHz = ucast sf, p_PulseLengthUS = ucast pl, p_TransducerDepth = ucast td,
       p_Beams = beams\<rparr>))))))))))))))"

definition DecodeRawPacket :: "byte list \<Rightarrow> (decode_error + SonarPing) go" where
  "DecodeRawPacket data =
     (case Decode (NewBitReader data) of Inl s \<Rightarrow> Inl s | Inr (res, _) \<Rightarrow> Inr res)"

section \<open>INS packets\<close>

text \<open>
  \<open>binary.Read\<close> from a \<open>bytes.Reader\<close>: a little-endian integer of \<open>n\<close> bytes, \<open>io.EOF\<close> at the
  end of the data and \<open>io.ErrUnexpectedEOF\<close> inside a value.
\<close>

datatype ins_error = TooShort nat | ReadEOF string | ReadUnexpectedEOF string

definition read_le :: "string \<Rightarrow> nat \<Rightarrow> byte list \<Rightarrow> ins_error + ('a::len word \<times> byte list)" where
  "read_le what n bs =
     (if n \<le> length bs then Inr (le_word (take n bs), drop n bs)
      else if bs = [] then Inl (ReadEOF what) else Inl (ReadUnexpectedEOF what))"

definition bind_ins :: "ins_error + 'a \<times> byte list \<Rightarrow> ('a \<Rightarrow> byte list \<Rightarrow> ins_error + 'b) \<Rightarrow> ins_error + 'b" where
  "bind_ins m f = (case m of Inl e \<Rightarrow> Inl e | Inr (x, bs) \<Rightarrow> f x bs)"

definition DecodeINSFromBytes :: "byte list \<Rightarrow> ins_error + INSData" where
  "DecodeINSFromBytes data =
     (if length data < 32 then Inl (TooShort (length data)) else
      bind_ins (read_le ''INS timestamp'' 8 data) (\<lambda>ts bs.
      bind_ins (read_le ''latitude'' 8 bs) (\<lambda>lat bs.
      bind_ins (read_le ''longitude'' 8 bs) (\<lambda>lon bs.
      bind_ins (read_le ''depth'' 4 bs) (\<lambda>depth bs.
      bind_ins (read_le ''roll'' 2 bs) (\<lambda>roll bs.
      bind_ins (read_le ''pitch'' 2 bs) (\<lambda>pitch bs.
      bind_ins (read_le ''heading'' 2 bs) (\<lambda>heading bs.
      bind_ins (read_le ''heave'' 2 bs) (\<lambda>heave bs.
      bind_ins (read_le ''vel x'' 2 bs) (\<lambda>vx bs.
      bind_ins (read_le ''vel y'' 2 bs) (\<lambda>vy bs.
      bind_ins (read_le ''vel z'' 2 bs) (\<lambda>vz bs.
      Inr \<lparr>i_TimestampUS = ts, i_LatDeg7 = lat, i_LonDeg7 = lon, i_DepthMM = depth,
           i_RollCentidg = roll, i_PitchCentidg = pitch, i_HeadingCentidg = heading,
           i_HeaveMM = heave, i_VelXMM = vx, i_VelYMM = vy, i_VelZMM = vz\<rparr>))))))))))))"

text \<open>
  The length check asks for 32 bytes, the reads need 42: a packet in between is an error
  after all.
\<close>

lemma numeral_le_diff: "numeral k \<le> l - m \<longleftrightarrow> numeral k + m \<le> (l :: nat)"
  using zero_less_numeral [of k, where 'a = nat] by linarith

lemma DecodeINS_result:
  "(\<exists>d. DecodeINSFromBytes data = Inr d) \<longleftrightarrow> 42 \<le> length data"
  by (auto simp: DecodeINSFromBytes_def bind_ins_def read_le_def numeral_le_diff)

section \<open>The wire format\<close>

text \<open>The 8-byte beam entry at byte \<open>p\<close>, and the 32-byte header with its beams.\<close>

definition wire_beam :: "byte list \<Rightarrow> nat \<Rightarrow> u16 \<Rightarrow> BeamData" where
  "wire_beam data p index =
     \<lparr>b_BeamIndex = index, b_PointingAngle = be_word (sub_slice p (p + 2) data),
      b_TravelTimeUS = be_word (sub_slice (p + 2) (p + 4) data),
      b_IntensityDB = be_word (sub_slice (p + 4) (p + 5) data),
      b_QualityFactor = be_word (sub_slice (p + 5) (p + 6) data),
      b_DetectInfo = be_word (sub_slice (p + 6) (p + 7) data),
      b_Reserved = be_word (sub_slice (p + 7) (p + 8) data)\<rparr>"

definition wire_num_beams :: "byte list \<Rightarrow> u16" where
  "wire_num_beams data = be_word (sub_slice 18 20 data)"

definition wire_ping :: "byte list \<Rightarrow> SonarPing" where
  "wire_ping data =
     \<lparr>p_SyncPattern = be_word (sub_slice 0 4 data), p_PacketLength = be_word (sub_slice 4 6 data),
      p_PingCounter = be_word (sub_slice 6 8 data), p_TimestampUS = be_word (sub_slice 8 16 data),
      p_SoundSpeedDM = be_word (sub_slice 16 18 data), p_NumBeams = wire_num_beams data,
      p_TiltAlongTrack = be_word (sub_slice 20 22 data),
      p_TiltAcrossTrack = be_word (sub_slice 22 24 data),
      p_SamplingFreqHz = be_word (sub_slice 24 28 data),
      p_PulseLengthUS = be_word (sub_slice 28 30 data),
      p_TransducerDepth = be_word (sub_slice 30 32 data),
      p_Beams = map (\<lambda>i. wire_beam data (32 + 8 * i) (word_of_nat i)) [0..<unat (wire_num_beams data)]\<rparr>"

text \<open>What the format asks of a packet before it can be read.\<close>

definition wire_ok :: "byte list \<Rightarrow> bool" where
  "wire_ok data \<longleftrightarrow>
     32 \<le> length data \<and> be_word (sub_slice 0 4 data) = SyncMagic
   \<and> wire_num_beams data \<le> MaxBeamCount
   \<and> 32 + 8 * unat (wire_num_beams data) \<le> length data"

section \<open>The decoder reads the wire format\<close>

definition rd :: "byte list \<Rightarrow> nat \<Rightarrow> bit_reader" where
  "rd data p = \<lparr>r_data = data, r_offset = 8 * p, r_len = length data * 8\<rparr>"

lemma NewBitReader_rd: "NewBitReader data = rd data 0"
  by (simp add: NewBitReader_def rd_def)

lemma reader_ok_rd [simp]: "reader_ok (rd data p)"
  by (simp add: reader_ok_def rd_def)

lemma ReadBits_rd:
  assumes "0 < k"
  shows "ReadBits (8 * k) (rd data p) =
     (if p + k \<le> length data then Inr (Inr (be_word (sub_slice p (p + k) data)), rd data (p + k))
      else Inr (Inl (Overflow (8 * k) (BitsRemaining (rd data p))), rd data p))"
  using assms
  by (auto simp: ReadBits_spec bit_field_bytes be_word_def sub_slice_def)
    (auto simp: rd_def bit_field_bytes)

lemma dec_uint_rd:
  assumes "0 < k"
  shows "dec_uint what (8 * k) (rd data p) =
     (if p + k \<le> length data then Inr (Inr (be_word (sub_slice p (p + k) data)), rd data (p + k))
      else Inr (Inl (ReadField what (Overflow (8 * k) (BitsRemaining (rd data p)))), rd data p))"
  by (simp add: dec_uint_def ReadUint_def wrap_read_def ReadBits_rd [OF assms])

lemma dec_int_rd:
  assumes "0 < k"
  shows "dec_int what (8 * k) (rd data p) =
     (if p + k \<le> length data
      then Inr (Inr (sign_extend_val (8 * k) (be_word (sub_slice p (p + k) data))), rd data (p + k))
      else Inr (Inl (ReadField what (Overflow (8 * k) (BitsRemaining (rd data p)))), rd data p))"
  by (simp add: dec_int_def ReadInt_def wrap_read_def ReadBits_rd [OF assms])

lemmas dec_rd =
  dec_uint_rd [of 1, simplified] dec_uint_rd [of 2, simplified] dec_uint_rd [of 4, simplified]
  dec_uint_rd [of 8, simplified] dec_int_rd [of 2, simplified]

lemma ucast_be_word [simp]:
  "LENGTH('a::len) \<le> 64 \<Longrightarrow> (ucast (be_word bs :: u64) :: 'a word) = be_word bs"
  unfolding be_word_def by (rule bit_word_eqI) (auto simp: bit_simps)

lemmas dec_step = bind_dec_def return_dec_def fail_dec_def dec_rd sign_extend_low

lemma decodeBeam_ok:
  "p + 8 \<le> length data \<Longrightarrow>
     decodeBeam i (rd data p) = Inr (Inr (wire_beam data p i), rd data (p + 8))"
  by (simp add: decodeBeam_def dec_step wire_beam_def) (simp add: eval_nat_numeral)

lemma decodeBeam_short:
  "length data < p + 8 \<Longrightarrow> \<exists>e r. decodeBeam i (rd data p) = Inr (Inl e, r)"
  by (simp add: decodeBeam_def dec_step)

lemma decode_beams_ok:
  assumes "i \<le> n" and "p + 8 * (unat n - unat i) \<le> length data"
  shows "decode_beams i n acc (rd data p) =
     Inr (Inr (acc @ map (\<lambda>j. wire_beam data (p + 8 * (j - unat i)) (word_of_nat j)) [unat i..<unat n]),
          rd data (p + 8 * (unat n - unat i)))"
  using assms
proof (induction "unat n - unat i" arbitrary: i p acc)
  case 0
  then have "\<not> i < n" by (simp add: word_less_nat_alt)
  with 0 show ?case by (subst decode_beams.simps) simp
next
  case (Suc d)
  then have lt: "i < n" by (simp add: word_less_nat_alt)
  then have i1: "unat (i + 1) = unat i + 1" by (rule unat_succ_below)
  have le: "i + 1 \<le> n"
    using lt i1 by (simp add: word_le_nat_alt word_less_nat_alt)
  have d: "unat n - unat i = Suc (unat n - unat (i + 1))"
    using i1 Suc.hyps(2) by simp
  have "decode_beams i n acc (rd data p)
      = decode_beams (i + 1) n (acc @ [wire_beam data p i]) (rd data (p + 8))"
    using lt Suc.prems(2) d decodeBeam_ok [of p data i] by (subst decode_beams.simps) simp
  also have "\<dots> = Inr (Inr ((acc @ [wire_beam data p i]) @
      map (\<lambda>j. wire_beam data (p + 8 + 8 * (j - unat (i + 1))) (word_of_nat j)) [unat (i + 1)..<unat n]),
      rd data (p + 8 + 8 * (unat n - unat (i + 1))))"
    using Suc.hyps(2) Suc.prems(2) d le i1 by (intro Suc.hyps(1)) auto
  also have "[unat i..<unat n] = unat i # [unat (i + 1)..<unat n]"
    using lt i1 by (simp add: upt_rec [of "unat i"] word_less_nat_alt)
  then have "(acc @ [wire_beam data p i]) @
      map (\<lambda>j. wire_beam data (p + 8 + 8 * (j - unat (i + 1))) (word_of_nat j)) [unat (i + 1)..<unat n]
      = acc @ map (\<lambda>j. wire_beam data (p + 8 * (j - unat i)) (word_of_nat j)) [unat i..<unat n]"
    using i1 by (auto intro!: arg_cong [of _ _ "wire_beam data _"] simp: algebra_simps Suc_diff_Suc
        intro: map_cong)
  finally show ?case using d by (simp add: algebra_simps)
qed

lemma decode_beams_short:
  assumes "i \<le> n" and "length data < p + 8 * (unat n - unat i)" and "p \<le> length data"
  shows "\<exists>e r. decode_beams i n acc (rd data p) = Inr (Inl e, r)"
  using assms
proof (induction "unat n - unat i" arbitrary: i p acc)
  case 0
  then show ?case by simp
next
  case (Suc d)
  then have lt: "i < n" by (simp add: word_less_nat_alt)
  then have i1: "unat (i + 1) = unat i + 1" by (rule unat_succ_below)
  have le: "i + 1 \<le> n"
    using lt i1 by (simp add: word_le_nat_alt word_less_nat_alt)
  have d: "unat n - unat i = Suc (unat n - unat (i + 1))"
    using i1 Suc.hyps(2) by simp
  show ?case
  proof (cases "p + 8 \<le> length data")
    case True
    then have "decode_beams i n acc (rd data p)
        = decode_beams (i + 1) n (acc @ [wire_beam data p i]) (rd data (p + 8))"
      using lt decodeBeam_ok [of p data i] by (subst decode_beams.simps) simp
    with Suc True d le show ?thesis by simp
  next
    case False
    then obtain e r where "decodeBeam i (rd data p) = Inr (Inl e, r)"
      using decodeBeam_short [of data p i] by auto
    with lt show ?thesis by (subst decode_beams.simps) simp
  qed
qed

text \<open>The decoder succeeds exactly on packets the format allows, and returns their fields.\<close>

lemma DecodeRawPacket_ok:
  assumes "wire_ok data"
  shows "DecodeRawPacket data = Inr (Inr (wire_ping data))"
  using assms decode_beams_ok [of 0 "wire_num_beams data" 32 data "[]"]
  by (simp add: DecodeRawPacket_def NewBitReader_rd Decode_def dec_step wire_ok_def wire_ping_def
      wire_num_beams_def not_less)

lemma DecodeRawPacket_error:
  assumes "\<not> wire_ok data"
  shows "\<exists>e. DecodeRawPacket data = Inr (Inl e)"
proof (cases "32 \<le> length data \<and> be_word (sub_slice 0 4 data) = SyncMagic
    \<and> wire_num_beams data \<le> MaxBeamCount")
  case True
  with assms have short: "length data < 32 + 8 * (unat (wire_num_beams data) - unat (0 :: u16))"
    by (simp add: wire_ok_def)
  then obtain e r where "decode_beams 0 (wire_num_beams data) [] (rd data 32) = Inr (Inl e, r)"
    using decode_beams_short [OF _ short, of "[]"] True by auto
  with True show ?thesis
    by (simp add: DecodeRawPacket_def NewBitReader_rd Decode_def dec_step wire_num_beams_def not_less)
next
  case False
  then show ?thesis
    by (auto simp: DecodeRawPacket_def NewBitReader_rd Decode_def dec_step wire_num_beams_def not_less)
qed

section \<open>Encoding: the inverse of the decoder\<close>

text \<open>
  The repository only decodes; the encoder is the specification of its wire format, in the
  order in which \<open>Decode\<close> reads the fields.
\<close>

fun be_bytes :: "nat \<Rightarrow> nat \<Rightarrow> byte list" where
  "be_bytes 0 x = []"
| "be_bytes (Suc k) x = be_bytes k (x div 256) @ [word_of_nat x]"

definition enc :: "nat \<Rightarrow> 'a::len word \<Rightarrow> byte list" where
  "enc k w = be_bytes k (unat w)"

definition encode_beam :: "BeamData \<Rightarrow> byte list" where
  "encode_beam b =
     enc 2 (b_PointingAngle b) @ enc 2 (b_TravelTimeUS b) @ enc 1 (b_IntensityDB b)
     @ enc 1 (b_QualityFactor b) @ enc 1 (b_DetectInfo b) @ enc 1 (b_Reserved b)"

definition encode_header :: "SonarPing \<Rightarrow> byte list" where
  "encode_header p =
     enc 4 (p_SyncPattern p) @ enc 2 (p_PacketLength p) @ enc 2 (p_PingCounter p)
     @ enc 8 (p_TimestampUS p) @ enc 2 (p_SoundSpeedDM p) @ enc 2 (p_NumBeams p)
     @ enc 2 (p_TiltAlongTrack p) @ enc 2 (p_TiltAcrossTrack p) @ enc 4 (p_SamplingFreqHz p)
     @ enc 2 (p_PulseLengthUS p) @ enc 2 (p_TransducerDepth p)"

definition encode_ping :: "SonarPing \<Rightarrow> byte list" where
  "encode_ping p = encode_header p @ concat (map encode_beam (p_Beams p))"

definition valid_ping :: "SonarPing \<Rightarrow> bool" where
  "valid_ping p \<longleftrightarrow>
     p_SyncPattern p = SyncMagic \<and> p_NumBeams p \<le> MaxBeamCount
   \<and> length (p_Beams p) = unat (p_NumBeams p)
   \<and> map b_BeamIndex (p_Beams p) = map word_of_nat [0..<length (p_Beams p)]"

lemma length_be_bytes [simp]: "length (be_bytes k x) = k"
  by (induction k arbitrary: x) auto

lemma be_nat_be_bytes: "be_nat (be_bytes k x) = x mod 256 ^ k"
proof (induction k arbitrary: x)
  case 0
  show ?case by simp
next
  case (Suc k)
  have "unat (word_of_nat x :: byte) = x mod 256"
    by (simp add: unat_of_nat)
  with Suc.IH [of "x div 256"] show ?case
    using mod_mult2_eq [of x 256 "256 ^ k"] by simp
qed

lemma length_enc [simp]: "length (enc k w) = k"
  by (simp add: enc_def)

lemma be_word_enc [simp]:
  fixes w :: "'a::len word"
  assumes "LENGTH('a) \<le> 8 * k"
  shows "be_word (enc k w) = w"
proof -
  have "unat w < 2 ^ LENGTH('a)"
    by (rule unsigned_less)
  also have "\<dots> \<le> (2 :: nat) ^ (8 * k)"
    using assms by (intro power_increasing) auto
  also have "\<dots> = 256 ^ k"
    by (simp add: pow_256)
  finally show ?thesis
    by (simp add: be_word_def enc_def be_nat_be_bytes)
qed

lemma length_encode_beam [simp]: "length (encode_beam b) = 8"
  by (simp add: encode_beam_def)

lemma length_encode_header [simp]: "length (encode_header p) = 32"
  by (simp add: encode_header_def)

lemma length_encode_beams [simp]: "length (concat (map encode_beam bs)) = 8 * length bs"
  by (induction bs) auto

lemma length_encode_ping: "length (encode_ping p) = 32 + 8 * length (p_Beams p)"
  by (simp add: encode_ping_def)

lemma drop_encode_beams:
  "drop (8 * i) (concat (map encode_beam bs)) = concat (map encode_beam (drop i bs))"
proof (induction bs arbitrary: i)
  case Nil
  show ?case by simp
next
  case (Cons b bs)
  then show ?case by (cases i) auto
qed

lemma wire_beam_drop: "wire_beam data p idx = wire_beam (drop p data) 0 idx"
  by (simp add: wire_beam_def sub_slice_def add.commute numeral_2_eq_2)

lemma wire_beam_encode:
  "wire_beam (encode_beam b @ rest) 0 (b_BeamIndex b) = b"
  by (cases b) (simp add: wire_beam_def sub_slice_def encode_beam_def)

lemma wire_header_encode:
  "be_word (sub_slice 0 4 (encode_header p @ rest)) = p_SyncPattern p"
  "be_word (sub_slice 4 6 (encode_header p @ rest)) = p_PacketLength p"
  "be_word (sub_slice 6 8 (encode_header p @ rest)) = p_PingCounter p"
  "be_word (sub_slice 8 16 (encode_header p @ rest)) = p_TimestampUS p"
  "be_word (sub_slice 16 18 (encode_header p @ rest)) = p_SoundSpeedDM p"
  "be_word (sub_slice 18 20 (encode_header p @ rest)) = p_NumBeams p"
  "be_word (sub_slice 20 22 (encode_header p @ rest)) = p_TiltAlongTrack p"
  "be_word (sub_slice 22 24 (encode_header p @ rest)) = p_TiltAcrossTrack p"
  "be_word (sub_slice 24 28 (encode_header p @ rest)) = p_SamplingFreqHz p"
  "be_word (sub_slice 28 30 (encode_header p @ rest)) = p_PulseLengthUS p"
  "be_word (sub_slice 30 32 (encode_header p @ rest)) = p_TransducerDepth p"
  by (simp_all add: encode_header_def sub_slice_def)

lemma wire_ping_encode:
  assumes "valid_ping p"
  shows "wire_ping (encode_ping p @ pad) = p"
proof -
  let ?data = "encode_header p @ concat (map encode_beam (p_Beams p)) @ pad"
  have n: "unat (p_NumBeams p) = length (p_Beams p)"
    using assms by (simp add: valid_ping_def)
  have "wire_beam ?data (32 + 8 * i) (word_of_nat i) = p_Beams p ! i" if "i < length (p_Beams p)" for i
  proof -
    have "b_BeamIndex (p_Beams p ! i) = map b_BeamIndex (p_Beams p) ! i"
      using that by simp
    also have "\<dots> = word_of_nat i"
      using assms that unfolding valid_ping_def by simp
    finally have idx: "b_BeamIndex (p_Beams p ! i) = word_of_nat i" .
    have "drop (32 + 8 * i) ?data = concat (map encode_beam (drop i (p_Beams p))) @ pad"
      using that by (simp add: drop_encode_beams)
    also have "\<dots> = encode_beam (p_Beams p ! i) @ concat (map encode_beam (drop (Suc i) (p_Beams p))) @ pad"
      using that by (simp add: Cons_nth_drop_Suc [symmetric])
    finally show ?thesis
      using wire_beam_encode [of "p_Beams p ! i"] idx by (subst wire_beam_drop) simp
  qed
  then have "map (\<lambda>i. wire_beam ?data (32 + 8 * i) (word_of_nat i)) [0..<length (p_Beams p)] = p_Beams p"
    by (intro nth_equalityI) auto
  then show ?thesis
    using n by (cases p) (simp add: encode_ping_def wire_ping_def wire_num_beams_def wire_header_encode)
qed

lemma wire_ok_encode:
  "valid_ping p \<Longrightarrow> wire_ok (encode_ping p @ pad)"
  by (simp add: wire_ok_def wire_num_beams_def encode_ping_def wire_header_encode valid_ping_def)

section \<open>Properties of the decoder\<close>

lemma word_256: "(256 :: byte) = 0"
  by (simp add: word_eq_iff_unsigned)

lemma be_bytes_be_nat: "length bs = k \<Longrightarrow> be_bytes k (be_nat bs) = bs"
proof (induction bs arbitrary: k rule: rev_induct)
  case Nil
  then show ?case by simp
next
  case (snoc b bs)
  then obtain k' where "k = Suc k'" "length bs = k'"
    by (cases k) auto
  moreover have "(be_nat bs * 256 + unat b) div 256 = be_nat bs"
    using unat_byte_less [of b] by simp
  moreover have "word_of_nat (be_nat bs * 256 + unat b) = b"
    by (simp add: word_256)
  ultimately show ?case
    using snoc.IH by simp
qed

lemma enc_be_word:
  "length bs = k \<Longrightarrow> 8 * k \<le> LENGTH('a::len) \<Longrightarrow> enc k (be_word bs :: 'a word) = bs"
  using be_bytes_be_nat [of bs k] power_increasing [of "8 * k" "LENGTH('a)" "2 :: nat"]
  by (simp add: enc_def unat_be_word pow_256)

text \<open>C14. The decoder is total: on every byte sequence it returns a ping or an error and never
  panics. It returns a ping exactly when the packet has a sync word, at most 512 beams and all
  of its header and beam bytes, and the ping's fields are the wire format's bytes.\<close>

theorem DecodeRawPacket_decides:
  "(\<exists>res. DecodeRawPacket data = Inr res)
     \<and> (DecodeRawPacket data = Inr (Inr p)) = (wire_ok data \<and> p = wire_ping data)"
  using DecodeRawPacket_ok [of data] DecodeRawPacket_error [of data]
  by (cases "wire_ok data") auto

text \<open>C12. Decoding inverts the wire format: a ping whose beams are numbered from 0 is read back
  from its encoding, whatever bytes follow it.\<close>

theorem decode_encode:
  assumes "valid_ping p"
  shows "DecodeRawPacket (encode_ping p @ pad) = Inr (Inr p)"
  using assms by (simp add: DecodeRawPacket_ok wire_ok_encode wire_ping_encode)

definition two_beams :: SonarPing where
  "two_beams = \<lparr>p_SyncPattern = SyncMagic, p_PacketLength = 48, p_PingCounter = 65535,
     p_TimestampUS = 2 ^ 63 + 5, p_SoundSpeedDM = 14987, p_NumBeams = 2, p_TiltAlongTrack = -3,
     p_TiltAcrossTrack = 12, p_SamplingFreqHz = 48000, p_PulseLengthUS = 100, p_TransducerDepth = 9,
     p_Beams = [\<lparr>b_BeamIndex = 0, b_PointingAngle = -4500, b_TravelTimeUS = 65000, b_IntensityDB = 200,
                 b_QualityFactor = 1, b_DetectInfo = 2, b_Reserved = 0\<rparr>,
                \<lparr>b_BeamIndex = 1, b_PointingAngle = 4500, b_TravelTimeUS = 1, b_IntensityDB = 7,
                 b_QualityFactor = 0, b_DetectInfo = 255, b_Reserved = 3\<rparr>]\<rparr>"

lemma valid_two_beams: "valid_ping two_beams"
  by (simp add: two_beams_def valid_ping_def MaxBeamCount_def)

lemma decode_encode_witness:
  "DecodeRawPacket (encode_ping two_beams @ [1, 2, 3]) = Inr (Inr two_beams)"
  by (rule decode_encode) (rule valid_two_beams)

lemma slice_append:
  "i \<le> j \<Longrightarrow> j \<le> k \<Longrightarrow> sub_slice i j xs @ sub_slice j k xs = sub_slice i k xs"
  by (metis le_add_diff_inverse slice_drop slice_slice append_take_drop_id)

lemma slice_append_more:
  "i \<le> j \<Longrightarrow> j \<le> k \<Longrightarrow> sub_slice i j xs @ sub_slice j k xs @ ys = sub_slice i k xs @ ys"
  by (metis append_assoc slice_append)

lemma encode_wire_beam:
  "p + 8 \<le> length data \<Longrightarrow> encode_beam (wire_beam data p i) = sub_slice p (p + 8) data"
  by (simp add: encode_beam_def wire_beam_def enc_be_word length_slice slice_append slice_append_more)

lemma encode_wire_beams:
  "32 + 8 * n \<le> length data \<Longrightarrow>
     concat (map (\<lambda>i. encode_beam (wire_beam data (32 + 8 * i) (word_of_nat i))) [0..<n])
       = sub_slice 32 (32 + 8 * n) data"
proof (induction n)
  case 0
  then show ?case by (simp add: sub_slice_def)
next
  case (Suc n)
  then show ?case
    using slice_append [of 32 "32 + 8 * n" "40 + 8 * n" data]
    by (simp add: encode_wire_beam add.commute)
qed

lemma encode_wire_header:
  "32 \<le> length data \<Longrightarrow> encode_header (wire_ping data) = sub_slice 0 32 data"
  by (simp add: encode_header_def wire_ping_def wire_num_beams_def enc_be_word length_slice
      slice_append slice_append_more)

text \<open>C13. The decoder loses nothing: the bytes it read are the encoding of the ping it returned,
  so two packets that decode to the same ping agree on every byte of header and beams.\<close>

theorem decoded_ping_encodes:
  assumes "DecodeRawPacket data = Inr (Inr p)"
  shows "encode_ping p = take (32 + 8 * unat (p_NumBeams p)) data"
proof -
  have ok: "wire_ok data" and p: "p = wire_ping data"
    using assms DecodeRawPacket_ok [of data] DecodeRawPacket_error [of data]
    by (cases "wire_ok data"; auto)+
  have "map encode_beam (p_Beams p)
      = map (\<lambda>i. encode_beam (wire_beam data (32 + 8 * i) (word_of_nat i))) [0..<unat (wire_num_beams data)]"
    by (simp add: p wire_ping_def)
  moreover have "p_NumBeams p = wire_num_beams data"
    by (simp add: p wire_ping_def)
  ultimately show ?thesis
    using ok slice_append [of 0 32 "32 + 8 * unat (wire_num_beams data)" data]
    by (simp add: encode_ping_def wire_ok_def encode_wire_beams p encode_wire_header)
      (simp add: sub_slice_def)
qed

lemma decoded_ping_encodes_witness:
  "encode_ping two_beams = take 48 (encode_ping two_beams @ [1, 2, 3])"
proof -
  have "DecodeRawPacket (encode_ping two_beams @ [1, 2, 3]) = Inr (Inr two_beams)"
    by (simp add: DecodeRawPacket_ok wire_ok_encode wire_ping_encode valid_two_beams)
  from decoded_ping_encodes [OF this] show ?thesis
    by (simp add: two_beams_def)
qed

definition wire_ins :: "byte list \<Rightarrow> INSData" where
  "wire_ins data =
     \<lparr>i_TimestampUS = le_word (sub_slice 0 8 data), i_LatDeg7 = le_word (sub_slice 8 16 data),
      i_LonDeg7 = le_word (sub_slice 16 24 data), i_DepthMM = le_word (sub_slice 24 28 data),
      i_RollCentidg = le_word (sub_slice 28 30 data), i_PitchCentidg = le_word (sub_slice 30 32 data),
      i_HeadingCentidg = le_word (sub_slice 32 34 data), i_HeaveMM = le_word (sub_slice 34 36 data),
      i_VelXMM = le_word (sub_slice 36 38 data), i_VelYMM = le_word (sub_slice 38 40 data),
      i_VelZMM = le_word (sub_slice 40 42 data)\<rparr>"

text \<open>An INS packet is the eleven little-endian fields in 42 bytes: shorter packets are an
  error although the guard asks for 32 bytes only, and no packet of 42 bytes or more is refused.\<close>

theorem DecodeINS_fields:
  "(DecodeINSFromBytes data = Inr d) = (42 \<le> length data \<and> d = wire_ins data)"
proof (cases "42 \<le> length data")
  case True
  then have "DecodeINSFromBytes data = Inr (wire_ins data)"
    by (simp add: DecodeINSFromBytes_def bind_ins_def read_le_def wire_ins_def sub_slice_def
        numeral_le_diff)
  with True show ?thesis by auto
next
  case False
  then show ?thesis using DecodeINS_result [of data] by auto
qed

end
