(* ===== verification/Sonar_Pipeline.thy ===== *)
theory Sonar_Pipeline
  imports Safe_Processor Packet_Decoder
begin

text \<open>
  The framing and the decoder together, as \<open>internal/tcp\<close> and \<open>internal/multicast\<close> connect
  them: a \<open>SafeFrameProcessor\<close> whose decoder is \<open>uper.DecodeRawPacket\<close>. The theorems state
  which frames pass the checks and decode, what a stream of encoded pings delivers, and when
  the processor blocks.
\<close>

section \<open>The frame checks against the decoder\<close>

lemma num_beams_wire: "num_beams frame = wire_num_beams frame"
  by (simp add: num_beams_def wire_num_beams_def)

section \<open>Frames that carry a ping\<close>

text \<open>
  A frame as a sender lays it out: the encoded ping and padding, the length field being the
  length of the whole.
\<close>

definition ping_frame :: "SonarPing \<times> byte list \<Rightarrow> byte list" where
  "ping_frame pp = encode_ping (fst pp) @ snd pp"

definition framed_ping :: "nat \<Rightarrow> SonarPing \<times> byte list \<Rightarrow> bool" where
  "framed_ping maxSize pp \<longleftrightarrow>
     (let p = fst pp; n = unat (p_NumBeams p); len = length (ping_frame pp) in
      valid_ping p \<and> unat (p_PacketLength p) = len \<and> valid_length maxSize (p_PacketLength p)
    \<and> HeaderByteSize + n * 10 \<le> len \<and> len \<le> 5140)"

lemma ping_frame_fields:
  assumes "valid_ping (fst pp)"
  shows "length_field (ping_frame pp) = p_PacketLength (fst pp)"
    and "num_beams (ping_frame pp) = p_NumBeams (fst pp)"
    and "sync_word (ping_frame pp) = SyncMagic"
    and "HeaderByteSize \<le> length (ping_frame pp)"
  using assms
  by (simp_all add: ping_frame_def length_field_def num_beams_def sync_word_def encode_ping_def
      wire_header_encode valid_ping_def HeaderByteSize_def)

lemma framed_ping_wf:
  assumes "framed_ping m pp"
  shows "wf_frame m (ping_frame pp)"
proof -
  have valid: "valid_ping (fst pp)"
    using assms by (simp add: framed_ping_def Let_def)
  note fields = ping_frame_fields [OF valid]
  show ?thesis
    using assms fields sync_word_sync_at [OF fields(4)]
    by (simp add: wf_frame_def framed_ping_def Let_def)
qed

lemma framed_ping_checked:
  assumes "framed_ping m pp"
  shows "check_frame (ping_frame pp) = None"
proof -
  have valid: "valid_ping (fst pp)"
    using assms by (simp add: framed_ping_def Let_def)
  then have "unat (p_NumBeams (fst pp)) \<le> 512"
    by (simp add: valid_ping_def MaxBeamCount_def word_le_nat_alt)
  with assms ping_frame_fields [OF valid] show ?thesis
    by (simp add: check_frame_None framed_ping_def Let_def)
qed

lemma ping_frame_decodes:
  assumes "valid_ping (fst pp)"
  shows "DecodeRawPacket (ping_frame pp) = Inr (Inr (fst pp))"
  using assms by (simp add: ping_frame_def DecodeRawPacket_ok wire_ok_encode wire_ping_encode)

section \<open>Delivery\<close>

text \<open>The ping handler over a list of pings, stopping if it gets stuck.\<close>

fun run_pings :: "(SonarPing \<Rightarrow> 'w \<Rightarrow> 'w go) \<Rightarrow> SonarPing list \<Rightarrow> 'w \<Rightarrow> 'w go" where
  "run_pings h [] w = Inr w"
| "run_pings h (p # ps) w = (case h p w of Inl s \<Rightarrow> Inl s | Inr w' \<Rightarrow> run_pings h ps w')"

definition sonar_hooks :: "(SonarPing \<Rightarrow> 'w \<Rightarrow> 'w go) \<Rightarrow> ('w, decode_error) processor_hooks" where
  "sonar_hooks h = \<lparr>decoder = DecodeRawPacket, onPing = Some h\<rparr>"

lemma deliver_pings:
  assumes "list_all (framed_ping m) pps" and "run_pings h (map fst pps) w = Inr w'"
    and "\<not> sp_mu sp" and "sp_errorCount sp = 0"
  shows "deliver (frame_effect (sonar_hooks h)) (map ping_frame pps) (sp, w) = Some (sp, w')"
  using assms
proof (induction pps arbitrary: w)
  case Nil
  then show ?case by simp
next
  case (Cons pp pps)
  have fp: "framed_ping m pp" and pps: "list_all (framed_ping m) pps"
    using Cons.prems(1) by simp_all
  obtain w1 where w1: "h (fst pp) w = Inr w1" "run_pings h (map fst pps) w1 = Inr w'"
    using Cons.prems(2) by (auto split: sum.splits)
  have sp: "sp\<lparr>sp_errorCount := 0\<rparr> = sp"
    using Cons.prems(4) by (cases sp) simp
  have "valid_ping (fst pp)"
    using fp by (simp add: framed_ping_def Let_def)
  moreover have "check_frame (ping_frame pp) = (None :: decode_error frame_error option)"
    using fp by (rule framed_ping_checked)
  ultimately have "frame_effect (sonar_hooks h) (ping_frame pp) (sp, w) = Inr (None, sp, w1)"
    using Cons.prems(3) w1(1) sp
    by (simp add: frame_effect_def sonar_hooks_def ping_frame_decodes)
  with Cons.IH [OF pps w1(2) Cons.prems(3,4)] show ?case by simp
qed

text \<open>All reads of a connection through the processor.\<close>

definition safe_feed_all ::
    "('w, 'd) processor_hooks \<Rightarrow> byte list list \<Rightarrow> assembler \<Rightarrow> safe_processor \<times> 'w \<Rightarrow>
     ('d frame_error option list \<times> assembler \<times> safe_processor \<times> 'w) go option" where
  "safe_feed_all hooks cs a spw = feed_all (safe_callbacks hooks) cs a spw"

text \<open>C6. End to end: a connection that carries encoded pings, framed and padded to the length
  the checks ask for, cut into reads in any way, delivers exactly these pings in order to the
  ping handler; every \<open>Feed\<close> returns nil and no error stays counted.\<close>

theorem sonar_stream_delivers_pings:
  assumes "0 < maxSize" and "list_all (framed_ping (nat maxSize)) pps"
    and "concat cs = concat (map ping_frame pps)" and "\<forall>c \<in> set cs. length c \<le> 3 * nat maxSize"
    and "run_pings h (map fst pps) w = Inr w'"
    and "NewSafeSonarProcessor (sonar_hooks h) maxSize = Inr (a, sp, cb)"
  shows "\<exists>a'. safe_feed_all (sonar_hooks h) cs a (sp, w)
                = Some (Inr (replicate (length cs) None, a', sp, w')) \<and> window a' = []"
proof -
  have new: "a = NewSlidingWindowAssembler maxSize" "sp = new_processor"
    using assms(6) by (simp_all add: NewSafeSonarProcessor_eq)
  have "list_all (wf_frame (nat maxSize)) (map ping_frame pps)"
    using assms(2) framed_ping_wf by (auto simp: list_all_iff)
  moreover have "deliver (frame_effect (sonar_hooks h)) (map ping_frame pps) (sp, w) = Some (sp, w')"
    using deliver_pings [OF assms(2,5)] new(2) by (simp add: new_processor_def)
  ultimately show ?thesis
    using safe.feed_all_frames [of a "nat maxSize" "map ping_frame pps" cs "sonar_hooks h" "(sp, w)" "(sp, w')"]
      assms(1,3,4) by (auto simp: safe_feed_all_def new new_assembler_facts settled_Nil)
qed

text \<open>A ping without beams, padded to the 40 bytes of the smallest frame.\<close>

definition sample_ping :: SonarPing where
  "sample_ping = \<lparr>p_SyncPattern = SyncMagic, p_PacketLength = 40, p_PingCounter = 7, p_TimestampUS = 1000,
     p_SoundSpeedDM = 15000, p_NumBeams = 0, p_TiltAlongTrack = 0, p_TiltAcrossTrack = 0,
     p_SamplingFreqHz = 0, p_PulseLengthUS = 0, p_TransducerDepth = 0, p_Beams = []\<rparr>"

definition append_ping :: "SonarPing \<Rightarrow> SonarPing list \<Rightarrow> SonarPing list go" where
  "append_ping p ps = Inr (ps @ [p])"

lemma framed_sample: "framed_ping 64 (sample_ping, replicate 8 0)"
  by (simp add: framed_ping_def ping_frame_def length_encode_ping sample_ping_def valid_ping_def
      valid_length_def frame_consts Let_def MaxBeamCount_def)

lemma sonar_stream_delivers_pings_witness:
  "\<exists>a'. safe_feed_all (sonar_hooks append_ping)
          [take 13 (ping_frame (sample_ping, replicate 8 0)), drop 13 (ping_frame (sample_ping, replicate 8 0))]
          (NewSlidingWindowAssembler 64) (new_processor, [])
        = Some (Inr ([None, None], a', new_processor, [sample_ping])) \<and> window a' = []"
proof -
  have len: "length (ping_frame (sample_ping, replicate 8 0)) = 40"
    by (simp add: ping_frame_def length_encode_ping sample_ping_def)
  show ?thesis
    using sonar_stream_delivers_pings
        [of 64 "[(sample_ping, replicate 8 0)]"
           "[take 13 (ping_frame (sample_ping, replicate 8 0)), drop 13 (ping_frame (sample_ping, replicate 8 0))]"
           append_ping "[]" "[sample_ping]" "NewSlidingWindowAssembler 64" new_processor
           "safe_callbacks (sonar_hooks append_ping)"]
      framed_sample
    by (simp add: append_ping_def NewSafeSonarProcessor_eq len numeral_2_eq_2)
qed

section \<open>The consecutive-error limit\<close>

lemma safe_Feed_bad_lengths:
  fixes hooks :: "('w, 'd) processor_hooks"
  assumes "asm_inv a" and "\<not> a_mu a" and "processor_ok sp"
    and "a_writePos a + length data \<le> a_capacity a" and "data \<noteq> []"
    and "parse (a_maxSize a) (window a @ data) = (map BadLength Ls @ evs, r)"
    and "sp_maxConsecutiveErrors sp < sp_errorCount sp + length Ls"
  shows "safe_Feed hooks data a (sp, w) = Some (Inl Deadlock)"
proof -
  have "feed_spec (frame_effect hooks) error_effect a data (sp, w) = Inl Deadlock"
    using assms(4,5) stream_run_bad_lengths [OF assms(6,7,3)]
    by (simp add: feed_spec_def write_position_def Let_def)
  moreover obtain res where "Feed (safe_callbacks hooks) data a (sp, w) = Some res"
    "case res of
       Inl x \<Rightarrow> feed_spec (frame_effect hooks) error_effect a data (sp, w) = Inl x
     | Inr (e, a', w') \<Rightarrow>
         feed_spec (frame_effect hooks) error_effect a data (sp, w) = Inr (e, window a', w')
       \<and> same_frame a a' \<and> a_writePos a' \<le> a_writePos a + length data"
    using safe.feed_refines [OF assms(1,2), of hooks data "(sp, w)"] by blast
  ultimately show ?thesis
    by (cases res) (auto simp: safe_Feed_def)
qed

text \<open>C9. A read that makes the error count pass its limit of consecutive bad headers never
  returns: the error handler asks for a reset of the assembler whose mutex \<open>Feed\<close> holds. For a
  new processor eleven headers with a bad length field are enough.\<close>

theorem safe_Feed_deadlocks:
  fixes hooks :: "('w, 'd) processor_hooks"
  assumes "asm_inv a" and "\<not> a_mu a" and "processor_ok sp"
    and "a_writePos a + length data \<le> a_capacity a" and "data \<noteq> []"
    and "parse (a_maxSize a) (window a @ data) = (map BadLength Ls @ evs, r)"
    and "sp_maxConsecutiveErrors sp < sp_errorCount sp + length Ls"
  shows "safe_Feed hooks data a (sp, w) = Some (Inl Deadlock)"
  using assms by (rule safe_Feed_bad_lengths)

text \<open>Eleven sync words, each followed by the length 0, and the rest of a header.\<close>

definition bad_headers :: "byte list" where
  "bad_headers = concat (replicate 11 [0x53, 0x4F, 0x4E, 0x52, 0, 0]) @ replicate 14 0"

lemma length_bad_headers: "length bad_headers = 80"
  by (simp add: bad_headers_def length_concat sum_list_replicate)

lemma sync_at_four:
  "sync_at (b0 # b1 # b2 # b3 # t) 0 \<longleftrightarrow> (be_word [b0, b1, b2, b3] :: u32) = SyncMagicBytes"
  by (simp add: sync_at_def sub_slice_def SyncWordSize_def)

lemmas parse_literal = sync_at_four be_word_def be_nat_def SyncMagicBytes_def

lemma parse_bad_header:
  assumes "14 \<le> length t"
  shows "parse m ([0x53, 0x4F, 0x4E, 0x52, 0, 0] @ t) =
     (BadLength 0 # fst (parse m ([0x4F, 0x4E, 0x52, 0, 0] @ t)), snd (parse m ([0x4F, 0x4E, 0x52, 0, 0] @ t)))"
  using assms
  by (intro parse_emit)
    (simp add: next_event_def parse_literal length_field_def sub_slice_def valid_length_def frame_consts Let_def)

lemma parse_skip:
  "parse m ([0x4F, 0x4E, 0x52, 0, 0] @ [0x53, 0x4F, 0x4E, 0x52, 0, 0] @ t)
     = parse m ([0x53, 0x4F, 0x4E, 0x52, 0, 0] @ t)"
proof -
  have "find_sync ([0x4F, 0x4E, 0x52, 0, 0] @ [0x53, 0x4F, 0x4E, 0x52, 0, 0] @ t) = Some 5"
    by (simp add: parse_literal)
  moreover have "find_sync ([0x53, 0x4F, 0x4E, 0x52, 0, 0] @ t) = Some 0"
    by (simp add: parse_literal)
  ultimately show ?thesis
    by (intro parse_cong) (simp add: next_event_def)
qed

lemma zeros_14: "replicate 14 (0 :: byte) = [0, 0, 0, 0, 0, 0, 0, 0, 0, 0, 0, 0, 0, 0]"
  by (simp add: eval_nat_numeral)

lemma parse_bad_header_run:
  "parse m ([0x4F, 0x4E, 0x52, 0, 0] @ concat (replicate n [0x53, 0x4F, 0x4E, 0x52, 0, 0]) @ replicate 14 0)
     = (replicate n (BadLength 0), [0x4F, 0x4E, 0x52, 0, 0] @ replicate 14 0)"
proof (induction n)
  case 0
  have "find_sync ([0x4F, 0x4E, 0x52, 0, 0] @ replicate 14 0) = None"
    unfolding zeros_14 by (simp add: parse_literal) (simp add: sync_at_def SyncWordSize_def)
  then have "next_event m ([0x4F, 0x4E, 0x52, 0, 0] @ replicate 14 0) = Wait ([0x4F, 0x4E, 0x52, 0, 0] @ replicate 14 0)"
    by (simp add: next_event_def)
  from parse_wait [OF this] show ?case by simp
next
  case (Suc n)
  then show ?case
    by (simp only: replicate_Suc concat.simps append_assoc parse_skip)
      (simp add: parse_bad_header [simplified])
qed

lemma parse_bad_headers:
  "parse m bad_headers = (map BadLength (replicate 11 0) @ [], [0x4F, 0x4E, 0x52, 0, 0] @ replicate 14 0)"
proof -
  let ?t = "concat (replicate 10 [0x53, 0x4F, 0x4E, 0x52, 0, 0]) @ replicate 14 (0 :: byte)"
  have eq: "bad_headers = [0x53, 0x4F, 0x4E, 0x52, 0, 0] @ ?t"
    by (simp add: bad_headers_def eval_nat_numeral)
  have "14 \<le> length ?t" by simp
  from parse_bad_header [OF this, of m] parse_bad_header_run [of m 10]
  have "parse m bad_headers = (BadLength 0 # replicate 10 (BadLength 0), [0x4F, 0x4E, 0x52, 0, 0] @ replicate 14 0)"
    unfolding eq by (simp only: fst_conv snd_conv)
  moreover have "map BadLength (replicate 11 0) = BadLength 0 # replicate 10 (BadLength 0)"
    by (simp add: eval_nat_numeral)
  ultimately show ?thesis by (simp only: append_Nil2)
qed

lemma safe_Feed_deadlocks_witness:
  "safe_Feed (sonar_hooks append_ping) bad_headers (NewSlidingWindowAssembler 64) (new_processor, [])
     = Some (Inl Deadlock)"
  using safe_Feed_deadlocks [of "NewSlidingWindowAssembler 64" new_processor bad_headers
      "replicate 11 0" "[]" "[0x4F, 0x4E, 0x52, 0, 0] @ replicate 14 0" "sonar_hooks append_ping" "[]"]
  by (simp add: new_assembler_facts parse_bad_headers new_processor_def processor_ok_def)
    (simp add: bad_headers_def length_concat sum_list_replicate)

text \<open>A handler that returns and keeps a property of its world.\<close>

lemma safe_Feed_keeps:
  assumes "asm_inv a" and "\<not> a_mu a" and "processor_ok sp" and "Q w"
    and "\<And>p v. Q v \<Longrightarrow> \<exists>v'. h p v = Inr v' \<and> Q v'"
  shows "\<exists>res. safe_Feed (sonar_hooks h) data a (sp, w) = Some res
           \<and> (case res of
                Inl s \<Rightarrow> s = Deadlock
              | Inr (e, a', sp', w') \<Rightarrow> asm_inv a' \<and> \<not> a_mu a' \<and> processor_ok sp' \<and> Q w')"
proof -
  let ?S = "\<lambda>s. s = Deadlock"
  have dec: "?S s" if "decoder (sonar_hooks h) f = Inl s" for f s
    using that DecodeRawPacket_ok [of f] DecodeRawPacket_error [of f]
    by (cases "wire_ok f") (auto simp: sonar_hooks_def)
  have han: "keeps_world Q ?S (g p v)" if "onPing (sonar_hooks h) = Some g" "Q v" for g p v
    using that assms(5) [of v p] by (auto simp: sonar_hooks_def keeps_world_def)
  have F: "keeps (safe_world Q) ?S (frame_effect (sonar_hooks h) f spw)" if "safe_world Q spw" for f spw
    using dec han that by (intro frame_effect_keeps) auto
  have G: "keeps_world (safe_world Q) ?S (error_effect err spw)"
    if "safe_world Q spw" for err :: "decode_error frame_error asm_error" and spw :: "safe_processor \<times> 'a"
    using that by (intro error_effect_keeps) auto
  have P: "safe_world Q (sp, w)"
    using assms(3,4) by (simp add: safe_world_def)
  obtain res where res: "safe_Feed (sonar_hooks h) data a (sp, w) = Some res"
    "case res of Inl s \<Rightarrow> ?S s | Inr (e, a', spw) \<Rightarrow> safe_world Q spw \<and> same_frame a a'"
    using safe.Feed_keeps [OF assms(1,2) F G P, of data] unfolding safe_Feed_def by blast
  with assms(2) show ?thesis
    by (cases res) (auto simp: same_frame_def safe_world_def)
qed

text \<open>C15. With the sonar decoder and a ping handler that returns, \<open>Feed\<close> on any bytes in any
  reachable state ends in one of two ways: it returns with the mutexes released, the assembler's
  invariant kept and the error count within its limit, or it blocks on the assembler's own mutex.
  It never panics and never loops.\<close>

theorem safe_Feed_outcome:
  assumes "asm_inv a" and "\<not> a_mu a" and "processor_ok sp" and "\<And>p v. \<exists>v'. h p v = Inr v'"
  shows "\<exists>res. safe_Feed (sonar_hooks h) data a (sp, w) = Some res
           \<and> (case res of
                Inl s \<Rightarrow> s = Deadlock
              | Inr (e, a', sp', w') \<Rightarrow> asm_inv a' \<and> \<not> a_mu a' \<and> processor_ok sp')"
  using safe_Feed_keeps [OF assms(1-3), of "\<lambda>_. True" w h data] assms(4) unfolding simp_thms by blast

lemma safe_Feed_outcome_witness:
  "\<exists>res. safe_Feed (sonar_hooks append_ping) bad_headers (NewSlidingWindowAssembler 64) (new_processor, [])
       = Some res
     \<and> (case res of
          Inl s \<Rightarrow> s = Deadlock
        | Inr (e, a', sp', w') \<Rightarrow> asm_inv a' \<and> \<not> a_mu a' \<and> processor_ok sp')"
  using safe_Feed_outcome [of "NewSlidingWindowAssembler 64" new_processor append_ping bad_headers "[]"]
  by (simp add: new_assembler_facts append_ping_def new_processor_def processor_ok_def)

section \<open>Two disagreeing sizes\<close>

text \<open>C37. A ping of more than six beams whose length field is its encoded length is what the
  decoder reads, but both frame checks reject it as truncated: they count 10 bytes for each
  8-byte beam entry behind 20 of the 32 header bytes.\<close>

theorem large_pings_are_rejected:
  assumes "valid_ping p" and "unat (p_PacketLength p) = length (encode_ping p)"
    and "6 < unat (p_NumBeams p)"
  shows "DecodeRawPacket (encode_ping p) = Inr (Inr p)
       \<and> check_frame (encode_ping p)
           = Some (TruncatedFrame (20 + 10 * unat (p_NumBeams p)) (p_NumBeams p) (length (encode_ping p)))
       \<and> ValidateSonarFrame (encode_ping p)
           = Some (TruncatedFrame (20 + 10 * unat (p_NumBeams p)) (p_NumBeams p) (length (encode_ping p)))"
proof -
  note fields = ping_frame_fields [of "(p, [])", unfolded ping_frame_def fst_conv snd_conv append_Nil2,
      OF assms(1)]
  have len: "length (encode_ping p) = 32 + 8 * unat (p_NumBeams p)" "\<not> MaxBeamCount < p_NumBeams p"
    using assms(1) by (simp_all add: length_encode_ping valid_ping_def not_less)
  have "DecodeRawPacket (encode_ping p) = Inr (Inr p)"
    using ping_frame_decodes [of "(p, [])"] assms(1) by (simp add: ping_frame_def)
  then show ?thesis
    using fields len assms(2,3)
    by (simp add: check_frame_def ValidateSonarFrame_def HeaderByteSize_def mult.commute)
qed

text \<open>A ping of seven beams, 88 bytes on the wire.\<close>

definition seven_beams :: SonarPing where
  "seven_beams = sample_ping\<lparr>p_PacketLength := 88, p_NumBeams := 7,
     p_Beams := map (\<lambda>i. \<lparr>b_BeamIndex = word_of_nat i, b_PointingAngle = 0, b_TravelTimeUS = 0,
       b_IntensityDB = 0, b_QualityFactor = 0, b_DetectInfo = 0, b_Reserved = 0\<rparr>) [0..<7]\<rparr>"

lemma valid_seven_beams: "valid_ping seven_beams" and length_seven_beams: "length (encode_ping seven_beams) = 88"
  by (simp_all add: seven_beams_def valid_ping_def sample_ping_def MaxBeamCount_def length_encode_ping)

lemma large_pings_are_rejected_witness:
  "DecodeRawPacket (encode_ping seven_beams) = Inr (Inr seven_beams)
   \<and> check_frame (encode_ping seven_beams) = Some (TruncatedFrame 90 7 88 :: unit frame_error)
   \<and> ValidateSonarFrame (encode_ping seven_beams) = Some (TruncatedFrame 90 7 88 :: unit frame_error)"
proof -
  have "p_NumBeams seven_beams = 7" "p_PacketLength seven_beams = 88"
    by (simp_all add: seven_beams_def)
  then show ?thesis
    using large_pings_are_rejected [of seven_beams] valid_seven_beams length_seven_beams by simp
qed

text \<open>A frame that passes \<open>ValidateSonarFrame\<close> decodes if and only if its beams fit at 8
  bytes behind 32; so every validated frame of six beams or more decodes, and the frames of
  fewer beams that do not decode are exactly those shorter than that.\<close>

theorem validated_frames_decode:
  assumes "ValidateSonarFrame frame = None"
  shows "(DecodeRawPacket frame = Inr (Inr (wire_ping frame)))
           = (32 + 8 * unat (num_beams frame) \<le> length frame)
       \<and> (6 \<le> unat (num_beams frame) \<longrightarrow> DecodeRawPacket frame = Inr (Inr (wire_ping frame)))"
proof -
  have ok: "wire_ok frame \<longleftrightarrow> 32 + 8 * unat (num_beams frame) \<le> length frame"
    using assms
    by (auto simp: ValidateSonarFrame_None wire_ok_def num_beams_wire sync_word_def MaxBeamCount_def
        word_le_nat_alt)
  have "DecodeRawPacket frame = Inr (Inr (wire_ping frame)) \<longleftrightarrow> wire_ok frame"
    using DecodeRawPacket_ok [of frame] DecodeRawPacket_error [of frame] by (cases "wire_ok frame") auto
  with ok assms show ?thesis
    by (auto simp: ValidateSonarFrame_None HeaderByteSize_def)
qed

lemma validated_frames_decode_witness:
  "(DecodeRawPacket (ping_frame (sample_ping, replicate 8 0)) = Inr (Inr (wire_ping (ping_frame (sample_ping, replicate 8 0)))))
     = (32 \<le> length (ping_frame (sample_ping, replicate 8 0)))"
proof -
  have n: "num_beams (ping_frame (sample_ping, replicate 8 0)) = 0"
    and "ValidateSonarFrame (ping_frame (sample_ping, replicate 8 0)) = (None :: unit frame_error option)"
    using framed_sample ping_frame_fields [of "(sample_ping, replicate 8 0)"]
    by (simp_all add: ValidateSonarFrame_None framed_ping_def Let_def sample_ping_def)
  from validated_frames_decode [OF this(2)] show ?thesis
    unfolding n by simp
qed

section \<open>A new assembler with the gateway's frame size\<close>

lemma SetDebug_facts [simp]:
  "asm_inv (safe_SetDebug d a) = asm_inv a" "a_mu (safe_SetDebug d a) = a_mu a"
  "window (safe_SetDebug d a) = window a" "a_maxSize (safe_SetDebug d a) = a_maxSize a"
  "a_capacity (safe_SetDebug d a) = a_capacity a" "a_writePos (safe_SetDebug d a) = a_writePos a"
  by (simp_all add: safe_SetDebug_def SetDebug_def window_def)
    (simp add: inv_defs window_def available_def split: FrameState.splits)

lemma MaxFrameSize_nat: "a_maxSize (NewSlidingWindowAssembler (int MaxFrameSize)) = 65535"
  by (simp add: new_assembler_facts MaxFrameSize_def)

end
