(* ===== verification/TCP_Server.thy ===== *)
theory TCP_Server
  imports Sonar_Pipeline "HOL-Library.AList"
begin

text \<open>
  \<open>SonarTCPServer\<close> of \<open>internal/tcp/server.go\<close> as a transition system. The goroutines are the
  accept loops and one session per connection; each step is a stretch of one goroutine between
  two points where others may run, that is a critical section of \<open>s.mu\<close> or the handling of one
  read. The network decides which connections arrive and what reads return.
\<close>

section \<open>State\<close>

record TCPStats =
  t_ConnectionsOpened :: u64
  t_ConnectionsClosed :: u64
  t_BytesReceived :: u64
  t_PacketsReceived :: u64
  t_DecodeErrors :: u64
  t_AssemblerStats :: AssemblerStats

text \<open>
  A session: its connection, the processor of its stream, the ping handler it captured, and
  whether its goroutine is blocked for ever.
\<close>

record 'w session =
  ss_conn :: nat
  ss_addr :: string
  ss_asm :: assembler
  ss_sp :: safe_processor
  ss_onPing :: "(SonarPing \<Rightarrow> 'w \<Rightarrow> 'w go) option"
  ss_stuck :: bool

text \<open>
  An accept loop works on one listener; it waits in \<open>Accept\<close> or holds a connection it has not
  registered yet. A call of \<open>Stop\<close> that won the flag closes the listener, then the connections,
  then waits for the goroutines.
\<close>

datatype acceptor = Accepting nat | Holding nat nat string

datatype stop_phase = CloseListener | CloseConns | WaitGroup

record 'w tcp_server =
  tc_maxConns :: int
  tc_bufferSize :: int
  tc_conns :: "(string \<times> nat) list"
  tc_onPing :: "(SonarPing \<Rightarrow> 'w \<Rightarrow> 'w go) option"
  tc_running :: bool
  tc_listener :: "nat option"
  tc_open :: "nat list"
  tc_stops :: "stop_phase list"
  tc_stats :: TCPStats
  tc_debugLog :: bool
  tc_acceptors :: "acceptor list"
  tc_sessions :: "'w session list"
  tc_world :: 'w

definition NewSonarTCPServer :: "int \<Rightarrow> int \<Rightarrow> 'w \<Rightarrow> 'w tcp_server" where
  "NewSonarTCPServer maxConns bufferSize w =
     \<lparr>tc_maxConns = maxConns, tc_bufferSize = bufferSize, tc_conns = [], tc_onPing = None,
      tc_running = False, tc_listener = None, tc_open = [], tc_stops = [],
      tc_stats = \<lparr>t_ConnectionsOpened = 0, t_ConnectionsClosed = 0, t_BytesReceived = 0,
        t_PacketsReceived = 0, t_DecodeErrors = 0, t_AssemblerStats = zero_stats\<rparr>,
      tc_debugLog = False, tc_acceptors = [], tc_sessions = [], tc_world = w\<rparr>"

definition tcp_SetPingHandler :: "(SonarPing \<Rightarrow> 'w \<Rightarrow> 'w go) \<Rightarrow> 'w tcp_server \<Rightarrow> 'w tcp_server" where
  "tcp_SetPingHandler handler s = s\<lparr>tc_onPing := Some handler\<rparr>"

definition tcp_SetDebug :: "bool \<Rightarrow> 'w tcp_server \<Rightarrow> 'w tcp_server" where
  "tcp_SetDebug enabled s = s\<lparr>tc_debugLog := enabled\<rparr>"

definition tcp_Stats :: "'w tcp_server \<Rightarrow> TCPStats" where
  "tcp_Stats s = tc_stats s"

section \<open>Start and stop\<close>

text \<open>
  \<open>Start\<close>: the flag is taken first and given back when listening fails; \<open>listen\<close> is the listener
  the system returns.
\<close>

datatype start_error = AlreadyRunning | ListenFailed

definition tcp_Start :: "nat option \<Rightarrow> 'w tcp_server \<Rightarrow> start_error option \<times> 'w tcp_server" where
  "tcp_Start listen s =
     (if tc_running s then (Some AlreadyRunning, s)
      else case listen of
        None \<Rightarrow> (Some ListenFailed, s\<lparr>tc_running := False\<rparr>)
      | Some l \<Rightarrow>
          (None, s\<lparr>tc_running := True, tc_listener := Some l, tc_open := l # tc_open s,
                   tc_acceptors := tc_acceptors s @ [Accepting l]\<rparr>))"

definition stop_flag :: "'w tcp_server \<Rightarrow> 'w tcp_server" where
  "stop_flag s =
     (if tc_running s then s\<lparr>tc_running := False, tc_stops := tc_stops s @ [CloseListener]\<rparr> else s)"

definition stop_listener :: "nat \<Rightarrow> 'w tcp_server \<Rightarrow> 'w tcp_server" where
  "stop_listener k s =
     s\<lparr>tc_stops := (tc_stops s)[k := CloseConns],
       tc_open := (case tc_listener s of None \<Rightarrow> tc_open s | Some l \<Rightarrow> removeAll l (tc_open s))\<rparr>"

definition stop_conns :: "nat \<Rightarrow> 'w tcp_server \<Rightarrow> 'w tcp_server" where
  "stop_conns k s =
     s\<lparr>tc_stops := (tc_stops s)[k := WaitGroup], tc_conns := [],
       tc_stats := (tc_stats s)\<lparr>t_ConnectionsClosed :=
         t_ConnectionsClosed (tc_stats s) + of_nat (length (tc_conns s))\<rparr>\<rparr>"

text \<open>\<open>wg.Wait()\<close>: no accept loop and no session is left.\<close>

definition wait_group_done :: "'w tcp_server \<Rightarrow> bool" where
  "wait_group_done s \<longleftrightarrow> tc_acceptors s = [] \<and> tc_sessions s = []"

definition remove_nth :: "nat \<Rightarrow> 'a list \<Rightarrow> 'a list" where
  "remove_nth i xs = take i xs @ drop (Suc i) xs"

section \<open>Accepting\<close>

text \<open>What \<open>handleConnection\<close> sets up for its stream.\<close>

definition session_hooks :: "'w session \<Rightarrow> ('w, decode_error) processor_hooks" where
  "session_hooks ss = \<lparr>decoder = DecodeRawPacket, onPing = ss_onPing ss\<rparr>"

definition new_session :: "nat \<Rightarrow> string \<Rightarrow> 'w tcp_server \<Rightarrow> 'w session" where
  "new_session conn addr s =
     (case NewSafeSonarProcessor \<lparr>decoder = DecodeRawPacket, onPing = tc_onPing s\<rparr> (int MaxFrameSize) of
        Inr (a, sp, _) \<Rightarrow>
          \<lparr>ss_conn = conn, ss_addr = addr, ss_asm = safe_SetDebug (tc_debugLog s) a, ss_sp = sp,
           ss_onPing = tc_onPing s, ss_stuck = False\<rparr>)"

text \<open>The critical section of \<open>acceptLoop\<close>; a refused connection is closed and forgotten.\<close>

definition register_conn :: "nat \<Rightarrow> string \<Rightarrow> 'w tcp_server \<Rightarrow> 'w tcp_server" where
  "register_conn conn addr s =
     (if int (length (tc_conns s)) \<ge> tc_maxConns s then s
      else s\<lparr>tc_conns := AList.update addr conn (tc_conns s),
             tc_stats := (tc_stats s)\<lparr>t_ConnectionsOpened := t_ConnectionsOpened (tc_stats s) + 1\<rparr>,
             tc_sessions := tc_sessions s @ [new_session conn addr s]\<rparr>)"

section \<open>Sessions\<close>

definition count_read :: "byte list \<Rightarrow> TCPStats \<Rightarrow> TCPStats" where
  "count_read data st =
     st\<lparr>t_BytesReceived := t_BytesReceived st + of_nat (length data),
        t_PacketsReceived := t_PacketsReceived st + 1\<rparr>"

text \<open>
  One read of session \<open>i\<close>: count it and feed it. A \<open>Feed\<close> that blocks leaves the goroutine stuck,
  one that does not return at all (\<open>None\<close>) or panics is kept apart.
\<close>

definition session_read :: "nat \<Rightarrow> byte list \<Rightarrow> 'w tcp_server \<Rightarrow> 'w tcp_server go option" where
  "session_read i data s =
     (let ss = tc_sessions s ! i; s1 = s\<lparr>tc_stats := count_read data (tc_stats s)\<rparr> in
      case safe_Feed (session_hooks ss) data (ss_asm ss) (ss_sp ss, tc_world s) of
        None \<Rightarrow> None
      | Some (Inl Panic) \<Rightarrow> Some (Inl Panic)
      | Some (Inl Deadlock) \<Rightarrow>
          Some (Inr (s1\<lparr>tc_sessions := (tc_sessions s)[i := ss\<lparr>ss_stuck := True\<rparr>]\<rparr>))
      | Some (Inr (err, a, sp, w)) \<Rightarrow>
          Some (Inr (s1\<lparr>tc_sessions := (tc_sessions s)[i := ss\<lparr>ss_asm := a, ss_sp := sp\<rparr>],
                        tc_world := w,
                        tc_stats := (if err = None then tc_stats s1
                                     else (tc_stats s1)\<lparr>t_DecodeErrors := t_DecodeErrors (tc_stats s1) + 1\<rparr>)\<rparr>)))"

text \<open>The deferred function of \<open>handleConnection\<close>: the entry of its address goes, whoever put it.\<close>

definition session_end :: "nat \<Rightarrow> 'w tcp_server \<Rightarrow> 'w tcp_server" where
  "session_end i s =
     (let addr = ss_addr (tc_sessions s ! i);
          s1 = s\<lparr>tc_sessions := remove_nth i (tc_sessions s)\<rparr>
      in if addr \<in> fst ` set (tc_conns s1) then
           s1\<lparr>tc_conns := AList.delete addr (tc_conns s1),
              tc_stats := (tc_stats s1)\<lparr>t_ConnectionsClosed := t_ConnectionsClosed (tc_stats s1) + 1\<rparr>\<rparr>
         else s1)"

section \<open>The transition system\<close>

text \<open>
  Read errors and closed connections end a session; the model lets one end at any point between
  two reads, and lets a read that was waiting when the server stopped deliver its data.
\<close>

datatype tcp_label =
    LStart "nat option" | LStop | LStopListener nat | LStopConns nat | LStopReturns nat
  | LAccept nat nat string | LRegister nat string | LAcceptorExit nat | LRead nat "byte list" | LEnd nat

inductive tcp_step :: "'w tcp_server \<Rightarrow> tcp_label \<Rightarrow> 'w tcp_server \<Rightarrow> bool" where
  start: "tcp_step s (LStart listen) (snd (tcp_Start listen s))"
| stop: "tcp_step s LStop (stop_flag s)"
| stop_listener: "k < length (tc_stops s) \<Longrightarrow> tc_stops s ! k = CloseListener \<Longrightarrow>
    tcp_step s (LStopListener k) (stop_listener k s)"
| stop_conns: "k < length (tc_stops s) \<Longrightarrow> tc_stops s ! k = CloseConns \<Longrightarrow>
    tcp_step s (LStopConns k) (stop_conns k s)"
| stop_returns: "k < length (tc_stops s) \<Longrightarrow> tc_stops s ! k = WaitGroup \<Longrightarrow> wait_group_done s \<Longrightarrow>
    tcp_step s (LStopReturns k) (s\<lparr>tc_stops := remove_nth k (tc_stops s)\<rparr>)"
| accept: "j < length (tc_acceptors s) \<Longrightarrow> tc_acceptors s ! j = Accepting l \<Longrightarrow> l \<in> set (tc_open s) \<Longrightarrow>
    tcp_step s (LAccept j conn addr) (s\<lparr>tc_acceptors := (tc_acceptors s)[j := Holding l conn addr]\<rparr>)"
| register: "j < length (tc_acceptors s) \<Longrightarrow> tc_acceptors s ! j = Holding l conn addr \<Longrightarrow>
    tcp_step s (LRegister j addr)
      (register_conn conn addr (s\<lparr>tc_acceptors := (tc_acceptors s)[j := Accepting l]\<rparr>))"
| acceptor_exit: "\<not> tc_running s \<Longrightarrow> j < length (tc_acceptors s) \<Longrightarrow> tc_acceptors s ! j = Accepting l \<Longrightarrow>
    tcp_step s (LAcceptorExit j) (s\<lparr>tc_acceptors := remove_nth j (tc_acceptors s)\<rparr>)"
| read: "i < length (tc_sessions s) \<Longrightarrow> \<not> ss_stuck (tc_sessions s ! i) \<Longrightarrow>
    0 < length data \<Longrightarrow> length data \<le> 32768 \<Longrightarrow> session_read i data s = Some (Inr s') \<Longrightarrow>
    tcp_step s (LRead i data) s'"
| session_end: "i < length (tc_sessions s) \<Longrightarrow> \<not> ss_stuck (tc_sessions s ! i) \<Longrightarrow>
    tcp_step s (LEnd i) (session_end i s)"

inductive tcp_run :: "'w tcp_server \<Rightarrow> tcp_label list \<Rightarrow> 'w tcp_server \<Rightarrow> bool" where
  Nil: "tcp_run s [] s"
| Cons: "tcp_step s l s' \<Longrightarrow> tcp_run s' ls s'' \<Longrightarrow> tcp_run s (l # ls) s''"

inductive_simps tcp_run_Nil [simp]: "tcp_run s [] s'"
inductive_simps tcp_run_Cons: "tcp_run s (l # ls) s''"

inductive_simps tcp_step_read: "tcp_step s (LRead i data) s'"
inductive_simps tcp_step_returns: "tcp_step s (LStopReturns k) s'"
inductive_simps tcp_step_register: "tcp_step s (LRegister j addr) s'"

end
