(* ===== verification/INS_Processor.thy ===== *)
theory INS_Processor
  imports Sonar_Model
begin

text \<open>
  \<open>INSSafeProcessor\<close> of \<open>internal/framing/ins_processor.go\<close>: the buffer of inertial navigation
  frames, the timestamp filter, the resynchronisation and the range checks. \<open>time.Now\<close> is the
  parameter \<open>now\<close>: its \<open>k\<close>-th reading in microseconds is \<open>now k\<close>, and \<open>n_ticks\<close> counts the
  readings. The data handler works on a state \<open>'w\<close>.
\<close>

section \<open>State\<close>

definition INSFrameSize :: nat where "INSFrameSize = 32"
definition INSMaxFrameSize :: nat where "INSMaxFrameSize = 128"
definition INSValidRangeUS :: u64 where "INSValidRangeUS = 31536000000000"

record INSStats =
  ns_BytesFed :: u64
  ns_FramesCompleted :: u64
  ns_ResyncEvents :: u64
  ns_InvalidLength :: u64
  ns_BadTimestamp :: u64
  ns_Overruns :: u64

record ins_processor =
  n_buf :: "byte list"
  n_capacity :: nat
  n_readPos :: nat
  n_writePos :: nat
  n_maxSize :: nat
  n_expectedSize :: nat
  n_latestTS :: u64
  n_stats :: INSStats
  n_mu :: bool
  n_debugLog :: bool
  n_running :: bool
  n_ticks :: nat

datatype ins_feed_error = INSOverrun

datatype ins_frame_error = INSTooShort nat | InvalidLatLon real real | InvalidAttitude real real

type_synonym 'w ins_handler = "(INSData \<Rightarrow> 'w \<Rightarrow> 'w go) option"

definition NewINSSafeProcessor :: ins_processor where
  "NewINSSafeProcessor =
     (let capacity = INSMaxFrameSize * 8 in
      \<lparr>n_buf = replicate capacity 0, n_capacity = capacity, n_readPos = 0, n_writePos = 0,
       n_maxSize = INSMaxFrameSize, n_expectedSize = INSFrameSize, n_latestTS = 0,
       n_stats = \<lparr>ns_BytesFed = 0, ns_FramesCompleted = 0, ns_ResyncEvents = 0,
         ns_InvalidLength = 0, ns_BadTimestamp = 0, ns_Overruns = 0\<rparr>,
       n_mu = False, n_debugLog = False, n_running = False, n_ticks = 0\<rparr>)"

section \<open>Locked operations\<close>

definition ins_lock :: "ins_processor \<Rightarrow> ins_processor go" where
  "ins_lock p = (if n_mu p then Inl Deadlock else Inr (p\<lparr>n_mu := True\<rparr>))"

definition ins_unlock :: "ins_processor \<Rightarrow> ins_processor" where
  "ins_unlock p = p\<lparr>n_mu := False\<rparr>"

definition SetDataHandler ::
    "(INSData \<Rightarrow> 'w \<Rightarrow> 'w go) \<Rightarrow> ins_processor \<Rightarrow> 'w ins_handler \<Rightarrow> 'w ins_handler go" where
  "SetDataHandler handler p old =
     (case ins_lock p of Inl s \<Rightarrow> Inl s | Inr _ \<Rightarrow> Inr (Some handler))"

definition ins_SetDebug :: "bool \<Rightarrow> ins_processor \<Rightarrow> ins_processor" where
  "ins_SetDebug enabled p = p\<lparr>n_debugLog := enabled\<rparr>"

definition ins_Stats :: "ins_processor \<Rightarrow> INSStats go" where
  "ins_Stats p = (case ins_lock p of Inl s \<Rightarrow> Inl s | Inr p1 \<Rightarrow> Inr (n_stats p1))"

definition ins_Reset :: "ins_processor \<Rightarrow> ins_processor go" where
  "ins_Reset p =
     (case ins_lock p of
        Inl s \<Rightarrow> Inl s
      | Inr p1 \<Rightarrow> Inr (ins_unlock (p1\<lparr>n_readPos := 0, n_writePos := 0, n_latestTS := 0\<rparr>)))"

definition ins_available :: "ins_processor \<Rightarrow> nat" where
  "ins_available p = n_writePos p - n_readPos p"

definition ins_compactIfNeeded :: "ins_processor \<Rightarrow> ins_processor go" where
  "ins_compactIfNeeded p =
     (if n_readPos p > 0 \<and> ins_available p < n_capacity p div 4 then
        (case (if ins_available p > 0
               then (case go_slice (n_buf p) (n_readPos p) (n_writePos p) of
                       Inl s \<Rightarrow> Inl s
                     | Inr src \<Rightarrow> Inr (go_copy (n_buf p) src))
               else Inr (n_buf p)) of
           Inl s \<Rightarrow> Inl s
         | Inr b \<Rightarrow> Inr (p\<lparr>n_buf := b, n_writePos := n_writePos p - n_readPos p,
                            n_readPos := 0\<rparr>))
      else Inr p)"

section \<open>Timestamps\<close>

text \<open>
  The filter on one timestamp, given the last accepted one and the clock: all of it is
  wrap-around arithmetic on \<open>uint64\<close>, and \<open>int64(ts) - int64(latestTS)\<close> is read signed.
\<close>

definition valid_timestamp :: "u64 \<Rightarrow> u64 \<Rightarrow> u64 \<Rightarrow> bool" where
  "valid_timestamp clock latest ts =
     (if ts = 0 then False
      else if latest > 0 then
        (let diff = ts - latest in \<not> (sint diff < - 10000000 \<or> sint diff > 60000000))
      else \<not> (ts < clock - INSValidRangeUS \<or> ts > clock + 60000000))"

text \<open>\<open>isValidTimestamp\<close> reads the clock once, unless the timestamp is 0.\<close>

definition isValidTimestamp :: "(nat \<Rightarrow> u64) \<Rightarrow> u64 \<Rightarrow> ins_processor \<Rightarrow> bool \<times> ins_processor" where
  "isValidTimestamp now ts p =
     (if ts = 0 then (False, p)
      else (valid_timestamp (now (n_ticks p)) (n_latestTS p) ts, p\<lparr>n_ticks := n_ticks p + 1\<rparr>))"

text \<open>\<open>findNextCandidateLocked\<close>: the first offset of a valid timestamp; \<open>-1\<close> is \<open>None\<close>.\<close>

function find_candidate_loop ::
    "(nat \<Rightarrow> u64) \<Rightarrow> nat \<Rightarrow> nat \<Rightarrow> ins_processor \<Rightarrow> (nat option \<times> ins_processor) go" where
  "find_candidate_loop now available offset p =
     (if offset + 8 \<le> available then
        (case go_slice (n_buf p) (n_readPos p + offset) (n_readPos p + offset + 8) of
           Inl s \<Rightarrow> Inl s
         | Inr bs \<Rightarrow>
             (let (ok, p1) = isValidTimestamp now (le_word bs) p in
              if ok then Inr (Some offset, p1)
              else find_candidate_loop now available (offset + 1) p1))
      else Inr (None, p))"
  by pat_completeness auto
termination
  by (relation "measure (\<lambda>(now, available, offset, p). Suc available - offset)") auto

declare find_candidate_loop.simps [simp del]

definition findNextCandidateLocked ::
    "(nat \<Rightarrow> u64) \<Rightarrow> ins_processor \<Rightarrow> (nat option \<times> ins_processor) go" where
  "findNextCandidateLocked now p = find_candidate_loop now (ins_available p) 1 p"

section \<open>Frames\<close>

definition parse_ins_frame :: "byte list \<Rightarrow> INSData" where
  "parse_ins_frame frame =
     (let d0 = zero_INSData\<lparr>
            i_TimestampUS := le_word (sub_slice 0 8 frame),
            i_LatDeg7 := le_word (sub_slice 8 16 frame),
            i_LonDeg7 := le_word (sub_slice 16 24 frame),
            i_DepthMM := le_word (sub_slice 24 28 frame),
            i_RollCentidg := le_word (sub_slice 28 30 frame),
            i_PitchCentidg := le_word (sub_slice 30 32 frame)\<rparr>;
          d1 = (if length frame \<ge> 36 then
                  d0\<lparr>i_HeadingCentidg := le_word (sub_slice 32 34 frame),
                     i_HeaveMM := le_word (sub_slice 34 36 frame)\<rparr>
                else d0)
      in if length frame \<ge> 42 then
           d1\<lparr>i_VelXMM := le_word (sub_slice 36 38 frame), i_VelYMM := le_word (sub_slice 38 40 frame),
              i_VelZMM := le_word (sub_slice 40 42 frame)\<rparr>
         else d1)"

definition parseAndValidateFrame :: "byte list \<Rightarrow> ins_frame_error + INSData" where
  "parseAndValidateFrame frame =
     (if length frame < INSFrameSize then Inl (INSTooShort (length frame))
      else
        (let ins = parse_ins_frame frame; lat = Latitude ins; lon = Longitude ins;
             roll = real_of_int (sint (i_RollCentidg ins)) / 100;
             pitch = real_of_int (sint (i_PitchCentidg ins)) / 100
         in if lat < -90 \<or> lat > 90 \<or> lon < -180 \<or> lon > 180 then Inl (InvalidLatLon lat lon)
            else if roll < -180 \<or> roll > 180 \<or> pitch < -90 \<or> pitch > 90
            then Inl (InvalidAttitude roll pitch)
            else Inr ins))"

section \<open>The processing loop\<close>

datatype 'w ins_round = INSContinue ins_processor 'w | INSBreak ins_processor 'w

text \<open>One round of \<open>for p.available() >= p.expectedSize\<close>.\<close>

definition ins_round ::
    "(nat \<Rightarrow> u64) \<Rightarrow> 'w ins_handler \<Rightarrow> ins_processor \<Rightarrow> 'w \<Rightarrow> 'w ins_round go" where
  "ins_round now handler p w =
     (if ins_available p < n_expectedSize p then Inr (INSBreak p w)
      else
        (case go_slice (n_buf p) (n_readPos p) (n_readPos p + n_expectedSize p) of
           Inl s \<Rightarrow> Inl s
         | Inr frame \<Rightarrow>
             (let ts = le_word (sub_slice 0 8 frame); (ok, p1) = isValidTimestamp now ts p in
              if \<not> ok then
                (let p2 = p1\<lparr>n_stats := (n_stats p1)\<lparr>ns_BadTimestamp := ns_BadTimestamp (n_stats p1) + 1\<rparr>\<rparr>
                 in case findNextCandidateLocked now p2 of
                      Inl s \<Rightarrow> Inl s
                    | Inr (None, p3) \<Rightarrow> Inr (INSBreak p3 w)
                    | Inr (Some skip, p3) \<Rightarrow>
                        Inr (INSContinue (p3\<lparr>n_readPos := n_readPos p3 + skip,
                               n_stats := (n_stats p3)\<lparr>ns_ResyncEvents := ns_ResyncEvents (n_stats p3) + 1\<rparr>\<rparr>) w))
              else
                (case parseAndValidateFrame frame of
                   Inl err \<Rightarrow>
                     Inr (INSContinue (p1\<lparr>n_readPos := n_readPos p1 + 1,
                            n_stats := (n_stats p1)\<lparr>ns_InvalidLength := ns_InvalidLength (n_stats p1) + 1,
                              ns_ResyncEvents := ns_ResyncEvents (n_stats p1) + 1\<rparr>\<rparr>) w)
                 | Inr ins \<Rightarrow>
                     (let p2 = p1\<lparr>n_latestTS := ts, n_readPos := n_readPos p1 + n_expectedSize p1,
                            n_stats := (n_stats p1)\<lparr>ns_FramesCompleted := ns_FramesCompleted (n_stats p1) + 1\<rparr>\<rparr>
                      in case handler of
                           None \<Rightarrow> Inr (INSContinue p2 w)
                         | Some h \<Rightarrow>
                             (case h ins w of Inl s \<Rightarrow> Inl s | Inr w' \<Rightarrow> Inr (INSContinue p2 w')))))))"

partial_function (option) processLocked ::
    "(nat \<Rightarrow> u64) \<Rightarrow> 'w ins_handler \<Rightarrow> ins_processor \<Rightarrow> 'w \<Rightarrow> (ins_processor \<times> 'w) go option" where
  "processLocked now handler p w =
     (case ins_round now handler p w of
        Inl s \<Rightarrow> Some (Inl s)
      | Inr (INSBreak p' w') \<Rightarrow> Some (Inr (p', w'))
      | Inr (INSContinue p' w') \<Rightarrow> processLocked now handler p' w')"

text \<open>The overrun branch of \<open>Feed\<close>: keep the last \<open>writePos % expectedSize\<close> bytes.\<close>

definition ins_overrun :: "ins_processor \<Rightarrow> ins_processor go" where
  "ins_overrun p =
     (let p1 = p\<lparr>n_stats := (n_stats p)\<lparr>ns_Overruns := ns_Overruns (n_stats p) + 1\<rparr>\<rparr>;
          resetPos = n_writePos p1 mod n_expectedSize p1
      in if resetPos > 0 then
           (case go_slice (n_buf p1) (n_writePos p1 - resetPos) (n_writePos p1) of
              Inl s \<Rightarrow> Inl s
            | Inr src \<Rightarrow>
                Inr (p1\<lparr>n_buf := go_copy (n_buf p1) src, n_readPos := 0, n_writePos := resetPos\<rparr>))
         else Inr (p1\<lparr>n_readPos := 0, n_writePos := 0\<rparr>))"

definition ins_feedLocked ::
    "(nat \<Rightarrow> u64) \<Rightarrow> 'w ins_handler \<Rightarrow> byte list \<Rightarrow> ins_processor \<Rightarrow> 'w \<Rightarrow>
     (ins_feed_error option \<times> ins_processor \<times> 'w) go option" where
  "ins_feedLocked now handler data p w =
     (if data = [] then Some (Inr (None, p, w))
      else
        (case (if n_writePos p + length data > n_capacity p then ins_compactIfNeeded p else Inr p) of
           Inl s \<Rightarrow> Some (Inl s)
         | Inr p1 \<Rightarrow>
             if n_writePos p1 + length data > n_capacity p1 then
               (case ins_overrun p1 of
                  Inl s \<Rightarrow> Some (Inl s)
                | Inr p2 \<Rightarrow> Some (Inr (Some INSOverrun, p2, w)))
             else
               (case copy_at (n_buf p1) (n_writePos p1) data of
                  Inl s \<Rightarrow> Some (Inl s)
                | Inr b \<Rightarrow>
                    (case processLocked now handler
                            (p1\<lparr>n_buf := b, n_writePos := n_writePos p1 + length data,
                                n_stats := (n_stats p1)\<lparr>ns_BytesFed := ns_BytesFed (n_stats p1) + of_nat (length data)\<rparr>\<rparr>)
                            w of
                       None \<Rightarrow> None
                     | Some (Inl s) \<Rightarrow> Some (Inl s)
                     | Some (Inr (p2, w2)) \<Rightarrow> Some (Inr (None, p2, w2))))))"

definition ins_Feed ::
    "(nat \<Rightarrow> u64) \<Rightarrow> 'w ins_handler \<Rightarrow> byte list \<Rightarrow> ins_processor \<Rightarrow> 'w \<Rightarrow>
     (ins_feed_error option \<times> ins_processor \<times> 'w) go option" where
  "ins_Feed now handler data p w =
     (case ins_lock p of
        Inl s \<Rightarrow> Some (Inl s)
      | Inr p1 \<Rightarrow>
          (case ins_feedLocked now handler data p1 w of
             None \<Rightarrow> None
           | Some (Inl s) \<Rightarrow> Some (Inl s)
           | Some (Inr (err, p2, w2)) \<Rightarrow> Some (Inr (err, ins_unlock p2, w2))))"

end
