(* ===== verification/INS_Correct.thy ===== *)
theory INS_Correct
  imports INS_Processor
begin

text \<open>
  Correctness of \<open>INS_Processor\<close>: the invariant of its buffer, the processing loop as a function
  on the unread bytes (\<open>ins_run\<close>), the refinement of \<open>Feed\<close> to it, and what the data handler is
  given over any sequence of reads.
\<close>

section \<open>Window and invariant\<close>

definition ins_window :: "ins_processor \<Rightarrow> byte list" where
  "ins_window p = sub_slice (n_readPos p) (n_writePos p) (n_buf p)"

definition ins_inv :: "ins_processor \<Rightarrow> bool" where
  "ins_inv p \<longleftrightarrow>
     length (n_buf p) = n_capacity p \<and> n_readPos p \<le> n_writePos p \<and> n_writePos p \<le> n_capacity p
   \<and> n_capacity p = 1024 \<and> n_expectedSize p = 32"

lemma ins_inv_new: "ins_inv NewINSSafeProcessor"
  by (simp add: ins_inv_def NewINSSafeProcessor_def Let_def INSMaxFrameSize_def INSFrameSize_def)

lemma ins_new_facts:
  "\<not> n_mu NewINSSafeProcessor" "ins_window NewINSSafeProcessor = []" "n_latestTS NewINSSafeProcessor = 0"
  by (simp_all add: NewINSSafeProcessor_def Let_def ins_window_def sub_slice_def)

lemma length_ins_window: "ins_inv p \<Longrightarrow> length (ins_window p) = ins_available p"
  by (auto simp: ins_window_def length_slice ins_inv_def ins_available_def min_def)

lemma ins_window_slice:
  "ins_inv p \<Longrightarrow> i + k \<le> ins_available p \<Longrightarrow>
     go_slice (n_buf p) (n_readPos p + i) (n_readPos p + i + k) = Inr (sub_slice i (i + k) (ins_window p))"
  using slice_nested [of "n_readPos p" "i + k" "n_writePos p" i "n_buf p"]
  by (auto simp: go_slice_def ins_window_def ins_inv_def ins_available_def add.assoc)

lemma ins_window_advance:
  "ins_window (p\<lparr>n_readPos := n_readPos p + m\<rparr>) = drop m (ins_window p)"
  by (simp add: ins_window_def slice_drop)

section \<open>The loop on the unread bytes\<close>

definition tick :: "nat \<Rightarrow> u64 \<Rightarrow> nat" where
  "tick k ts = (if ts = 0 then k else k + 1)"

lemma isValidTimestamp_eq:
  "isValidTimestamp now ts p =
     (valid_timestamp (now (n_ticks p)) (n_latestTS p) ts, p\<lparr>n_ticks := tick (n_ticks p) ts\<rparr>)"
  by (simp add: isValidTimestamp_def tick_def valid_timestamp_def)

function find_ins :: "(nat \<Rightarrow> u64) \<Rightarrow> u64 \<Rightarrow> nat \<Rightarrow> nat \<Rightarrow> byte list \<Rightarrow> nat option \<times> nat" where
  "find_ins now latest k off s =
     (if off + 8 \<le> length s then
        (let ts = le_word (sub_slice off (off + 8) s) in
         if valid_timestamp (now k) latest ts then (Some off, tick k ts)
         else find_ins now latest (tick k ts) (off + 1) s)
      else (None, k))"
  by pat_completeness auto
termination
  by (relation "measure (\<lambda>(now, latest, k, off, s). Suc (length s) - off)") auto

declare find_ins.simps [simp del]

lemma find_ins_end: "length s < off + 8 \<Longrightarrow> find_ins now latest k off s = (None, k)"
  by (simp add: find_ins.simps [of now latest k off s])

lemma find_ins_hit:
  "off + 8 \<le> length s \<Longrightarrow> valid_timestamp (now k) latest (le_word (sub_slice off (off + 8) s)) \<Longrightarrow>
     find_ins now latest k off s = (Some off, tick k (le_word (sub_slice off (off + 8) s)))"
  by (simp add: find_ins.simps [of now latest k off s] Let_def)

lemma find_ins_skip:
  "off + 8 \<le> length s \<Longrightarrow> \<not> valid_timestamp (now k) latest (le_word (sub_slice off (off + 8) s)) \<Longrightarrow>
     find_ins now latest k off s
       = find_ins now latest (tick k (le_word (sub_slice off (off + 8) s))) (off + 1) s"
  by (simp only: find_ins.simps [of now latest k off s] Let_def if_True if_False)

lemma find_ins_bounds: "find_ins now latest k off s = (Some i, k') \<Longrightarrow> off \<le> i \<and> i + 8 \<le> length s"
proof (induction now latest k off s rule: find_ins.induct)
  case (1 now latest k off s)
  then show ?case
    by (subst (asm) (2) find_ins.simps) (auto simp: Let_def split: if_splits)
qed

lemma find_candidate_refines:
  assumes inv: "ins_inv p"
  shows "find_candidate_loop now (ins_available p) off (p\<lparr>n_ticks := k\<rparr>) =
     (let (res, k') = find_ins now (n_latestTS p) k off (ins_window p) in Inr (res, p\<lparr>n_ticks := k'\<rparr>))"
proof (induction "Suc (ins_available p) - off" arbitrary: off k)
  case 0
  then show ?case
    by (simp add: find_candidate_loop.simps find_ins_end length_ins_window [OF inv])
next
  case (Suc d)
  note len = length_ins_window [OF inv]
  show ?case
  proof (cases "off + 8 \<le> ins_available p")
    case False
    then show ?thesis
      by (simp add: find_candidate_loop.simps find_ins_end len)
  next
    case True
    define ts :: u64 where "ts = le_word (sub_slice off (off + 8) (ins_window p))"
    have slice: "go_slice (n_buf p) (n_readPos p + off) (n_readPos p + off + 8)
        = Inr (sub_slice off (off + 8) (ins_window p))"
      by (rule ins_window_slice [OF inv True])
    show ?thesis
    proof (cases "valid_timestamp (now k) (n_latestTS p) ts")
      case valid: True
      then show ?thesis
        using True slice len
        by (simp add: find_candidate_loop.simps [of now _ off] find_ins_hit isValidTimestamp_eq ts_def)
    next
      case invalid: False
      have "find_candidate_loop now (ins_available p) off (p\<lparr>n_ticks := k\<rparr>)
          = find_candidate_loop now (ins_available p) (off + 1) (p\<lparr>n_ticks := tick k ts\<rparr>)"
        using True slice invalid unfolding ts_def
        by (simp add: find_candidate_loop.simps [of now _ off] isValidTimestamp_eq)
      also have "\<dots> = (let (res, k') = find_ins now (n_latestTS p) (tick k ts) (off + 1) (ins_window p)
          in Inr (res, p\<lparr>n_ticks := k'\<rparr>))"
        by (rule Suc.hyps(1)) (use Suc.hyps(2) in arith)
      also have "find_ins now (n_latestTS p) (tick k ts) (off + 1) (ins_window p)
          = find_ins now (n_latestTS p) k off (ins_window p)"
        using True invalid len unfolding ts_def by (intro find_ins_skip [symmetric]) auto
      finally show ?thesis .
    qed
  qed
qed

function ins_run ::
    "(nat \<Rightarrow> u64) \<Rightarrow> (INSData \<Rightarrow> 'w \<Rightarrow> 'w go) \<Rightarrow> u64 \<Rightarrow> nat \<Rightarrow> byte list \<Rightarrow> 'w \<Rightarrow>
     (u64 \<times> nat \<times> byte list \<times> 'w) go" where
  "ins_run now h latest k s w =
     (if length s < 32 then Inr (latest, k, s, w)
      else
        (let ts = le_word (take 8 s) in
         if \<not> valid_timestamp (now k) latest ts then
           (case find_ins now latest (tick k ts) 1 s of
              (None, k') \<Rightarrow> Inr (latest, k', s, w)
            | (Some off, k') \<Rightarrow> ins_run now h latest k' (drop off s) w)
         else
           (case parseAndValidateFrame (take 32 s) of
              Inl err \<Rightarrow> ins_run now h latest (tick k ts) (drop 1 s) w
            | Inr d \<Rightarrow>
                (case h d w of
                   Inl x \<Rightarrow> Inl x
                 | Inr w' \<Rightarrow> ins_run now h ts (tick k ts) (drop 32 s) w'))))"
  by pat_completeness auto
termination
  by (relation "measure (\<lambda>(now, h, latest, k, s, w). length s)")
    (auto dest!: find_ins_bounds [OF sym])

declare ins_run.simps [simp del]

section \<open>The loop refines its specification\<close>

text \<open>A handler that may be nil.\<close>

definition ins_effect :: "'w ins_handler \<Rightarrow> INSData \<Rightarrow> 'w \<Rightarrow> 'w go" where
  "ins_effect handler d w = (case handler of None \<Rightarrow> Inr w | Some h \<Rightarrow> h d w)"

definition run_on ::
    "(nat \<Rightarrow> u64) \<Rightarrow> 'w ins_handler \<Rightarrow> ins_processor \<Rightarrow> 'w \<Rightarrow> (u64 \<times> nat \<times> byte list \<times> 'w) go" where
  "run_on now handler p w = ins_run now (ins_effect handler) (n_latestTS p) (n_ticks p) (ins_window p) w"

definition ins_same :: "ins_processor \<Rightarrow> ins_processor \<Rightarrow> bool" where
  "ins_same p p' \<longleftrightarrow> ins_inv p' \<and> n_mu p' = n_mu p \<and> n_writePos p' = n_writePos p"

definition ins_round_sim ::
    "(nat \<Rightarrow> u64) \<Rightarrow> 'w ins_handler \<Rightarrow> ins_processor \<Rightarrow> 'w \<Rightarrow> 'w ins_round go \<Rightarrow> bool" where
  "ins_round_sim now handler p w r \<longleftrightarrow>
     (case r of
        Inl x \<Rightarrow> run_on now handler p w = Inl x
      | Inr (INSBreak p' w') \<Rightarrow>
          run_on now handler p w = Inr (n_latestTS p', n_ticks p', ins_window p', w') \<and> ins_same p p'
      | Inr (INSContinue p' w') \<Rightarrow>
          run_on now handler p w = run_on now handler p' w' \<and> ins_same p p'
        \<and> ins_available p' < ins_available p)"

lemma ins_available_cong [simp]:
  "ins_available (p\<lparr>n_stats := s\<rparr>) = ins_available p"
  "ins_available (p\<lparr>n_ticks := k\<rparr>) = ins_available p"
  "ins_available (p\<lparr>n_latestTS := t\<rparr>) = ins_available p"
  "ins_available (p\<lparr>n_readPos := r\<rparr>) = n_writePos p - r"
  by (simp_all add: ins_available_def)

lemma ins_window_cong [simp]:
  "ins_window (p\<lparr>n_stats := s\<rparr>) = ins_window p"
  "ins_window (p\<lparr>n_ticks := k\<rparr>) = ins_window p"
  "ins_window (p\<lparr>n_latestTS := t\<rparr>) = ins_window p"
  "ins_window (p\<lparr>n_readPos := n_readPos p + m, n_stats := s\<rparr>) = drop m (ins_window p)"
  "ins_window (p\<lparr>n_ticks := k, n_readPos := n_readPos p + m\<rparr>) = drop m (ins_window p)"
  "ins_window (p\<lparr>n_ticks := k, n_readPos := n_readPos p + m, n_latestTS := t\<rparr>) = drop m (ins_window p)"
  "ins_window (p\<lparr>n_ticks := k, n_latestTS := t, n_readPos := n_readPos p + m\<rparr>) = drop m (ins_window p)"
  "ins_window (p\<lparr>n_mu := b\<rparr>) = ins_window p"
  by (simp_all add: ins_window_def slice_drop)

lemma ins_window_Suc [simp]:
  "ins_window (p\<lparr>n_ticks := k, n_readPos := Suc (n_readPos p)\<rparr>) = drop 1 (ins_window p)"
  using slice_drop [of "n_readPos p" 1 "n_writePos p" "n_buf p"] by (simp add: ins_window_def)

lemma ins_inv_cong [simp]:
  "ins_inv (p\<lparr>n_stats := s\<rparr>) = ins_inv p"
  "ins_inv (p\<lparr>n_ticks := k\<rparr>) = ins_inv p"
  "ins_inv (p\<lparr>n_latestTS := t\<rparr>) = ins_inv p"
  "ins_inv (p\<lparr>n_mu := b\<rparr>) = ins_inv p"
  by (simp_all add: ins_inv_def)

lemma ins_inv_advance:
  assumes "ins_inv p" and "m \<le> ins_available p"
  shows "ins_inv (p\<lparr>n_ticks := k, n_readPos := n_readPos p + m\<rparr>)"
    and "ins_inv (p\<lparr>n_ticks := k, n_latestTS := t, n_readPos := n_readPos p + m\<rparr>)"
    and "0 < m \<Longrightarrow> n_writePos p - (n_readPos p + m) < ins_available p"
  using assms by (auto simp: ins_inv_def ins_available_def)

lemma ticks_stats_commute: "p\<lparr>n_ticks := k, n_stats := s\<rparr> = p\<lparr>n_stats := s, n_ticks := k\<rparr>"
  by (cases p) simp

lemma ins_round_simulates:
  assumes inv: "ins_inv p"
  shows "ins_round_sim now handler p w (ins_round now handler p w)"
proof (cases "ins_available p < 32")
  case True
  with inv show ?thesis
    by (simp add: ins_round_def ins_round_sim_def run_on_def ins_run.simps length_ins_window ins_same_def)
      (simp add: ins_inv_def)
next
  case False
  let ?s = "ins_window p" and ?k = "n_ticks p" and ?l = "n_latestTS p"
  define ts :: u64 where "ts = le_word (take 8 ?s)"
  have size: "n_expectedSize p = 32" and len: "length ?s = ins_available p"
    using inv by (simp_all add: ins_inv_def length_ins_window)
  have slice: "go_slice (n_buf p) (n_readPos p) (n_readPos p + 32) = Inr (take 32 ?s)"
    using ins_window_slice [OF inv, of 0 32] False by (simp add: sub_slice_def)
  have head: "sub_slice 0 8 (take 32 ?s) = take 8 ?s"
    by (simp add: sub_slice_def)
  note round = ins_round_def [of now handler p w, unfolded size] slice isValidTimestamp_eq head
  note run = run_on_def ins_run.simps [of now _ ?l ?k ?s w]
  show ?thesis
  proof (cases "valid_timestamp (now ?k) ?l ts")
    case invalid: False
    obtain res k' where f: "find_ins now ?l (tick ?k ts) 1 ?s = (res, k')"
      by (cases "find_ins now ?l (tick ?k ts) 1 ?s")
    let ?st = "(n_stats p)\<lparr>ns_BadTimestamp := ns_BadTimestamp (n_stats p) + 1\<rparr>"
    have "findNextCandidateLocked now (p\<lparr>n_ticks := tick ?k ts, n_stats := ?st\<rparr>)
        = Inr (res, p\<lparr>n_ticks := k', n_stats := ?st\<rparr>)"
      using find_candidate_refines [of "p\<lparr>n_stats := ?st\<rparr>" now 1 "tick ?k ts"] inv f
      by (simp add: findNextCandidateLocked_def ticks_stats_commute)
    moreover have "1 \<le> off \<and> off \<le> ins_available p" if "res = Some off" for off
      using find_ins_bounds [of now ?l "tick ?k ts" 1 ?s off k'] f that len by simp
    ultimately show ?thesis
      using False invalid inv f len ins_inv_advance [OF inv, of "the res"]
      by (cases res) (auto simp: round ts_def [symmetric] ins_round_sim_def run ins_same_def)
  next
    case valid: True
    show ?thesis
    proof (cases "parseAndValidateFrame (take 32 ?s)")
      case (Inl err)
      with False valid inv len ins_inv_advance [OF inv, of 1] show ?thesis
        by (auto simp: round ts_def [symmetric] ins_round_sim_def run ins_same_def)
    next
      case (Inr d)
      with False valid inv len ins_inv_advance [OF inv, of 32] show ?thesis
        by (auto simp: round size ts_def [symmetric] ins_round_sim_def run ins_same_def ins_effect_def
            split: option.splits sum.splits)
    qed
  qed
qed

lemma process_refines:
  assumes "ins_inv p"
  shows "\<exists>res. processLocked now handler p w = Some res
           \<and> (case res of
                Inl x \<Rightarrow> run_on now handler p w = Inl x
              | Inr (p', w') \<Rightarrow>
                  run_on now handler p w = Inr (n_latestTS p', n_ticks p', ins_window p', w') \<and> ins_same p p')"
  using assms
proof (induction "ins_available p" arbitrary: p w rule: less_induct)
  case less
  note sim = ins_round_simulates [OF less.prems, of now handler w]
  show ?case
  proof (cases "ins_round now handler p w")
    case (Inl x)
    with sim show ?thesis by (simp add: processLocked.simps [of _ _ p] ins_round_sim_def)
  next
    case (Inr r)
    show ?thesis
    proof (cases r)
      case (INSBreak p' w')
      with Inr sim show ?thesis by (simp add: processLocked.simps [of _ _ p] ins_round_sim_def)
    next
      case (INSContinue p' w')
      then have step: "run_on now handler p w = run_on now handler p' w'" "ins_same p p'"
        "ins_available p' < ins_available p"
        using Inr sim by (simp_all add: ins_round_sim_def)
      then have "ins_inv p'" by (simp add: ins_same_def)
      from less.hyps [OF step(3) this, of w'] obtain res where
        res: "processLocked now handler p' w' = Some res"
        "case res of
           Inl x \<Rightarrow> run_on now handler p' w' = Inl x
         | Inr (p2, w2) \<Rightarrow>
             run_on now handler p' w' = Inr (n_latestTS p2, n_ticks p2, ins_window p2, w2) \<and> ins_same p' p2"
        by blast
      have "processLocked now handler p w = Some res"
        using Inr INSContinue res(1) by (simp add: processLocked.simps [of _ _ p])
      moreover have "ins_same p p2" if "ins_same p' p2" for p2
        using that step(2) by (simp add: ins_same_def)
      ultimately show ?thesis
        using res(2) step(1) by (cases res) auto
    qed
  qed
qed

section \<open>Reads\<close>

definition ins_write_position :: "ins_processor \<Rightarrow> nat \<Rightarrow> nat" where
  "ins_write_position p n =
     (if n_writePos p + n > n_capacity p \<and> ins_available p < n_capacity p div 4
      then ins_available p else n_writePos p)"

lemma ins_compact_window:
  assumes inv: "ins_inv p"
  shows "\<exists>q. ins_compactIfNeeded p = Inr q \<and> ins_inv q \<and> n_mu q = n_mu p \<and> ins_window q = ins_window p
           \<and> n_latestTS q = n_latestTS p \<and> n_ticks q = n_ticks p
           \<and> n_writePos q = (if ins_available p < n_capacity p div 4 then ins_available p else n_writePos p)"
proof (cases "n_readPos p > 0 \<and> ins_available p < n_capacity p div 4")
  case False
  then have "ins_compactIfNeeded p = Inr p"
    unfolding ins_compactIfNeeded_def by (rule if_not_P)
  with False inv show ?thesis by (auto simp: ins_available_def)
next
  case True
  let ?w = "sub_slice (n_readPos p) (n_writePos p) (n_buf p)"
  let ?q = "p\<lparr>n_buf := (if ins_available p > 0 then go_copy (n_buf p) ?w else n_buf p),
              n_writePos := n_writePos p - n_readPos p, n_readPos := 0\<rparr>"
  have "ins_compactIfNeeded p = Inr ?q"
    using True inv by (auto simp: ins_compactIfNeeded_def go_slice_def ins_inv_def)
  moreover have "ins_window ?q = ins_window p"
    using inv slice_go_copy_front [of "n_readPos p" "n_writePos p" "n_buf p"]
    by (auto simp: ins_window_def ins_available_def ins_inv_def sub_slice_def)
  moreover have "ins_inv ?q"
    using inv by (auto simp: ins_inv_def slice_simps)
  ultimately show ?thesis
    using True by (auto simp: ins_available_def)
qed

text \<open>What \<open>Feed\<close> does with the unread bytes; an overrun keeps the tail of the window's end.\<close>

definition ins_feed_spec ::
    "(nat \<Rightarrow> u64) \<Rightarrow> 'w ins_handler \<Rightarrow> ins_processor \<Rightarrow> byte list \<Rightarrow> 'w \<Rightarrow>
     (u64 \<times> nat \<times> byte list \<times> 'w) go" where
  "ins_feed_spec now handler p data w =
     ins_run now (ins_effect handler) (n_latestTS p) (n_ticks p) (ins_window p @ data) w"

lemma ins_overrun_ok:
  assumes "ins_inv p"
  shows "\<exists>q. ins_overrun p = Inr q \<and> ins_inv q \<and> n_mu q = n_mu p \<and> n_latestTS q = n_latestTS p
           \<and> n_ticks q = n_ticks p \<and> n_writePos q = n_writePos p mod 32
           \<and> ins_window q = sub_slice (n_writePos p - n_writePos p mod 32) (n_writePos p) (n_buf p)"
proof -
  let ?r = "n_writePos p mod 32"
  have r: "?r \<le> n_writePos p" "?r < 32" by simp_all
  have "sub_slice 0 ?r (go_copy (n_buf p) (sub_slice (n_writePos p - ?r) (n_writePos p) (n_buf p)))
      = sub_slice (n_writePos p - ?r) (n_writePos p) (n_buf p)"
    using slice_go_copy_front [of "n_writePos p - ?r" "n_writePos p" "n_buf p"] assms r(1)
    by (simp add: ins_inv_def)
  then show ?thesis
    using assms r
    by (auto simp: ins_overrun_def Let_def ins_inv_def go_slice_def slice_simps ins_window_def)
      (auto simp: sub_slice_def)
qed

lemma ins_inv_append:
  assumes "ins_inv p" and "n_writePos p + length data \<le> n_capacity p"
  shows "\<exists>b. copy_at (n_buf p) (n_writePos p) data = Inr b
           \<and> ins_inv (p\<lparr>n_buf := b, n_writePos := n_writePos p + length data, n_stats := s\<rparr>)
           \<and> ins_window (p\<lparr>n_buf := b, n_writePos := n_writePos p + length data, n_stats := s\<rparr>)
               = ins_window p @ data"
  using slice_copy_at [of "n_readPos p" "n_writePos p" data "n_buf p"] assms
  by (auto simp: ins_inv_def ins_window_def)

text \<open>\<open>Feed\<close> in a state with the invariant: the read fits and is processed, or it overruns.\<close>

lemma ins_Feed_refines:
  assumes inv: "ins_inv p" and mu: "\<not> n_mu p"
  shows "\<exists>res. ins_Feed now handler data p w = Some res \<and>
     (case res of
        Inl x \<Rightarrow> ins_feed_spec now handler p data w = Inl x
      | Inr (None, p', w') \<Rightarrow>
          (data = [] \<and> p' = p \<and> w' = w
             \<or> data \<noteq> [] \<and> ins_feed_spec now handler p data w = Inr (n_latestTS p', n_ticks p', ins_window p', w'))
        \<and> ins_inv p' \<and> \<not> n_mu p'
      | Inr (Some INSOverrun, p', w') \<Rightarrow>
          n_capacity p < ins_write_position p (length data) + length data
        \<and> w' = w \<and> n_latestTS p' = n_latestTS p \<and> length (ins_window p') < 32 \<and> ins_inv p' \<and> \<not> n_mu p')"
proof (cases "data = []")
  case True
  moreover have "p\<lparr>n_mu := False\<rparr> = p" using mu by (cases p) simp
  ultimately show ?thesis using inv mu
    by (simp add: ins_Feed_def ins_lock_def ins_feedLocked_def ins_unlock_def)
next
  case ne: False
  let ?n = "length data" and ?p = "p\<lparr>n_mu := True\<rparr>"
  have inv': "ins_inv ?p" using inv by simp
  obtain q where q: "(if n_writePos ?p + ?n > n_capacity ?p then ins_compactIfNeeded ?p else Inr ?p) = Inr q"
    "ins_inv q" "n_mu q" "ins_window q = ins_window p" "n_latestTS q = n_latestTS p" "n_ticks q = n_ticks p"
    "n_writePos q = ins_write_position p ?n"
    using ins_compact_window [OF inv'] inv'
    by (cases "n_writePos ?p + ?n > n_capacity ?p")
      (auto simp: ins_write_position_def ins_available_def)
  have cap: "n_capacity q = n_capacity p"
    using q(2) inv by (simp add: ins_inv_def)
  show ?thesis
  proof (cases "n_writePos q + ?n > n_capacity q")
    case True
    obtain r where r: "ins_overrun q = Inr r" "ins_inv r" "n_latestTS r = n_latestTS q"
      "n_writePos r = n_writePos q mod 32"
      using ins_overrun_ok [OF q(2)] by blast
    have "length (ins_window r) < 32"
      using r(2,4) mod_less_divisor [of 32 "n_writePos q"]
      by (simp add: length_ins_window ins_available_def)
    with True r q ne cap mu show ?thesis
      by (simp add: ins_Feed_def ins_lock_def ins_feedLocked_def ins_unlock_def)
  next
    case False
    let ?st = "(n_stats q)\<lparr>ns_BytesFed := ns_BytesFed (n_stats q) + of_nat ?n\<rparr>"
    obtain b where b: "copy_at (n_buf q) (n_writePos q) data = Inr b"
      "ins_inv (q\<lparr>n_buf := b, n_writePos := n_writePos q + ?n, n_stats := ?st\<rparr>)"
      "ins_window (q\<lparr>n_buf := b, n_writePos := n_writePos q + ?n, n_stats := ?st\<rparr>) = ins_window q @ data"
      using ins_inv_append [OF q(2), of data ?st] False by auto
    let ?q = "q\<lparr>n_buf := b, n_writePos := n_writePos q + ?n, n_stats := ?st\<rparr>"
    obtain res where res: "processLocked now handler ?q w = Some res"
      "case res of
         Inl x \<Rightarrow> run_on now handler ?q w = Inl x
       | Inr (p', w') \<Rightarrow>
           run_on now handler ?q w = Inr (n_latestTS p', n_ticks p', ins_window p', w') \<and> ins_same ?q p'"
      using process_refines [OF b(2), of now handler w] by blast
    have run: "run_on now handler ?q w = ins_feed_spec now handler p data w"
      using b(3) q by (simp add: run_on_def ins_feed_spec_def)
    have "ins_Feed now handler data p w =
        (case res of Inl x \<Rightarrow> Some (Inl x) | Inr (p', w') \<Rightarrow> Some (Inr (None, ins_unlock p', w')))"
      using False b(1) q(1) ne mu res(1)
      by (simp add: ins_Feed_def ins_lock_def ins_feedLocked_def split: sum.splits)
    with res(2) ne show ?thesis
      unfolding run by (cases res) (auto simp: ins_unlock_def ins_same_def)
  qed
qed

section \<open>What is delivered\<close>

text \<open>A handler that lists the records it is given.\<close>

definition collect :: "INSData \<Rightarrow> INSData list \<Rightarrow> INSData list go" where
  "collect d ds = Inr (ds @ [d])"

text \<open>
  A record in range; with 32-byte frames the fields behind the attitude are never filled.
\<close>

definition plausible_ins :: "INSData \<Rightarrow> bool" where
  "plausible_ins d \<longleftrightarrow>
     \<bar>Latitude d\<bar> \<le> 90 \<and> \<bar>Longitude d\<bar> \<le> 180
   \<and> \<bar>sint (i_RollCentidg d)\<bar> \<le> 18000 \<and> \<bar>sint (i_PitchCentidg d)\<bar> \<le> 9000
   \<and> i_HeadingCentidg d = 0 \<and> i_HeaveMM d = 0
   \<and> i_VelXMM d = 0 \<and> i_VelYMM d = 0 \<and> i_VelZMM d = 0"

text \<open>Each record's timestamp passed the filter with its predecessor's as the last one.\<close>

fun linked :: "(nat \<Rightarrow> u64) \<Rightarrow> u64 \<Rightarrow> INSData list \<Rightarrow> u64 \<Rightarrow> bool" where
  "linked now latest [] latest' = (latest' = latest)"
| "linked now latest (d # ds) latest' =
     ((\<exists>k. valid_timestamp (now k) latest (i_TimestampUS d)) \<and> linked now (i_TimestampUS d) ds latest')"

lemma linked_append:
  "linked now l (xs @ ys) l' \<longleftrightarrow> (\<exists>m. linked now l xs m \<and> linked now m ys l')"
  by (induction xs arbitrary: l) auto

lemma parsed_frame:
  assumes "parseAndValidateFrame (take 32 s) = Inr d" and "32 \<le> length s"
  shows "plausible_ins d" and "i_TimestampUS d = le_word (take 8 s)"
proof -
  let ?d = "parse_ins_frame (take 32 s)"
  have d: "d = ?d" and lat: "\<not> (Latitude ?d < -90 \<or> Latitude ?d > 90 \<or> Longitude ?d < -180 \<or> Longitude ?d > 180)"
    and att: "\<not> (real_of_int (sint (i_RollCentidg ?d)) / 100 < -180 \<or> real_of_int (sint (i_RollCentidg ?d)) / 100 > 180
      \<or> real_of_int (sint (i_PitchCentidg ?d)) / 100 < -90 \<or> real_of_int (sint (i_PitchCentidg ?d)) / 100 > 90)"
    using assms unfolding parseAndValidateFrame_def Let_def by (auto split: if_splits)
  have "i_HeadingCentidg ?d = 0 \<and> i_HeaveMM ?d = 0 \<and> i_VelXMM ?d = 0 \<and> i_VelYMM ?d = 0 \<and> i_VelZMM ?d = 0"
    using assms(2) by (simp add: parse_ins_frame_def zero_INSData_def Let_def)
  moreover have "\<bar>sint (i_RollCentidg ?d)\<bar> \<le> 18000" and "\<bar>sint (i_PitchCentidg ?d)\<bar> \<le> 9000"
    using att by linarith+
  moreover have "\<bar>Latitude ?d\<bar> \<le> 90" and "\<bar>Longitude ?d\<bar> \<le> 180"
    using lat by linarith+
  ultimately show "plausible_ins d"
    unfolding plausible_ins_def d by blast
  show "i_TimestampUS d = le_word (take 8 s)"
    unfolding d using assms(2) by (simp add: parse_ins_frame_def zero_INSData_def Let_def sub_slice_def)
qed

lemma ins_run_linked:
  "\<exists>l' k' s' ds. ins_run now collect l k s acc = Inr (l', k', s', acc @ ds)
     \<and> linked now l ds l' \<and> list_all plausible_ins ds"
proof (induction now "collect" l k s acc rule: ins_run.induct)
  case (1 now l k s acc)
  let ?ts = "le_word (take 8 s) :: u64"
  show ?case
  proof (cases "length s < 32")
    case True
    then show ?thesis by (simp add: ins_run.simps)
  next
    case len: False
    show ?thesis
    proof (cases "valid_timestamp (now k) l ?ts")
      case invalid: False
      obtain res k' where f: "find_ins now l (tick k ?ts) 1 s = (res, k')"
        by (cases "find_ins now l (tick k ?ts) 1 s")
      show ?thesis
      proof (cases res)
        case None
        with len invalid f show ?thesis by (simp add: ins_run.simps [of now _ l k s])
      next
        case (Some off)
        with len invalid f "1.hyps"(1) [OF len refl _ f [symmetric]] show ?thesis
          by (simp add: ins_run.simps [of now _ l k s])
      qed
    next
      case valid: True
      show ?thesis
      proof (cases "parseAndValidateFrame (take 32 s)")
        case (Inl err)
        with len valid "1.hyps"(2) [OF len refl] show ?thesis
          by (simp add: ins_run.simps [of now _ l k s])
      next
        case (Inr d)
        have d: "plausible_ins d" "i_TimestampUS d = ?ts"
          using parsed_frame [OF Inr] len by simp_all
        obtain l' k' s' ds where rest:
          "ins_run now collect ?ts (tick k ?ts) (drop 32 s) (acc @ [d]) = Inr (l', k', s', (acc @ [d]) @ ds)"
          "linked now ?ts ds l'" "list_all plausible_ins ds"
          using "1.hyps"(3) [OF len refl _ Inr, of "acc @ [d]"] valid by (auto simp: collect_def)
        with len valid Inr d have
          "ins_run now collect l k s acc = Inr (l', k', s', acc @ (d # ds))"
          by (simp add: ins_run.simps [of now _ l k s] collect_def)
        moreover have "linked now l (d # ds) l'" "list_all plausible_ins (d # ds)"
          using valid d rest by auto
        ultimately show ?thesis by blast
      qed
    qed
  qed
qed

text \<open>The reads of the INS connection, going on after an error.\<close>

fun ins_feed_all ::
    "(nat \<Rightarrow> u64) \<Rightarrow> 'w ins_handler \<Rightarrow> byte list list \<Rightarrow> ins_processor \<Rightarrow> 'w \<Rightarrow>
     (ins_feed_error option list \<times> ins_processor \<times> 'w) go option" where
  "ins_feed_all now handler [] p w = Some (Inr ([], p, w))"
| "ins_feed_all now handler (c # cs) p w =
     (case ins_Feed now handler c p w of
        None \<Rightarrow> None
      | Some (Inl x) \<Rightarrow> Some (Inl x)
      | Some (Inr (e, p1, w1)) \<Rightarrow>
          (case ins_feed_all now handler cs p1 w1 of
             None \<Rightarrow> None
           | Some (Inl x) \<Rightarrow> Some (Inl x)
           | Some (Inr (es, p2, w2)) \<Rightarrow> Some (Inr (e # es, p2, w2))))"

lemma ins_Feed_collect:
  assumes "ins_inv p" and "\<not> n_mu p"
  shows "\<exists>e p' ds. ins_Feed now (Some collect) data p acc = Some (Inr (e, p', acc @ ds))
           \<and> ins_inv p' \<and> \<not> n_mu p' \<and> linked now (n_latestTS p) ds (n_latestTS p') \<and> list_all plausible_ins ds"
proof -
  obtain l' k' s' ds where run: "ins_feed_spec now (Some collect) p data acc = Inr (l', k', s', acc @ ds)"
    "linked now (n_latestTS p) ds l'" "list_all plausible_ins ds"
    using ins_run_linked [of now "n_latestTS p" "n_ticks p" "ins_window p @ data" acc]
    by (auto simp: ins_feed_spec_def ins_effect_def [abs_def])
  obtain res where res: "ins_Feed now (Some collect) data p acc = Some res"
    "case res of
       Inl x \<Rightarrow> ins_feed_spec now (Some collect) p data acc = Inl x
     | Inr (None, p', w') \<Rightarrow>
         (data = [] \<and> p' = p \<and> w' = acc
            \<or> data \<noteq> [] \<and> ins_feed_spec now (Some collect) p data acc = Inr (n_latestTS p', n_ticks p', ins_window p', w'))
       \<and> ins_inv p' \<and> \<not> n_mu p'
     | Inr (Some INSOverrun, p', w') \<Rightarrow>
         n_capacity p < ins_write_position p (length data) + length data
       \<and> w' = acc \<and> n_latestTS p' = n_latestTS p \<and> length (ins_window p') < 32 \<and> ins_inv p' \<and> \<not> n_mu p'"
    using ins_Feed_refines [OF assms, of now "Some collect" data acc] by blast
  then obtain e p' w' where r: "res = Inr (e, p', w')"
    using run(1) by (cases res) auto
  show ?thesis
  proof (cases e)
    case (Some x)
    with res r show ?thesis by (cases x) (auto intro: exI [of _ "[]"])
  next
    case None
    with res r run show ?thesis
      by (cases "data = []") (auto intro: exI [of _ "[]"])
  qed
qed

text \<open>A handler that accepts every plausible record and keeps a property of its world.\<close>

lemma ins_run_keeps:
  assumes "\<And>d w. plausible_ins d \<Longrightarrow> P w \<Longrightarrow> \<exists>w'. h d w = Inr w' \<and> P w'" and "P w"
  shows "\<exists>l' k' s' w'. ins_run now h l k s w = Inr (l', k', s', w') \<and> P w'"
  using assms
proof (induction now h l k s w rule: ins_run.induct)
  case (1 now h l k s w)
  let ?ts = "le_word (take 8 s) :: u64"
  note step = ins_run.simps [of now h l k s]
  show ?case
  proof (cases "length s < 32")
    case True
    with "1.prems"(2) show ?thesis by (simp add: step)
  next
    case len: False
    show ?thesis
    proof (cases "valid_timestamp (now k) l ?ts")
      case invalid: False
      obtain res k' where f: "find_ins now l (tick k ?ts) 1 s = (res, k')"
        by (cases "find_ins now l (tick k ?ts) 1 s")
      show ?thesis
      proof (cases res)
        case None
        with len invalid f "1.prems"(2) show ?thesis by (simp add: step)
      next
        case (Some off)
        with len invalid f "1.IH"(1) [OF len refl _ f [symmetric] Some "1.prems"] show ?thesis
          by (simp add: step)
      qed
    next
      case valid: True
      show ?thesis
      proof (cases "parseAndValidateFrame (take 32 s)")
        case (Inl err)
        with len valid "1.IH"(2) [OF len refl _ Inl "1.prems"] show ?thesis
          by (simp add: step)
      next
        case (Inr d)
        have "plausible_ins d"
          using parsed_frame [OF Inr] len by simp
        then obtain w' where "h d w = Inr w'" "P w'"
          using "1.prems" by blast
        with len valid Inr "1.IH"(3) [OF len refl _ Inr _ "1.prems"(1)] show ?thesis
          by (simp add: step Let_def)
      qed
    qed
  qed
qed

lemma ins_Feed_keeps:
  assumes "ins_inv p" and "\<not> n_mu p" and "\<And>d w. plausible_ins d \<Longrightarrow> P w \<Longrightarrow> \<exists>w'. h d w = Inr w' \<and> P w'" and "P w"
  shows "\<exists>e p' w'. ins_Feed now (Some h) data p w = Some (Inr (e, p', w')) \<and> ins_inv p' \<and> \<not> n_mu p' \<and> P w'"
proof -
  have eff: "ins_effect (Some h) = h" by (simp add: ins_effect_def [abs_def])
  obtain l' k' s' w1 where run: "ins_feed_spec now (Some h) p data w = Inr (l', k', s', w1)" "P w1"
    using ins_run_keeps [of P h w now "n_latestTS p" "n_ticks p" "ins_window p @ data", OF assms(3,4)]
    unfolding ins_feed_spec_def eff by blast
  obtain res where res: "ins_Feed now (Some h) data p w = Some res"
    "case res of
       Inl x \<Rightarrow> ins_feed_spec now (Some h) p data w = Inl x
     | Inr (None, p', w') \<Rightarrow>
         (data = [] \<and> p' = p \<and> w' = w
            \<or> data \<noteq> [] \<and> ins_feed_spec now (Some h) p data w = Inr (n_latestTS p', n_ticks p', ins_window p', w'))
       \<and> ins_inv p' \<and> \<not> n_mu p'
     | Inr (Some INSOverrun, p', w') \<Rightarrow>
         n_capacity p < ins_write_position p (length data) + length data
       \<and> w' = w \<and> n_latestTS p' = n_latestTS p \<and> length (ins_window p') < 32 \<and> ins_inv p' \<and> \<not> n_mu p'"
    using ins_Feed_refines [OF assms(1,2), of now "Some h" data w] by blast
  then obtain e p' w' where r: "res = Inr (e, p', w')"
    using run(1) by (cases res) auto
  show ?thesis
  proof (cases e)
    case (Some x)
    with res r assms(4) show ?thesis by (cases x) auto
  next
    case None
    with res r run assms(4) show ?thesis
      by (cases "data = []") auto
  qed
qed

text \<open>C11. Whatever bytes arrive and however they are cut into reads, the processor returns from
  every \<open>Feed\<close> (no panic, no endless loop), and each record it hands on is in range: latitude
  and longitude, roll and pitch within their limits, and its timestamp passed the filter against
  the record handed on before it. Heading, heave and velocity are always 0.\<close>

theorem ins_delivers_plausible_records:
  assumes "ins_inv p" and "\<not> n_mu p"
  shows "\<exists>errs p' ds. ins_feed_all now (Some collect) cs p acc = Some (Inr (errs, p', acc @ ds))
           \<and> list_all plausible_ins ds \<and> linked now (n_latestTS p) ds (n_latestTS p')
           \<and> ins_inv p' \<and> \<not> n_mu p'"
  using assms
proof (induction cs arbitrary: p acc)
  case Nil
  then show ?case by simp
next
  case (Cons c cs)
  obtain e p1 ds1 where step: "ins_Feed now (Some collect) c p acc = Some (Inr (e, p1, acc @ ds1))"
    "ins_inv p1" "\<not> n_mu p1" "linked now (n_latestTS p) ds1 (n_latestTS p1)" "list_all plausible_ins ds1"
    using ins_Feed_collect [OF Cons.prems, of now c acc] by blast
  obtain errs p' ds2 where rest: "ins_feed_all now (Some collect) cs p1 (acc @ ds1)
      = Some (Inr (errs, p', (acc @ ds1) @ ds2))" "list_all plausible_ins ds2"
    "linked now (n_latestTS p1) ds2 (n_latestTS p')" "ins_inv p'" "\<not> n_mu p'"
    using Cons.IH [OF step(2,3), of "acc @ ds1"] by blast
  have "linked now (n_latestTS p) (ds1 @ ds2) (n_latestTS p')"
    using step(4) rest(3) by (auto simp: linked_append)
  with step rest show ?case
    by (intro exI [of _ "e # errs"] exI [of _ p'] exI [of _ "ds1 @ ds2"]) simp
qed

lemma ins_delivers_plausible_records_witness:
  "\<exists>errs p' ds. ins_feed_all (\<lambda>k. 5) (Some collect) [[1, 2], [3]] NewINSSafeProcessor [] = Some (Inr (errs, p', [] @ ds))
     \<and> list_all plausible_ins ds \<and> linked (\<lambda>k. 5) (n_latestTS NewINSSafeProcessor) ds (n_latestTS p')
     \<and> ins_inv p' \<and> \<not> n_mu p'"
  by (rule ins_delivers_plausible_records [OF ins_inv_new ins_new_facts(1)])

section \<open>Streams of valid frames\<close>

definition frame_ts :: "byte list \<Rightarrow> u64" where
  "frame_ts f = le_word (take 8 f)"

text \<open>Frames that follow each other: in range, with timestamps that the filter accepts.\<close>

fun ins_stream :: "(nat \<Rightarrow> u64) \<Rightarrow> u64 \<Rightarrow> byte list list \<Rightarrow> bool" where
  "ins_stream now latest [] = True"
| "ins_stream now latest (f # fs) =
     (length f = 32 \<and> parseAndValidateFrame f = Inr (parse_ins_frame f)
      \<and> (\<forall>k. valid_timestamp (now k) latest (frame_ts f)) \<and> ins_stream now (frame_ts f) fs)"

fun last_ts :: "u64 \<Rightarrow> byte list list \<Rightarrow> u64" where
  "last_ts latest [] = latest"
| "last_ts latest (f # fs) = last_ts (frame_ts f) fs"

lemma ins_stream_append:
  "ins_stream now l (xs @ ys) \<longleftrightarrow> ins_stream now l xs \<and> ins_stream now (last_ts l xs) ys"
  by (induction xs arbitrary: l) auto

lemma ins_stream_lengths: "ins_stream now l fs \<Longrightarrow> \<forall>f \<in> set fs. length f = 32"
  by (induction fs arbitrary: l) auto

text \<open>A handler given records one after the other.\<close>

fun hand_records :: "(INSData \<Rightarrow> 'w \<Rightarrow> 'w go) \<Rightarrow> INSData list \<Rightarrow> 'w \<Rightarrow> 'w go" where
  "hand_records h [] w = Inr w"
| "hand_records h (d # ds) w = (case h d w of Inl x \<Rightarrow> Inl x | Inr w' \<Rightarrow> hand_records h ds w')"

lemma hand_records_append:
  "hand_records h (xs @ ys) w = (case hand_records h xs w of Inl x \<Rightarrow> Inl x | Inr w' \<Rightarrow> hand_records h ys w')"
  by (induction xs arbitrary: w) (auto split: sum.splits)

lemma hand_records_collect: "hand_records collect ds acc = Inr (acc @ ds)"
  by (induction ds arbitrary: acc) (simp_all add: collect_def)

lemma ins_run_stream:
  assumes "ins_stream now l fs" and "length r < 32" and "hand_records h (map parse_ins_frame fs) w = Inr w'"
  shows "\<exists>k'. ins_run now h l k (concat fs @ r) w = Inr (last_ts l fs, k', r, w')"
  using assms
proof (induction fs arbitrary: l k w)
  case Nil
  then show ?case by (simp add: ins_run.simps)
next
  case (Cons f fs)
  have f: "length f = 32" "parseAndValidateFrame f = Inr (parse_ins_frame f)"
    "valid_timestamp (now k) l (frame_ts f)"
    using Cons.prems(1) by auto
  obtain w1 where w1: "h (parse_ins_frame f) w = Inr w1" "hand_records h (map parse_ins_frame fs) w1 = Inr w'"
    using Cons.prems(3) by (auto split: sum.splits)
  have "ins_run now h l k (f @ concat fs @ r) w
      = ins_run now h (frame_ts f) (tick k (frame_ts f)) (concat fs @ r) w1"
    using f w1(1) by (simp add: ins_run.simps [of now _ l k "f @ concat fs @ r"] frame_ts_def Let_def)
  with Cons.IH [of "frame_ts f" w1 "tick k (frame_ts f)"] Cons.prems(1,2) w1(2) show ?case
    by simp
qed

lemma fixed_frames_prefix:
  assumes "\<forall>f \<in> set fs. length f = n" and "s @ q = concat fs" and "0 < n"
  shows "\<exists>fs1 fs2 r. fs = fs1 @ fs2 \<and> s = concat fs1 @ r \<and> r @ q = concat fs2 \<and> length r < n"
  using assms
proof (induction fs arbitrary: s)
  case Nil
  then show ?case by simp
next
  case (Cons f fs)
  show ?case
  proof (cases "length s < n")
    case True
    then show ?thesis
      using Cons.prems(2) by (intro exI [of _ "[]"] exI [of _ "f # fs"] exI [of _ s]) simp
  next
    case False
    have "length f = n" using Cons.prems(1) by simp
    with False Cons.prems(2) have t: "take n s = f" and s2: "drop n s @ q = concat fs"
      by (auto simp: append_eq_append_conv_if split: if_splits)
    have s1: "s = f @ drop n s"
      using append_take_drop_id [of n s] unfolding t by (rule sym)
    from Cons.IH [OF _ s2] Cons.prems(1,3) obtain fs1 fs2 r where
      cut: "fs = fs1 @ fs2 \<and> drop n s = concat fs1 @ r \<and> r @ q = concat fs2 \<and> length r < n"
      by auto
    then have "s = concat (f # fs1) @ r"
      using s1 by simp
    with cut show ?thesis
      by (intro exI [of _ "f # fs1"] exI [of _ fs2] exI [of _ r]) simp
  qed
qed

lemma ins_Feed_stream:
  assumes "ins_inv p" and "\<not> n_mu p" and "length (ins_window p) < 32" and "length c \<le> 992"
    and "ins_stream now (n_latestTS p) fs" and "ins_window p @ c @ rest = concat fs"
    and "hand_records h (map parse_ins_frame fs) w = Inr w'"
  shows "\<exists>p' fs1 fs2 w1. fs = fs1 @ fs2
           \<and> ins_Feed now (Some h) c p w = Some (Inr (None, p', w1))
           \<and> hand_records h (map parse_ins_frame fs1) w = Inr w1
           \<and> hand_records h (map parse_ins_frame fs2) w1 = Inr w'
           \<and> ins_inv p' \<and> \<not> n_mu p' \<and> length (ins_window p') < 32
           \<and> ins_stream now (n_latestTS p') fs2 \<and> ins_window p' @ rest = concat fs2"
proof (cases "c = []")
  case True
  moreover have "p\<lparr>n_mu := False\<rparr> = p" using assms(2) by (cases p) simp
  ultimately show ?thesis
    using assms
    by (intro exI [of _ p] exI [of _ "[]"] exI [of _ fs] exI [of _ w])
      (simp add: ins_Feed_def ins_lock_def ins_feedLocked_def ins_unlock_def)
next
  case False
  obtain fs1 fs2 r where cut: "fs = fs1 @ fs2" "ins_window p @ c = concat fs1 @ r" "r @ rest = concat fs2"
    "length r < 32"
    using fixed_frames_prefix [OF ins_stream_lengths [OF assms(5)], of "ins_window p @ c" rest] assms(6)
    by auto
  obtain w1 where w1: "hand_records h (map parse_ins_frame fs1) w = Inr w1"
    "hand_records h (map parse_ins_frame fs2) w1 = Inr w'"
    using assms(7) by (auto simp: cut(1) hand_records_append split: sum.splits)
  obtain k' where run: "ins_feed_spec now (Some h) p c w = Inr (last_ts (n_latestTS p) fs1, k', r, w1)"
    using ins_run_stream [of now "n_latestTS p" fs1 r h w w1 "n_ticks p"] assms(5) cut w1(1)
    by (auto simp: ins_feed_spec_def ins_effect_def [abs_def] ins_stream_append)
  have fits: "\<not> n_capacity p < ins_write_position p (length c) + length c"
    using assms(1,3,4) length_ins_window [OF assms(1)]
    by (auto simp: ins_write_position_def ins_inv_def)
  obtain res where res: "ins_Feed now (Some h) c p w = Some res"
    "case res of
       Inl x \<Rightarrow> ins_feed_spec now (Some h) p c w = Inl x
     | Inr (None, p', v) \<Rightarrow>
         (c = [] \<and> p' = p \<and> v = w
            \<or> c \<noteq> [] \<and> ins_feed_spec now (Some h) p c w = Inr (n_latestTS p', n_ticks p', ins_window p', v))
       \<and> ins_inv p' \<and> \<not> n_mu p'
     | Inr (Some INSOverrun, p', v) \<Rightarrow>
         n_capacity p < ins_write_position p (length c) + length c
       \<and> v = w \<and> n_latestTS p' = n_latestTS p \<and> length (ins_window p') < 32 \<and> ins_inv p' \<and> \<not> n_mu p'"
    using ins_Feed_refines [OF assms(1,2), of now "Some h" c w] by blast
  then obtain e p' v where r: "res = Inr (e, p', v)"
    using run by (cases res) auto
  moreover have "e = None"
    using res(2) r fits by (cases e) (auto split: ins_feed_error.splits)
  ultimately show ?thesis
    using res run False cut assms(5) w1
    by (intro exI [of _ p'] exI [of _ fs1] exI [of _ fs2] exI [of _ w1]) (auto simp: ins_stream_append)
qed

lemma ins_feed_all_stream:
  assumes "ins_inv p" and "\<not> n_mu p" and "length (ins_window p) < 32" and "\<forall>c \<in> set cs. length c \<le> 992"
    and "ins_stream now (n_latestTS p) fs" and "ins_window p @ concat cs = concat fs"
    and "hand_records h (map parse_ins_frame fs) w = Inr w'"
  shows "\<exists>p'. ins_feed_all now (Some h) cs p w = Some (Inr (replicate (length cs) None, p', w')) \<and> ins_window p' = []"
  using assms
proof (induction cs arbitrary: p w fs)
  case Nil
  then have "concat fs = ins_window p" by simp
  with Nil have "fs = []"
    by (cases fs) auto
  with Nil show ?case by simp
next
  case (Cons c cs)
  obtain p1 fs1 fs2 w1 where step: "ins_Feed now (Some h) c p w = Some (Inr (None, p1, w1))"
    "ins_inv p1" "\<not> n_mu p1" "length (ins_window p1) < 32"
    "ins_stream now (n_latestTS p1) fs2" "ins_window p1 @ concat cs = concat fs2"
    "hand_records h (map parse_ins_frame fs2) w1 = Inr w'"
    using ins_Feed_stream [OF Cons.prems(1-3), of c now fs "concat cs" h w w'] Cons.prems(4-7) by auto
  with Cons.IH [OF step(2-4) _ step(5-7)] Cons.prems(4) show ?case
    by auto
qed

text \<open>A read longer than the buffer of 1024 bytes, which the reader's 4096 bytes admit, is dropped whole
  and delivers nothing.\<close>

lemma ins_large_read_dropped:
  assumes "ins_inv p" and "\<not> n_mu p" and "1024 < length data"
  shows "\<exists>p'. ins_Feed now handler data p w = Some (Inr (Some INSOverrun, p', w)) \<and> ins_inv p' \<and> \<not> n_mu p'"
proof -
  have "ins_inv (p\<lparr>n_mu := True\<rparr>)" using assms(1) by (simp add: ins_inv_def)
  from ins_compact_window [OF this] obtain q where q: "ins_compactIfNeeded (p\<lparr>n_mu := True\<rparr>) = Inr q" "ins_inv q"
    by blast
  from ins_overrun_ok [OF q(2)] obtain q' where "ins_overrun q = Inr q'" "ins_inv q'"
    by blast
  with q assms show ?thesis
    by (auto simp: ins_Feed_def ins_feedLocked_def ins_lock_def ins_unlock_def ins_inv_def)
qed

text \<open>C10. A stream of valid 32-byte frames with plausible successive timestamps, cut anywhere into
  reads of at most 992 bytes, the buffer less one frame, is handed on record by record: every
  \<open>Feed\<close> returns nil, none is lost or repeated, and nothing stays in the buffer. (Longer reads may
  overrun the buffer: \<open>ins_large_read_dropped\<close>.)\<close>

theorem ins_stream_delivers_records:
  assumes "ins_stream now 0 fs" and "concat cs = concat fs" and "\<forall>c \<in> set cs. length c \<le> 992"
  shows "\<exists>p'. ins_feed_all now (Some collect) cs NewINSSafeProcessor []
             = Some (Inr (replicate (length cs) None, p', map parse_ins_frame fs))
           \<and> ins_window p' = []"
  using ins_feed_all_stream [OF ins_inv_new _ _ assms(3), of now fs collect "[]" "map parse_ins_frame fs"]
    assms(1,2) ins_new_facts by (simp add: hand_records_collect)

text \<open>Two frames a second apart, received at the time of the first.\<close>

definition ins_frame_a :: "byte list" where
  "ins_frame_a = [0, 64, 30, 24, 36, 10, 6, 0] @ replicate 24 0"

definition ins_frame_b :: "byte list" where
  "ins_frame_b = [64, 130, 45, 24, 36, 10, 6, 0] @ replicate 24 0"

lemma frame_ts_ab: "frame_ts ins_frame_a = 1700000000000000" "frame_ts ins_frame_b = 1700000001000000"
  by (simp_all add: frame_ts_def ins_frame_a_def ins_frame_b_def le_word_def be_word_def be_nat_def)

lemma le_word_zeros [simp]: "le_word (replicate n 0) = 0"
proof -
  have "be_nat (replicate n 0) = 0"
    by (induction n) (simp_all add: replicate_append_same [symmetric])
  then show ?thesis by (simp add: le_word_def be_word_def)
qed

lemma parse_ab:
  "length ins_frame_a = 32" "parseAndValidateFrame ins_frame_a = Inr (parse_ins_frame ins_frame_a)"
  "length ins_frame_b = 32" "parseAndValidateFrame ins_frame_b = Inr (parse_ins_frame ins_frame_b)"
  by (simp_all add: parseAndValidateFrame_def parse_ins_frame_def ins_frame_a_def ins_frame_b_def
      INSFrameSize_def Let_def Latitude_def Longitude_def zero_INSData_def sub_slice_def)

lemma stream_ab: "ins_stream (\<lambda>k. 1700000000000000) 0 [ins_frame_a, ins_frame_b]"
  by (simp add: parse_ab frame_ts_ab valid_timestamp_def INSValidRangeUS_def)

lemma ins_stream_delivers_records_witness:
  "\<exists>p'. ins_feed_all (\<lambda>k. 1700000000000000) (Some collect)
           [take 5 ins_frame_a, drop 5 ins_frame_a @ ins_frame_b] NewINSSafeProcessor []
      = Some (Inr ([None, None], p', [parse_ins_frame ins_frame_a, parse_ins_frame ins_frame_b]))
    \<and> ins_window p' = []"
  using ins_stream_delivers_records [OF stream_ab, of "[take 5 ins_frame_a, drop 5 ins_frame_a @ ins_frame_b]"]
  by (simp add: parse_ab append_assoc [symmetric] numeral_2_eq_2 del: append_assoc)

section \<open>Refinement and resynchronisation\<close>

text \<open>In any state the invariant allows, \<open>Feed\<close> returns and refines \<open>ins_run\<close> on the unread
  bytes followed by the new ones; a read that does not fit even after compaction returns the
  overrun error, hands nothing on, drops the new bytes and keeps less than one frame of the old.\<close>

theorem ins_Feed_refines_run:
  assumes "ins_inv p" and "\<not> n_mu p"
  shows "\<exists>res. ins_Feed now handler data p w = Some res \<and>
     (case res of
        Inl x \<Rightarrow> ins_feed_spec now handler p data w = Inl x
      | Inr (None, p', w') \<Rightarrow>
          (data = [] \<and> p' = p \<and> w' = w
             \<or> data \<noteq> [] \<and> ins_feed_spec now handler p data w = Inr (n_latestTS p', n_ticks p', ins_window p', w'))
        \<and> ins_inv p' \<and> \<not> n_mu p'
      | Inr (Some INSOverrun, p', w') \<Rightarrow>
          n_capacity p < ins_write_position p (length data) + length data
        \<and> w' = w \<and> n_latestTS p' = n_latestTS p \<and> length (ins_window p') < 32 \<and> ins_inv p' \<and> \<not> n_mu p')"
  by (rule ins_Feed_refines [OF assms])

lemma ins_Feed_refines_run_witness:
  "\<exists>res. ins_Feed (\<lambda>k. 9) (Some collect) ins_frame_a NewINSSafeProcessor [] = Some res \<and>
     (case res of
        Inl x \<Rightarrow> ins_feed_spec (\<lambda>k. 9) (Some collect) NewINSSafeProcessor ins_frame_a [] = Inl x
      | Inr (None, p', w') \<Rightarrow>
          (ins_frame_a = [] \<and> p' = NewINSSafeProcessor \<and> w' = []
             \<or> ins_frame_a \<noteq> [] \<and> ins_feed_spec (\<lambda>k. 9) (Some collect) NewINSSafeProcessor ins_frame_a []
                 = Inr (n_latestTS p', n_ticks p', ins_window p', w'))
        \<and> ins_inv p' \<and> \<not> n_mu p'
      | Inr (Some INSOverrun, p', w') \<Rightarrow>
          n_capacity NewINSSafeProcessor
            < ins_write_position NewINSSafeProcessor (length ins_frame_a) + length ins_frame_a
        \<and> w' = [] \<and> n_latestTS p' = n_latestTS NewINSSafeProcessor \<and> length (ins_window p') < 32
        \<and> ins_inv p' \<and> \<not> n_mu p')"
  by (rule ins_Feed_refines_run [OF ins_inv_new ins_new_facts(1)])

lemma find_ins_none:
  assumes "\<forall>i k. i + 8 \<le> length s \<longrightarrow> \<not> valid_timestamp (now k) l (le_word (sub_slice i (i + 8) s))"
  shows "fst (find_ins now l k off s) = None"
  using assms
proof (induction now l k off s rule: find_ins.induct)
  case (1 now l k off s)
  then show ?case
    by (cases "off + 8 \<le> length s") (simp_all add: find_ins_end find_ins_skip)
qed

text \<open>While no eight bytes of the buffer are a plausible timestamp, as after the sender's
  clock jumped by more than a minute, every read is kept and nothing is handed on: the buffer
  only grows, until a read overruns it.\<close>

theorem ins_stalls_without_candidate:
  assumes "ins_inv p" and "\<not> n_mu p" and "data \<noteq> []"
    and "\<forall>i k. i + 8 \<le> length (ins_window p @ data) \<longrightarrow>
           \<not> valid_timestamp (now k) (n_latestTS p) (le_word (sub_slice i (i + 8) (ins_window p @ data)))"
    and "ins_write_position p (length data) + length data \<le> n_capacity p"
  shows "\<exists>p'. ins_Feed now (Some collect) data p acc = Some (Inr (None, p', acc))
           \<and> ins_window p' = ins_window p @ data \<and> n_latestTS p' = n_latestTS p"
proof -
  let ?s = "ins_window p @ data" and ?l = "n_latestTS p"
  obtain k' where run: "ins_feed_spec now (Some collect) p data acc = Inr (?l, k', ?s, acc)"
  proof (cases "length ?s < 32")
    case True
    then show ?thesis using that by (simp add: ins_feed_spec_def ins_run.simps)
  next
    case False
    then have bad: "\<not> valid_timestamp (now (n_ticks p)) ?l (le_word (take 8 ?s))"
      using assms(4) [rule_format, of 0 "n_ticks p"] by (simp add: sub_slice_def)
    obtain k' where "find_ins now ?l (tick (n_ticks p) (le_word (take 8 ?s))) 1 ?s = (None, k')"
      using find_ins_none [OF assms(4), of "tick (n_ticks p) (le_word (take 8 ?s))" 1]
      by (cases "find_ins now ?l (tick (n_ticks p) (le_word (take 8 ?s))) 1 ?s") auto
    with False bad show ?thesis
      using that [of k'] by (simp add: ins_feed_spec_def ins_run.simps [of now _ ?l _ ?s] Let_def del: append_assoc)
  qed
  obtain res where res: "ins_Feed now (Some collect) data p acc = Some res"
    "case res of
       Inl x \<Rightarrow> ins_feed_spec now (Some collect) p data acc = Inl x
     | Inr (None, p', w') \<Rightarrow>
         (data = [] \<and> p' = p \<and> w' = acc
            \<or> data \<noteq> [] \<and> ins_feed_spec now (Some collect) p data acc = Inr (n_latestTS p', n_ticks p', ins_window p', w'))
       \<and> ins_inv p' \<and> \<not> n_mu p'
     | Inr (Some INSOverrun, p', w') \<Rightarrow>
         n_capacity p < ins_write_position p (length data) + length data
       \<and> w' = acc \<and> n_latestTS p' = ?l \<and> length (ins_window p') < 32 \<and> ins_inv p' \<and> \<not> n_mu p'"
    using ins_Feed_refines [OF assms(1,2), of now "Some collect" data acc] by blast
  then obtain e p' w' where r: "res = Inr (e, p', w')"
    using run by (cases res) auto
  moreover have "e = None"
    using res(2) r assms(5) by (cases e) (auto split: ins_feed_error.splits)
  ultimately show ?thesis
    using res run assms(3) by auto
qed

lemma ins_stalls_without_candidate_witness:
  "\<exists>p'. ins_Feed (\<lambda>k. 9) (Some collect) (replicate 40 0) NewINSSafeProcessor [] = Some (Inr (None, p', []))
     \<and> ins_window p' = replicate 40 0 \<and> n_latestTS p' = 0"
proof -
  have "le_word (sub_slice i (i + 8) (replicate 40 0)) = (0 :: u64)" for i
    by (simp add: sub_slice_def)
  then show ?thesis
    using ins_stalls_without_candidate [of NewINSSafeProcessor "replicate 40 0" "\<lambda>k. 9" "[]"]
      ins_inv_new ins_new_facts
    by (simp add: valid_timestamp_def ins_write_position_def ins_available_def NewINSSafeProcessor_def Let_def
        INSMaxFrameSize_def)
qed

end
