(* ===== verification/INS_Reader.thy ===== *)
theory INS_Reader
  imports INS_Correct
begin

text \<open>
  \<open>INSReader\<close> of \<open>internal/ins/reader.go\<close>: the receive loop that feeds datagrams to the INS
  processor, the latest record and the handler of new ones. What the reads of the socket return
  until \<open>Stop\<close> closes it is a list of events; log output is left out.
\<close>

section \<open>State\<close>

text \<open>\<open>ir_hooked\<close>: the processor's data handler is the closure that \<open>SetDataHandler\<close> builds.\<close>

record 'w ins_reader =
  ir_running :: bool
  ir_latest :: "INSData option"
  ir_mu :: bool
  ir_onData :: "(INSData \<Rightarrow> 'w \<Rightarrow> 'w go) option"
  ir_hooked :: bool
  ir_processor :: ins_processor
  ir_debugLog :: bool
  ir_open :: bool

datatype udp_event = Datagram "byte list" | ReadFailed

text \<open>\<open>resolved\<close>: the address could be resolved.\<close>

definition NewINSReader :: "bool \<Rightarrow> 'w ins_reader option" where
  "NewINSReader resolved =
     (if \<not> resolved then None
      else Some \<lparr>ir_running = False, ir_latest = None, ir_mu = False, ir_onData = None, ir_hooked = False,
        ir_processor = NewINSSafeProcessor, ir_debugLog = False, ir_open = False\<rparr>)"

definition reader_handler :: "INSData \<Rightarrow> 'w ins_reader \<times> 'w \<Rightarrow> ('w ins_reader \<times> 'w) go" where
  "reader_handler ins = (\<lambda>(r, w).
     (if ir_mu r then Inl Deadlock
      else
        (let r1 = r\<lparr>ir_latest := Some ins\<rparr> in
         case ir_onData r1 of
           None \<Rightarrow> Inr (r1, w)
         | Some f \<Rightarrow> (case f ins w of Inl s \<Rightarrow> Inl s | Inr w1 \<Rightarrow> Inr (r1, w1)))))"

definition reader_SetDataHandler :: "(INSData \<Rightarrow> 'w \<Rightarrow> 'w go) \<Rightarrow> 'w ins_reader \<Rightarrow> 'w ins_reader go" where
  "reader_SetDataHandler handler r =
     (if ir_mu r then Inl Deadlock
      else
        (case SetDataHandler (reader_handler :: INSData \<Rightarrow> 'w ins_reader \<times> 'w \<Rightarrow> ('w ins_reader \<times> 'w) go)
                (ir_processor r) None of
           Inl s \<Rightarrow> Inl s
         | Inr _ \<Rightarrow> Inr (r\<lparr>ir_onData := Some handler, ir_hooked := True\<rparr>)))"

definition reader_SetDebug :: "bool \<Rightarrow> 'w ins_reader \<Rightarrow> 'w ins_reader" where
  "reader_SetDebug enabled r =
     r\<lparr>ir_debugLog := enabled, ir_processor := ins_SetDebug enabled (ir_processor r)\<rparr>"

text \<open>\<open>listening\<close>: the socket could be opened.\<close>

datatype reader_error = ReaderRunning | ReaderListenFailed

definition reader_Start :: "bool \<Rightarrow> 'w ins_reader \<Rightarrow> reader_error option \<times> 'w ins_reader" where
  "reader_Start listening r =
     (if ir_running r then (Some ReaderRunning, r)
      else if \<not> listening then (Some ReaderListenFailed, r\<lparr>ir_running := False\<rparr>)
      else (None, r\<lparr>ir_running := True, ir_open := True\<rparr>))"

definition reader_Stop :: "'w ins_reader \<Rightarrow> 'w ins_reader" where
  "reader_Stop r = (if \<not> ir_running r then r else r\<lparr>ir_running := False, ir_open := False\<rparr>)"

definition Latest :: "'w ins_reader \<Rightarrow> INSData option go" where
  "Latest r = (if ir_mu r then Inl Deadlock else Inr (ir_latest r))"

definition reader_Stats :: "'w ins_reader \<Rightarrow> INSStats go" where
  "reader_Stats r = ins_Stats (ir_processor r)"

section \<open>Receiving\<close>

text \<open>One round of \<open>receiveLoop\<close>; an error of \<open>Feed\<close> is only logged.\<close>

definition reader_round ::
    "(nat \<Rightarrow> u64) \<Rightarrow> udp_event \<Rightarrow> 'w ins_reader \<times> 'w \<Rightarrow> ('w ins_reader \<times> 'w) go option" where
  "reader_round now ev = (\<lambda>(r, w).
     (case ev of
        ReadFailed \<Rightarrow> Some (Inr (r, w))
      | Datagram d \<Rightarrow>
          (let data = take 4096 d in
           case ins_Feed now (if ir_hooked r then Some reader_handler else None) data (ir_processor r) (r, w) of
             None \<Rightarrow> None
           | Some (Inl s) \<Rightarrow> Some (Inl s)
           | Some (Inr (_, p, r1, w1)) \<Rightarrow> Some (Inr (r1\<lparr>ir_processor := p\<rparr>, w1)))))"

fun reader_receiveLoop ::
    "(nat \<Rightarrow> u64) \<Rightarrow> udp_event list \<Rightarrow> 'w ins_reader \<times> 'w \<Rightarrow> ('w ins_reader \<times> 'w) go option" where
  "reader_receiveLoop now [] rw = Some (Inr rw)"
| "reader_receiveLoop now (ev # evs) rw =
     (if \<not> ir_running (fst rw) then Some (Inr rw)
      else
        (case reader_round now ev rw of
           None \<Rightarrow> None
         | Some (Inl s) \<Rightarrow> Some (Inl s)
         | Some (Inr rw1) \<Rightarrow> reader_receiveLoop now evs rw1))"

section \<open>The latest record\<close>

text \<open>What the records change of a reader: the latest one, and what the handler works on.\<close>

lemma hand_reader:
  assumes "\<not> ir_mu r" and "ir_onData r = Some f" and "hand_records f ds w = Inr w'"
  shows "hand_records reader_handler ds (r, w) = Inr (if ds = [] then r else r\<lparr>ir_latest := Some (last ds)\<rparr>, w')"
  using assms
proof (induction ds arbitrary: r w)
  case (Cons d ds)
  then obtain w1 where w1: "f d w = Inr w1" "hand_records f ds w1 = Inr w'"
    by (auto split: sum.splits)
  from Cons.IH [of "r\<lparr>ir_latest := Some d\<rparr>" w1] Cons.prems(1,2) w1 show ?case
    by (simp add: reader_handler_def)
qed simp

lemma reader_loop_stream:
  assumes "ins_inv (ir_processor r)" and "\<not> n_mu (ir_processor r)" and "length (ins_window (ir_processor r)) < 32"
    and "\<forall>c \<in> set cs. length c \<le> 992" and "ins_stream now (n_latestTS (ir_processor r)) fs"
    and "ins_window (ir_processor r) @ concat cs = concat fs"
    and "\<not> ir_mu r" and "ir_hooked r" and "ir_running r" and "ir_onData r = Some f"
    and "hand_records f (map parse_ins_frame fs) w = Inr w'"
  shows "\<exists>r'. reader_receiveLoop now (map Datagram cs) (r, w) = Some (Inr (r', w'))
           \<and> ir_latest r' = (if fs = [] then ir_latest r else Some (parse_ins_frame (last fs)))
           \<and> \<not> ir_mu r' \<and> ins_window (ir_processor r') = []"
  using assms
proof (induction cs arbitrary: r w fs)
  case Nil
  then have "fs = []" by (cases fs) auto
  with Nil show ?case by simp
next
  case (Cons c cs)
  have short: "take 4096 c = c" using Cons.prems(4) by simp
  obtain p1 fs1 fs2 rw1 where step: "fs = fs1 @ fs2"
    "ins_Feed now (Some reader_handler) c (ir_processor r) (r, w) = Some (Inr (None, p1, rw1))"
    "ins_inv p1" "\<not> n_mu p1" "length (ins_window p1) < 32" "ins_stream now (n_latestTS p1) fs2"
    "ins_window p1 @ concat cs = concat fs2"
    "hand_records reader_handler (map parse_ins_frame fs1) (r, w) = Inr rw1"
    using ins_Feed_stream [OF Cons.prems(1-3) _ Cons.prems(5) _ hand_reader [OF Cons.prems(7,10,11)],
        of c "concat cs"] Cons.prems(4,6) by (simp del: hand_records.simps) blast
  obtain w1 where w1: "hand_records f (map parse_ins_frame fs1) w = Inr w1"
    "hand_records f (map parse_ins_frame fs2) w1 = Inr w'"
    using Cons.prems(11) by (auto simp: step(1) hand_records_append split: sum.splits)
  define r1 where "r1 = (if fs1 = [] then r else r\<lparr>ir_latest := Some (parse_ins_frame (last fs1))\<rparr>)\<lparr>ir_processor := p1\<rparr>"
  have rw1: "rw1 = (if fs1 = [] then r else r\<lparr>ir_latest := Some (parse_ins_frame (last fs1))\<rparr>, w1)"
    using step(8) hand_reader [OF Cons.prems(7,10) w1(1)] by (auto simp: last_map)
  have "reader_round now (Datagram c) (r, w) = Some (Inr (r1, w1))"
    using step(2) short Cons.prems(8) by (simp add: reader_round_def rw1 r1_def)
  moreover have "\<exists>r'. reader_receiveLoop now (map Datagram cs) (r1, w1) = Some (Inr (r', w'))
      \<and> ir_latest r' = (if fs2 = [] then ir_latest r1 else Some (parse_ins_frame (last fs2)))
      \<and> \<not> ir_mu r' \<and> ins_window (ir_processor r') = []"
    using step(3-7) Cons.prems(4,7-10) w1(2) by (intro Cons.IH) (simp_all add: r1_def)
  ultimately show ?case
    using Cons.prems(9) step(1) by (auto simp: r1_def)
qed

lemma hand_records_total: "hand_records (\<lambda>d w. Inr (g d w)) ds w = Inr (fold g ds w)"
  by (induction ds arbitrary: w) simp_all

text \<open>A reader with a handler that is started and receives a stream of valid frames in datagrams
  of at most 992 bytes hands every record to its handler, in order, and \<open>Latest\<close> returns the
  last one; before the first there is none.\<close>

theorem reader_keeps_latest:
  assumes "NewINSReader True = Some r0" and "reader_SetDataHandler (\<lambda>d w. Inr (g d w)) r0 = Inr r1"
    and "ins_stream now 0 fs" and "concat cs = concat fs" and "\<forall>c \<in> set cs. length c \<le> 992"
  shows "Latest r1 = Inr None
       \<and> (\<exists>r2. reader_receiveLoop now (map Datagram cs) (snd (reader_Start True r1), w)
                 = Some (Inr (r2, fold g (map parse_ins_frame fs) w))
           \<and> Latest r2 = Inr (if fs = [] then None else Some (parse_ins_frame (last fs))))"
proof -
  have r1: "r1 = \<lparr>ir_running = False, ir_latest = None, ir_mu = False, ir_onData = Some (\<lambda>d w. Inr (g d w)),
      ir_hooked = True, ir_processor = NewINSSafeProcessor, ir_debugLog = False, ir_open = False\<rparr>"
    using assms(1,2) by (auto simp: NewINSReader_def reader_SetDataHandler_def SetDataHandler_def ins_lock_def
        NewINSSafeProcessor_def Let_def)
  show ?thesis
    using reader_loop_stream [of "snd (reader_Start True r1)" cs now fs "\<lambda>d w. Inr (g d w)" w] assms(3-5)
      ins_inv_new ins_new_facts hand_records_total [of g "map parse_ins_frame fs" w]
    by (auto simp: r1 Latest_def reader_Start_def)
qed

lemma reader_keeps_latest_witness:
  "\<exists>r1 r2. reader_SetDataHandler (\<lambda>d n. Inr (Suc n)) (the (NewINSReader True)) = Inr r1
     \<and> reader_receiveLoop (\<lambda>k. 1700000000000000) (map Datagram [ins_frame_a @ take 7 ins_frame_b, drop 7 ins_frame_b])
          (snd (reader_Start True r1), 0) = Some (Inr (r2, 2))
     \<and> Latest r2 = Inr (Some (parse_ins_frame ins_frame_b))"
proof -
  obtain r1 :: "nat ins_reader" where "reader_SetDataHandler (\<lambda>d n. Inr (Suc n)) (the (NewINSReader True)) = Inr r1"
    by (simp add: NewINSReader_def reader_SetDataHandler_def SetDataHandler_def ins_lock_def
        NewINSSafeProcessor_def Let_def)
  then show ?thesis
    using reader_keeps_latest [of "the (NewINSReader True)" "\<lambda>d. Suc" r1 "\<lambda>k. 1700000000000000"
        "[ins_frame_a, ins_frame_b]" "[ins_frame_a @ take 7 ins_frame_b, drop 7 ins_frame_b]" 0] stream_ab parse_ab
    by (simp add: NewINSReader_def numeral_2_eq_2)
qed

end
