(* ===== verification/Sonar_Receiver.thy ===== *)
theory Sonar_Receiver
  imports Sonar_Pipeline INS_Reader
begin

text \<open>
  \<open>SonarReceiver\<close> of \<open>internal/multicast/receiver.go\<close>: the receive loop of the multicast socket,
  which feeds datagrams to the frame processor or, without the sliding window, decodes each one
  by itself. The interface, the group address and what the reads of the socket return are
  supplied by the network; log output is left out.
\<close>

section \<open>State\<close>

record ReceiverStats =
  rs_PacketsReceived :: u64
  rs_PacketsDropped :: u64
  rs_DecodeErrors :: u64
  rs_BytesReceived :: u64
  rs_AssemblerStats :: AssemblerStats

text \<open>\<open>sr_stuck\<close>: the goroutine of \<open>receiveLoop\<close> is blocked for ever.\<close>

record 'w sonar_receiver =
  sr_onPing :: "(SonarPing \<Rightarrow> 'w \<Rightarrow> 'w go) option"
  sr_running :: bool
  sr_open :: bool
  sr_bufferSize :: int
  sr_stats :: ReceiverStats
  sr_asm :: assembler
  sr_sp :: safe_processor
  sr_useSlidingWindow :: bool
  sr_debugLog :: bool
  sr_stuck :: bool

definition receiver_hooks :: "'w sonar_receiver \<Rightarrow> ('w, decode_error) processor_hooks" where
  "receiver_hooks r = \<lparr>decoder = DecodeRawPacket, onPing = sr_onPing r\<rparr>"

datatype receiver_error = NoInterface | NoGroupAddress

text \<open>\<open>found\<close> and \<open>resolved\<close>: whether the interface exists and the group address is one.\<close>

definition NewSonarReceiver :: "bool \<Rightarrow> bool \<Rightarrow> int \<Rightarrow> receiver_error + 'w sonar_receiver" where
  "NewSonarReceiver found resolved bufferSize =
     (if \<not> found then Inl NoInterface
      else if \<not> resolved then Inl NoGroupAddress
      else
        (case NewSafeSonarProcessor (\<lparr>decoder = DecodeRawPacket, onPing = None\<rparr> :: ('w, decode_error) processor_hooks)
                (int MaxFrameSize) of
           Inr (a, sp, _) \<Rightarrow>
             Inr \<lparr>sr_onPing = None, sr_running = False, sr_open = False, sr_bufferSize = bufferSize,
               sr_stats = \<lparr>rs_PacketsReceived = 0, rs_PacketsDropped = 0, rs_DecodeErrors = 0, rs_BytesReceived = 0,
                 rs_AssemblerStats = zero_stats\<rparr>,
               sr_asm = a, sr_sp = sp, sr_useSlidingWindow = True, sr_debugLog = False, sr_stuck = False\<rparr>))"

definition receiver_SetPingHandler :: "(SonarPing \<Rightarrow> 'w \<Rightarrow> 'w go) \<Rightarrow> 'w sonar_receiver \<Rightarrow> 'w sonar_receiver go" where
  "receiver_SetPingHandler handler r =
     (case SetPingHandler handler (sr_sp r) (receiver_hooks r) of
        Inl s \<Rightarrow> Inl s
      | Inr hooks \<Rightarrow> Inr (r\<lparr>sr_onPing := onPing hooks\<rparr>))"

definition SetSlidingWindow :: "bool \<Rightarrow> 'w sonar_receiver \<Rightarrow> 'w sonar_receiver" where
  "SetSlidingWindow enabled r = r\<lparr>sr_useSlidingWindow := enabled\<rparr>"

definition receiver_SetDebug :: "bool \<Rightarrow> 'w sonar_receiver \<Rightarrow> 'w sonar_receiver" where
  "receiver_SetDebug enabled r = r\<lparr>sr_debugLog := enabled, sr_asm := safe_SetDebug enabled (sr_asm r)\<rparr>"

datatype receiver_start_error = ReceiverRunning | ReceiverListenFailed

definition receiver_Start :: "bool \<Rightarrow> 'w sonar_receiver \<Rightarrow> receiver_start_error option \<times> 'w sonar_receiver" where
  "receiver_Start listening r =
     (if sr_running r then (Some ReceiverRunning, r)
      else if \<not> listening then (Some ReceiverListenFailed, r\<lparr>sr_running := False\<rparr>)
      else (None, r\<lparr>sr_running := True, sr_open := True\<rparr>))"

text \<open>\<open>wg.Wait\<close> at the end waits for the goroutine.\<close>

definition receiver_Stop :: "'w sonar_receiver \<Rightarrow> 'w sonar_receiver go" where
  "receiver_Stop r =
     (if \<not> sr_running r then Inr r
      else if sr_stuck r then Inl Deadlock
      else Inr (r\<lparr>sr_running := False, sr_open := False\<rparr>))"

definition receiver_GetStats :: "'w sonar_receiver \<Rightarrow> ReceiverStats go" where
  "receiver_GetStats r =
     (case safe_Stats (sr_asm r) of
        Inl s \<Rightarrow> Inl s
      | Inr st \<Rightarrow> Inr ((sr_stats r)\<lparr>rs_AssemblerStats := st\<rparr>))"

section \<open>Receiving\<close>

definition count_datagram :: "byte list \<Rightarrow> ReceiverStats \<Rightarrow> ReceiverStats" where
  "count_datagram data st =
     st\<lparr>rs_PacketsReceived := rs_PacketsReceived st + 1,
        rs_BytesReceived := rs_BytesReceived st + of_nat (length data)\<rparr>"

definition count_decode_error :: "'w sonar_receiver \<Rightarrow> 'w sonar_receiver" where
  "count_decode_error r = r\<lparr>sr_stats := (sr_stats r)\<lparr>rs_DecodeErrors := rs_DecodeErrors (sr_stats r) + 1\<rparr>\<rparr>"

text \<open>One round of \<open>receiveLoop\<close>; the mutex of the counters is free between its critical sections.\<close>

definition receiver_round :: "udp_event \<Rightarrow> 'w sonar_receiver \<times> 'w \<Rightarrow> ('w sonar_receiver \<times> 'w) go option" where
  "receiver_round ev = (\<lambda>(r, w).
     (case ev of
        ReadFailed \<Rightarrow> Some (Inr (r, w))
      | Datagram d \<Rightarrow>
          (let data = take 65535 d; r1 = r\<lparr>sr_stats := count_datagram data (sr_stats r)\<rparr> in
           if sr_useSlidingWindow r1 then
             (case safe_Feed (receiver_hooks r1) data (sr_asm r1) (sr_sp r1, w) of
                None \<Rightarrow> None
              | Some (Inl s) \<Rightarrow> Some (Inl s)
              | Some (Inr (err, a, sp, w1)) \<Rightarrow>
                  (let r2 = r1\<lparr>sr_asm := a, sr_sp := sp\<rparr>
                   in Some (Inr (if err = None then r2 else count_decode_error r2, w1))))
           else
             (case DecodeRawPacket data of
                Inl s \<Rightarrow> Some (Inl s)
              | Inr (Inl err) \<Rightarrow> Some (Inr (count_decode_error r1, w))
              | Inr (Inr ping) \<Rightarrow>
                  (case sr_onPing r1 of
                     None \<Rightarrow> Some (Inr (r1, w))
                   | Some h \<Rightarrow> (case h ping w of Inl s \<Rightarrow> Some (Inl s) | Inr w1 \<Rightarrow> Some (Inr (r1, w1))))))))"

fun receiver_receiveLoop :: "udp_event list \<Rightarrow> 'w sonar_receiver \<times> 'w \<Rightarrow> ('w sonar_receiver \<times> 'w) go option" where
  "receiver_receiveLoop [] rw = Some (Inr rw)"
| "receiver_receiveLoop (ev # evs) rw =
     (if \<not> sr_running (fst rw) then Some (Inr rw)
      else
        (case receiver_round ev rw of
           None \<Rightarrow> None
         | Some (Inl s) \<Rightarrow> Some (Inl s)
         | Some (Inr rw1) \<Rightarrow> receiver_receiveLoop evs rw1))"

lemma receiver_round_stuck:
  assumes "receiver_round ev (r, w) = Some (Inr (r', w'))"
  shows "sr_stuck r' = sr_stuck r"
  using assms
  by (auto simp: receiver_round_def count_decode_error_def Let_def split: udp_event.splits option.splits sum.splits if_splits)

lemma receiver_loop_stuck:
  "receiver_receiveLoop evs (r, w) = Some (Inr (r', w')) \<Longrightarrow> sr_stuck r' = sr_stuck r"
proof (induction evs arbitrary: r w)
  case (Cons ev evs)
  then show ?case
    by (auto dest: receiver_round_stuck split: option.splits sum.splits if_splits)
qed simp

section \<open>With the sliding window\<close>

lemma receiver_feeds:
  assumes "safe_feed_all (receiver_hooks r) cs (sr_asm r) (sr_sp r, w) = Some (Inr (replicate (length cs) None, a', sp', w'))"
    and "\<forall>c \<in> set cs. length c \<le> 65535" and "sr_running r" and "sr_useSlidingWindow r"
  shows "\<exists>r'. receiver_receiveLoop (map Datagram cs) (r, w) = Some (Inr (r', w')) \<and> sr_onPing r' = sr_onPing r
           \<and> rs_DecodeErrors (sr_stats r') = rs_DecodeErrors (sr_stats r)
           \<and> rs_PacketsReceived (sr_stats r') = rs_PacketsReceived (sr_stats r) + of_nat (length cs)
           \<and> rs_BytesReceived (sr_stats r') = rs_BytesReceived (sr_stats r) + of_nat (length (concat cs))"
  using assms
proof (induction cs arbitrary: r w)
  case Nil
  then show ?case by (simp add: safe_feed_all_def)
next
  case (Cons c cs)
  obtain a1 sp1 w1 where feed: "safe_Feed (receiver_hooks r) c (sr_asm r) (sr_sp r, w) = Some (Inr (None, a1, sp1, w1))"
    and rest: "safe_feed_all (receiver_hooks r) cs a1 (sp1, w1) = Some (Inr (replicate (length cs) None, a', sp', w'))"
    using Cons.prems(1)
    by (auto simp: safe_feed_all_def safe_Feed_def split: option.splits sum.splits)
  let ?r1 = "r\<lparr>sr_stats := count_datagram c (sr_stats r), sr_asm := a1, sr_sp := sp1\<rparr>"
  have "receiver_hooks (r\<lparr>sr_stats := count_datagram c (sr_stats r)\<rparr>) = receiver_hooks r"
    by (simp add: receiver_hooks_def)
  then have round: "receiver_round (Datagram c) (r, w) = Some (Inr (?r1, w1))"
    using feed Cons.prems(2,4) by (simp add: receiver_round_def Let_def)
  have "receiver_hooks ?r1 = receiver_hooks r"
    by (simp add: receiver_hooks_def)
  with Cons.IH [of ?r1 w1] rest Cons.prems(2-4) round show ?case
    by (auto simp: count_datagram_def)
qed

text \<open>A running receiver on a new assembler: its handler gets the pings, in order.\<close>

lemma receiver_stream:
  assumes "sr_asm r = safe_SetDebug d (NewSlidingWindowAssembler (int MaxFrameSize))" and "sr_sp r = new_processor"
    and "sr_onPing r = Some h" and "sr_running r" and "sr_useSlidingWindow r"
    and "list_all (framed_ping MaxFrameSize) pps" and "concat cs = concat (map ping_frame pps)"
    and "\<forall>c \<in> set cs. length c \<le> 65535" and "run_pings h (map fst pps) w = Inr w'"
  shows "\<exists>r'. receiver_receiveLoop (map Datagram cs) (r, w) = Some (Inr (r', w')) \<and> sr_onPing r' = sr_onPing r
           \<and> rs_DecodeErrors (sr_stats r') = rs_DecodeErrors (sr_stats r)
           \<and> rs_PacketsReceived (sr_stats r') = rs_PacketsReceived (sr_stats r) + of_nat (length cs)
           \<and> rs_BytesReceived (sr_stats r') = rs_BytesReceived (sr_stats r) + of_nat (length (concat cs))"
proof -
  have "list_all (wf_frame MaxFrameSize) (map ping_frame pps)"
    using assms(6) framed_ping_wf by (auto simp: list_all_iff)
  moreover have "deliver (frame_effect (sonar_hooks h)) (map ping_frame pps) (new_processor, w) = Some (new_processor, w')"
    using deliver_pings [OF assms(6,9)] by (simp add: new_processor_def)
  moreover have "\<forall>c \<in> set cs. length c \<le> 3 * MaxFrameSize"
    using assms(8) by (force simp: MaxFrameSize_def)
  ultimately obtain a' where "safe_feed_all (sonar_hooks h) cs (sr_asm r) (new_processor, w)
      = Some (Inr (replicate (length cs) None, a', new_processor, w'))"
    using safe.feed_all_frames [of "sr_asm r" MaxFrameSize "map ping_frame pps" cs "sonar_hooks h"
        "(new_processor, w)" "(new_processor, w')"] assms(7)
    by (auto simp: safe_feed_all_def assms(1) new_assembler_facts settled_Nil MaxFrameSize_def)
  moreover have "receiver_hooks r = sonar_hooks h"
    by (simp add: receiver_hooks_def sonar_hooks_def assms(3))
  ultimately show ?thesis
    using receiver_feeds [of r cs w a' new_processor w'] assms(2,4,5,8) by simp
qed

text \<open>What the constructor and the ping handler leave in a receiver.\<close>

lemma new_receiver_facts:
  assumes "NewSonarReceiver found resolved n = Inr r0" and "receiver_SetPingHandler h (receiver_SetDebug d r0) = Inr r1"
  shows "sr_asm r1 = safe_SetDebug d (NewSlidingWindowAssembler (int MaxFrameSize))" and "sr_sp r1 = new_processor"
    and "sr_onPing r1 = Some h" and "\<not> sr_running r1" and "sr_useSlidingWindow r1" and "\<not> sr_stuck r1"
  using assms by (auto simp: NewSonarReceiver_def NewSafeSonarProcessor_eq receiver_SetPingHandler_def
      SetPingHandler_def receiver_hooks_def receiver_SetDebug_def sp_lock_def new_processor_def split: if_splits)

text \<open>A running receiver whose datagrams carry framed pings, cut anywhere and not aligned to the
  frames, hands exactly these pings to its handler, in order, and counts every datagram and
  byte and no decode error.\<close>

theorem receiver_delivers_pings:
  assumes "NewSonarReceiver True True n = Inr r0" and "receiver_SetPingHandler h (receiver_SetDebug d r0) = Inr r1"
    and "list_all (framed_ping MaxFrameSize) pps" and "concat cs = concat (map ping_frame pps)"
    and "\<forall>c \<in> set cs. length c \<le> 65535" and "run_pings h (map fst pps) w = Inr w'"
  shows "\<exists>r2. receiver_receiveLoop (map Datagram cs) (snd (receiver_Start True r1), w) = Some (Inr (r2, w'))
           \<and> rs_DecodeErrors (sr_stats r2) = 0 \<and> rs_PacketsReceived (sr_stats r2) = of_nat (length cs)
           \<and> rs_BytesReceived (sr_stats r2) = of_nat (length (concat cs))"
proof -
  note new = new_receiver_facts [OF assms(1,2)]
  have "sr_stats r1 = \<lparr>rs_PacketsReceived = 0, rs_PacketsDropped = 0, rs_DecodeErrors = 0, rs_BytesReceived = 0,
      rs_AssemblerStats = zero_stats\<rparr>"
    using assms(1,2) by (auto simp: NewSonarReceiver_def NewSafeSonarProcessor_eq receiver_SetPingHandler_def
        SetPingHandler_def receiver_hooks_def receiver_SetDebug_def sp_lock_def new_processor_def)
  with receiver_stream [of "snd (receiver_Start True r1)" d h pps cs w w'] new assms(3-6) show ?thesis
    by (simp add: receiver_Start_def) blast
qed

lemma receiver_delivers_pings_witness:
  "\<exists>r1 r2. receiver_SetPingHandler (\<lambda>p ps. Inr (ps @ [p])) (receiver_SetDebug False (projr (NewSonarReceiver True True 1024))) = Inr r1
     \<and> receiver_receiveLoop [Datagram (take 9 (ping_frame (sample_ping, replicate 8 0))),
          Datagram (drop 9 (ping_frame (sample_ping, replicate 8 0)))] (snd (receiver_Start True r1), [])
        = Some (Inr (r2, [sample_ping]))
     \<and> rs_PacketsReceived (sr_stats r2) = 2"
proof -
  obtain r1 :: "SonarPing list sonar_receiver" where r1:
    "receiver_SetPingHandler (\<lambda>p ps. Inr (ps @ [p])) (receiver_SetDebug False (projr (NewSonarReceiver True True 1024))) = Inr r1"
    by (simp add: NewSonarReceiver_def NewSafeSonarProcessor_eq receiver_SetPingHandler_def SetPingHandler_def
        receiver_SetDebug_def sp_lock_def new_processor_def)
  have "list_all (framed_ping MaxFrameSize) [(sample_ping, replicate 8 0)]"
    using framed_sample by (auto simp: framed_ping_def Let_def MaxFrameSize_def valid_length_def sample_ping_def)
  moreover have "NewSonarReceiver True True 1024 = Inr (projr (NewSonarReceiver True True 1024) :: SonarPing list sonar_receiver)"
    by (simp add: NewSonarReceiver_def NewSafeSonarProcessor_eq)
  moreover have "length (ping_frame (sample_ping, replicate 8 0)) = 40"
    by (simp add: ping_frame_def length_encode_ping sample_ping_def)
  ultimately show ?thesis
    using receiver_delivers_pings [OF _ r1, of 1024 "[(sample_ping, replicate 8 0)]"
        "[take 9 (ping_frame (sample_ping, replicate 8 0)), drop 9 (ping_frame (sample_ping, replicate 8 0))]"
        "[]" "[sample_ping]"] r1
    by (simp del: receiver_receiveLoop.simps) blast
qed

section \<open>Without the sliding window\<close>

text \<open>The pings of the datagrams that decode, and how many do not.\<close>

definition datagram_pings :: "byte list list \<Rightarrow> SonarPing list" where
  "datagram_pings cs = map wire_ping (filter wire_ok cs)"

text \<open>Without the sliding window every datagram is a packet of its own: the handler gets, in
  order, the pings of exactly those datagrams that are well-formed packets, and the others are
  counted as decode errors; the loop never stops on either.\<close>

theorem datagram_mode_decodes_each:
  assumes "\<forall>c \<in> set cs. length c \<le> 65535" and "sr_running r" and "\<not> sr_useSlidingWindow r"
    and "sr_onPing r = Some h" and "run_pings h (datagram_pings cs) w = Inr w'"
  shows "\<exists>r'. receiver_receiveLoop (map Datagram cs) (r, w) = Some (Inr (r', w'))
           \<and> rs_DecodeErrors (sr_stats r') = rs_DecodeErrors (sr_stats r) + of_nat (length (filter (\<lambda>c. \<not> wire_ok c) cs))
           \<and> rs_PacketsReceived (sr_stats r') = rs_PacketsReceived (sr_stats r) + of_nat (length cs)"
  using assms
proof (induction cs arbitrary: r w)
  case Nil
  then show ?case by (simp add: datagram_pings_def)
next
  case (Cons c cs)
  let ?r1 = "r\<lparr>sr_stats := count_datagram c (sr_stats r)\<rparr>"
  show ?case
  proof (cases "wire_ok c")
    case True
    then obtain w1 where w1: "h (wire_ping c) w = Inr w1" "run_pings h (datagram_pings cs) w1 = Inr w'"
      using Cons.prems(5) by (auto simp: datagram_pings_def split: sum.splits)
    then have "receiver_round (Datagram c) (r, w) = Some (Inr (?r1, w1))"
      using True Cons.prems(1,3,4) by (simp add: receiver_round_def Let_def DecodeRawPacket_ok)
    with Cons.IH [of ?r1 w1] Cons.prems(1-4) w1(2) True show ?thesis
      by (auto simp: count_datagram_def)
  next
    case False
    then obtain err where "DecodeRawPacket c = Inr (Inl err)"
      using DecodeRawPacket_error by blast
    then have "receiver_round (Datagram c) (r, w) = Some (Inr (count_decode_error ?r1, w))"
      using Cons.prems(1,3) by (simp add: receiver_round_def Let_def)
    with Cons.IH [of "count_decode_error ?r1" w] Cons.prems False show ?thesis
      by (auto simp: count_datagram_def count_decode_error_def datagram_pings_def)
  qed
qed

lemma datagram_mode_decodes_each_witness:
  "\<exists>r'. receiver_receiveLoop (map Datagram [encode_ping two_beams, [1, 2]])
       (\<lparr>sr_onPing = Some (\<lambda>p ps. Inr (ps @ [p])), sr_running = True, sr_open = True, sr_bufferSize = 0,
         sr_stats = \<lparr>rs_PacketsReceived = 0, rs_PacketsDropped = 0, rs_DecodeErrors = 0, rs_BytesReceived = 0,
           rs_AssemblerStats = zero_stats\<rparr>, sr_asm = NewSlidingWindowAssembler 64, sr_sp = new_processor,
         sr_useSlidingWindow = False, sr_debugLog = False, sr_stuck = False\<rparr>, []) = Some (Inr (r', [two_beams]))
     \<and> rs_DecodeErrors (sr_stats r') = 1"
proof -
  have ok: "wire_ok (encode_ping two_beams)" "wire_ping (encode_ping two_beams) = two_beams"
    using wire_ok_encode [OF valid_two_beams, of "[]"] wire_ping_encode [OF valid_two_beams, of "[]"] by simp_all
  have bad: "\<not> wire_ok [1, 2]"
    by (simp add: wire_ok_def)
  have "length (encode_ping two_beams) \<le> 65535"
    by (simp add: length_encode_ping two_beams_def)
  with ok bad show ?thesis
    using datagram_mode_decodes_each [of "[encode_ping two_beams, [1, 2]]"
        "\<lparr>sr_onPing = Some (\<lambda>p ps. Inr (ps @ [p])), sr_running = True, sr_open = True, sr_bufferSize = 0,
         sr_stats = \<lparr>rs_PacketsReceived = 0, rs_PacketsDropped = 0, rs_DecodeErrors = 0, rs_BytesReceived = 0,
           rs_AssemblerStats = zero_stats\<rparr>, sr_asm = NewSlidingWindowAssembler 64, sr_sp = new_processor,
         sr_useSlidingWindow = False, sr_debugLog = False, sr_stuck = False\<rparr>" "\<lambda>p ps. Inr (ps @ [p])" "[]" "[two_beams]"]
    by (simp add: datagram_pings_def) blast
qed

end
