(* ===== verification/Ray_Tracer.thy ===== *)
theory Ray_Tracer
  imports Sonar_Model
begin

text \<open>
  \<open>RayTracer\<close> of \<open>internal/ssp/raytrace.go\<close>: the path of an acoustic ray through the layers of a
  sound-speed profile. A nil profile is \<open>None\<close>; \<open>totalTime\<close>, which the loop adds up and nobody
  reads, is left out. Values are exact reals: a division by a speed of zero and the root of a
  negative number, which are infinite or NaN in Go, are excluded where a theorem speaks of them.
\<close>

record RayTraceResult =
  rr_SlantRange :: real
  rr_HorizontalOffset :: real
  rr_DepthOffset :: real
  rr_TravelTime :: real

record RayTracer =
  rt_profile :: "SoundSpeedProfile option"
  rt_maxIter :: int
  rt_tol :: real

definition NewRayTracer :: "SoundSpeedProfile option \<Rightarrow> RayTracer" where
  "NewRayTracer profile = \<lparr>rt_profile = profile, rt_maxIter = 50, rt_tol = 1 / 10 ^ 6\<rparr>"

definition rt_UpdateProfile :: "SoundSpeedProfile option \<Rightarrow> RayTracer \<Rightarrow> RayTracer" where
  "rt_UpdateProfile profile rt = rt\<lparr>rt_profile := profile\<rparr>"

text \<open>The straight ray of a given slant range.\<close>

definition straight_ray :: "real \<Rightarrow> real \<Rightarrow> real \<Rightarrow> RayTraceResult" where
  "straight_ray slant beamAngleRad travelTimeSec =
     \<lparr>rr_SlantRange = slant, rr_HorizontalOffset = slant * sin beamAngleRad,
      rr_DepthOffset = slant * cos beamAngleRad, rr_TravelTime = travelTimeSec\<rparr>"

text \<open>
  The loop over the layers with the ray parameter \<open>p\<close>: horizontal and vertical way so far. The
  speeds of the profile are taken to be positive: then the sines are not negative, so the roots
  are those of positive numbers and no layer's time divides by zero.
\<close>

fun trace_layers :: "real \<Rightarrow> SSPEntry list \<Rightarrow> real \<Rightarrow> real \<Rightarrow> real \<Rightarrow> real \<times> real" where
  "trace_layers p (e1 # e2 # es) remainingTime totalHoriz totalDepth =
     (if \<not> remainingTime > 1 / 10 ^ 12 then (totalHoriz, totalDepth)
      else
        (let c1 = s_SoundSpeedMs e1; c2 = s_SoundSpeedMs e2; layerDepth = s_DepthM e2 - s_DepthM e1;
             sinTheta1 = p * c1; sinTheta2 = p * c2
         in if sinTheta1 \<ge> 1 \<or> sinTheta2 \<ge> 1 then (totalHoriz, totalDepth)
            else
              (let cosTheta1 = sqrt (1 - sinTheta1 * sinTheta1); cosTheta2 = sqrt (1 - sinTheta2 * sinTheta2);
                   avgCosTheta = (cosTheta1 + cosTheta2) / 2;
                   layerTime = layerDepth / (c1 * avgCosTheta)
               in if layerTime > remainingTime then
                    (let fraction = remainingTime / layerTime; actualDepth = layerDepth * fraction in
                     (totalHoriz + actualDepth * tan (arcsin sinTheta1), totalDepth + actualDepth))
                  else
                    trace_layers p (e2 # es) (remainingTime - layerTime)
                      (totalHoriz + layerDepth * tan (arcsin sinTheta1)) (totalDepth + layerDepth))))"
| "trace_layers p es remainingTime totalHoriz totalDepth = (totalHoriz, totalDepth)"

definition traceLayered :: "SoundSpeedProfile \<Rightarrow> real \<Rightarrow> real \<Rightarrow> RayTraceResult" where
  "traceLayered profile beamAngleRad travelTimeSec =
     (let entries = s_Entries profile in
      if length entries < 2 then straight_ray (MeanSpeed profile * travelTimeSec) beamAngleRad travelTimeSec
      else
        (let theta = (if beamAngleRad < 0 then - beamAngleRad else beamAngleRad);
             c0 = s_SoundSpeedMs (hd entries); sinTheta0 = sin theta; p = sinTheta0 / c0;
             (totalHoriz, totalDepth) = trace_layers p entries travelTimeSec 0 0
         in \<lparr>rr_SlantRange = sqrt (totalHoriz * totalHoriz + totalDepth * totalDepth),
             rr_HorizontalOffset = totalHoriz, rr_DepthOffset = totalDepth, rr_TravelTime = travelTimeSec\<rparr>))"

definition Trace :: "RayTracer \<Rightarrow> real \<Rightarrow> real \<Rightarrow> RayTraceResult" where
  "Trace rt beamAngleRad travelTimeSec =
     (case rt_profile rt of
        None \<Rightarrow> straight_ray (1500 * travelTimeSec) beamAngleRad travelTimeSec
      | Some profile \<Rightarrow>
          if s_Entries profile = [] then straight_ray (1500 * travelTimeSec) beamAngleRad travelTimeSec
          else traceLayered profile beamAngleRad travelTimeSec)"

text \<open>\<open>math.Atan2(y, x)\<close> is the argument of the complex number \<open>x + iy\<close>, and 0 at the origin.\<close>

definition EquivalentBeamAngle :: "real \<Rightarrow> real \<Rightarrow> real" where
  "EquivalentBeamAngle slantRange beamAngleRad =
     (let cosA = cos beamAngleRad in
      if \<bar>cosA\<bar> < 1 / 10 ^ 12 then pi / 2
      else Arg (Complex (slantRange * cos beamAngleRad) (slantRange * sin beamAngleRad)))"

section \<open>Every result is a right triangle\<close>

lemma straight_slant:
  "slant * slant = slant * sin t * (slant * sin t) + slant * cos t * (slant * cos (t :: real))"
proof -
  have "slant * sin t * (slant * sin t) + slant * cos t * (slant * cos t)
      = slant * slant * (cos t * cos t + sin t * sin t)" by algebra
  then show ?thesis by simp
qed

lemma straight_ray_triangle:
  "rr_SlantRange (straight_ray s a t) * rr_SlantRange (straight_ray s a t)
     = rr_HorizontalOffset (straight_ray s a t) * rr_HorizontalOffset (straight_ray s a t)
     + rr_DepthOffset (straight_ray s a t) * rr_DepthOffset (straight_ray s a t)"
  using straight_slant [of s a] by (simp add: straight_ray_def)

lemma Trace_triangle:
  "rr_SlantRange (Trace rt a t) * rr_SlantRange (Trace rt a t)
     = rr_HorizontalOffset (Trace rt a t) * rr_HorizontalOffset (Trace rt a t)
     + rr_DepthOffset (Trace rt a t) * rr_DepthOffset (Trace rt a t)"
  by (auto simp: Trace_def traceLayered_def straight_ray_triangle Let_def split: option.splits prod.splits)

section \<open>A uniform profile\<close>

text \<open>The same speed at all depths, entries in order of depth.\<close>

definition uniform_profile :: "real \<Rightarrow> SSPEntry list \<Rightarrow> bool" where
  "uniform_profile c es \<longleftrightarrow> (\<forall>e \<in> set es. s_SoundSpeedMs e = c) \<and> sorted (map s_DepthM es)"

lemma trace_layers_uniform:
  assumes "uniform_profile c es" and "es \<noteq> []" and "0 < c" and "0 \<le> theta" and "theta < pi / 2"
    and "p * c = sin theta" and "0 \<le> rem" and "rem * (c * cos theta) \<le> s_DepthM (last es) - s_DepthM (hd es)"
    and "trace_layers p es rem h d = (h', d')"
  shows "h' = h + (d' - d) * tan theta \<and> d + (rem - 1 / 10 ^ 12) * (c * cos theta) \<le> d' \<and> d' \<le> d + rem * (c * cos theta)"
  using assms(1,2,7-9)
proof (induction es arbitrary: rem h d rule: induct_list012)
  case 1
  then show ?case by simp
next
  case (2 e)
  have k: "0 < c * cos theta"
    using assms(3-5) by (simp add: cos_gt_zero_pi)
  moreover have "rem * (c * cos theta) \<le> 0" using 2 by simp
  ultimately have "rem = 0"
    using 2(3) mult_pos_pos [of rem "c * cos theta"] by linarith
  with 2 k show ?case by simp
next
  case (3 e1 e2 es)
  have sin: "sin theta < 1" "- 1 \<le> sin theta"
    using assms(4,5) sin_monotone_2pi [of theta "pi / 2"] by simp_all
  have cos: "0 < cos theta" using assms(4,5) by (simp add: cos_gt_zero_pi)
  then have k: "0 < c * cos theta" using assms(3) by simp
  have speed: "s_SoundSpeedMs e1 = c" "s_SoundSpeedMs e2 = c" and up: "s_DepthM e1 \<le> s_DepthM e2"
    using 3(3) by (auto simp: uniform_profile_def)
  have root: "sqrt (1 - sin theta * sin theta) = cos theta"
  proof (rule real_sqrt_unique)
    have "cos theta * cos theta + sin theta * sin theta = 1" by (rule sin_cos_squared_add3)
    then show "(cos theta)\<^sup>2 = 1 - sin theta * sin theta" unfolding power2_eq_square by linarith
  qed (use cos in simp)
  have angle: "tan (arcsin (sin theta)) = tan theta"
    using assms(4,5) by (simp add: arcsin_sin)
  define k where "k = c * cos theta"
  let ?L = "s_DepthM e2 - s_DepthM e1"
  have kpos: "0 < k" and avg: "c * ((cos theta + cos theta) / 2) = k"
    using k by (simp_all add: k_def)
  note step = 3(7) [unfolded trace_layers.simps Let_def speed assms(6) root angle avg]
  show ?case
    unfolding k_def [symmetric]
  proof (cases "rem > 1 / 10 ^ 12")
    case False
    with step have "h' = h" "d' = d" by auto
    moreover have "(rem - 1 / 10 ^ 12) * k \<le> 0"
      using False kpos by (intro mult_nonpos_nonneg) auto
    ultimately show "h' = h + (d' - d) * tan theta \<and> d + (rem - 1 / 10 ^ 12) * k \<le> d' \<and> d' \<le> d + rem * k"
      using 3(5) kpos by simp
  next
    case rem: True
    show "h' = h + (d' - d) * tan theta \<and> d + (rem - 1 / 10 ^ 12) * k \<le> d' \<and> d' \<le> d + rem * k"
    proof (cases "?L / k > rem")
      case True
      then have "?L * (rem / (?L / k)) = rem * k"
        using rem kpos by (cases "?L = 0") (simp_all add: field_simps)
      with step rem True sin have "h' = h + rem * k * tan theta" "d' = d + rem * k" by auto
      then show ?thesis using kpos by (simp add: left_diff_distrib)
    next
      case False
      with step rem sin have next_layer:
        "trace_layers p (e2 # es) (rem - ?L / k) (h + ?L * tan theta) (d + ?L) = (h', d')" by auto
      have "?L / k * k = ?L"
        using kpos by (intro nonzero_eq_divide_eq [THEN iffD1, OF _ refl]) simp
      then have "(rem - ?L / k) * k = rem * k - ?L" "(rem - ?L / k - 1 / 10 ^ 12) * k = (rem - 1 / 10 ^ 12) * k - ?L"
        by (simp_all only: left_diff_distrib)
      moreover have "uniform_profile c (e2 # es)"
        using 3(3) by (simp add: uniform_profile_def)
      ultimately show ?thesis
        using 3(2) [OF _ _ _ _ next_layer, folded k_def] 3(6) [folded k_def] False by (simp add: algebra_simps)
    qed
  qed
qed

text \<open>C29. In water of one positive speed with a profile as deep as the ray gets, and for a beam less
  than 90 degrees off the vertical, the layered trace is a straight ray: it goes down at the
  beam's angle, always to the positive side (the absolute value of the angle is taken, so port
  and starboard are not told apart), and its slant range is the speed times the travel time,
  short of it by at most the way of the picosecond the loop leaves over.\<close>

theorem uniform_water_rays_are_straight:
  assumes "rt_profile rt = Some prof" and "uniform_profile c (s_Entries prof)" and "2 \<le> length (s_Entries prof)"
    and "0 < c" and "\<bar>a\<bar> < pi / 2" and "1 / 10 ^ 12 \<le> t"
    and "c * t * cos a \<le> s_DepthM (last (s_Entries prof)) - s_DepthM (hd (s_Entries prof))"
  shows "let r = Trace rt a t in
         rr_HorizontalOffset r = rr_SlantRange r * sin \<bar>a\<bar> \<and> rr_DepthOffset r = rr_SlantRange r * cos a
       \<and> c * (t - 1 / 10 ^ 12) \<le> rr_SlantRange r \<and> rr_SlantRange r \<le> c * t"
proof -
  let ?es = "s_Entries prof" let ?p = "sin \<bar>a\<bar> / s_SoundSpeedMs (hd ?es)"
  have es: "?es \<noteq> []" "s_SoundSpeedMs (hd ?es) = c"
    using assms(2,3) by (cases ?es; auto simp: uniform_profile_def)+
  obtain h d where run: "trace_layers ?p ?es t 0 0 = (h, d)" by fastforce
  have cos: "0 < cos a"
    using assms(5) cos_gt_zero_pi [of a] by auto
  have "h = d * tan \<bar>a\<bar> \<and> (t - 1 / 10 ^ 12) * (c * cos a) \<le> d \<and> d \<le> t * (c * cos a)"
    using trace_layers_uniform [OF assms(2) es(1) assms(4) _ assms(5), of ?p t 0 0 h d] es assms(4,6,7) run
    by (simp add: mult_ac)
  moreover define s where "s = d / cos a"
  ultimately have "c * (t - 1 / 10 ^ 12) * cos a \<le> s * cos a" "s * cos a \<le> c * t * cos a"
    and sd: "d = s * cos a" "h = s * sin \<bar>a\<bar>"
    using cos by (simp_all add: tan_def mult_ac)
  then have sd: "d = s * cos a" "h = s * sin \<bar>a\<bar>" "c * (t - 1 / 10 ^ 12) \<le> s" "s \<le> c * t"
    using cos by (simp_all only: mult_le_cancel_right_pos)
  have "0 \<le> c * (t - 1 / 10 ^ 12)"
    using assms(4,6) by simp
  then have "sqrt (h * h + d * d) = s"
    using sd straight_slant [of s "\<bar>a\<bar>"] by (intro real_sqrt_unique) (simp_all add: power2_eq_square)
  moreover have "Trace rt a t = \<lparr>rr_SlantRange = sqrt (h * h + d * d), rr_HorizontalOffset = h, rr_DepthOffset = d,
      rr_TravelTime = t\<rparr>"
    using assms(1,3) es(1) run by (simp add: Trace_def traceLayered_def Let_def abs_real_def)
  ultimately show ?thesis
    using sd by (simp add: Let_def)
qed

definition calm_water :: SoundSpeedProfile where
  "calm_water = \<lparr>s_Entries = [\<lparr>s_DepthM = 0, s_SoundSpeedMs = 1500\<rparr>, \<lparr>s_DepthM = 100, s_SoundSpeedMs = 1500\<rparr>],
     s_TimestampUS = 0\<rparr>"

lemma uniform_water_rays_are_straight_witness:
  "rr_DepthOffset (Trace (NewRayTracer (Some calm_water)) 0 (1 / 100))
     = rr_SlantRange (Trace (NewRayTracer (Some calm_water)) 0 (1 / 100))
   \<and> rr_SlantRange (Trace (NewRayTracer (Some calm_water)) 0 (1 / 100)) \<le> 15"
  using uniform_water_rays_are_straight [of "NewRayTracer (Some calm_water)" calm_water 1500 0 "1 / 100"]
  by (simp add: NewRayTracer_def calm_water_def uniform_profile_def Let_def)

section \<open>The side of a beam\<close>

text \<open>With a profile of at least two entries the trace takes the absolute value of the beam's
  angle and never puts the sign back: the beams to port and to starboard get the same offset.
  Without such a profile they get opposite ones.\<close>

theorem layered_trace_forgets_side:
  "case rt_profile rt of
     Some profile \<Rightarrow>
       if 2 \<le> length (s_Entries profile) then Trace rt (- a) t = Trace rt a t
       else rr_HorizontalOffset (Trace rt (- a) t) = - rr_HorizontalOffset (Trace rt a t)
   | None \<Rightarrow> rr_HorizontalOffset (Trace rt (- a) t) = - rr_HorizontalOffset (Trace rt a t)"
  by (cases "a = 0")
    (auto simp: Trace_def traceLayered_def straight_ray_def Let_def split: option.splits)

section \<open>The equivalent angle\<close>

lemma EquivalentBeamAngle_same:
  assumes "0 < r" and "- pi < a" and "a \<le> pi" and "1 / 10 ^ 12 \<le> \<bar>cos a\<bar>"
  shows "EquivalentBeamAngle r a = a"
proof -
  have "Complex (r * cos a) (r * sin a) = rcis r a"
    by (simp add: complex_eq_iff)
  then have "sgn (Complex (r * cos a) (r * sin a)) = cis a"
    using assms(1) by (simp add: rcis_def sgn_mult sgn_of_real)
  then have "Arg (Complex (r * cos a) (r * sin a)) = a"
    using assms(2,3) by (intro cis_Arg_unique)
  with assms(4) show ?thesis by (simp add: EquivalentBeamAngle_def)
qed

end
