(* ===== verification/Transform.thy ===== *)
theory Transform
  imports Sonar_Model
begin

text \<open>
  \<open>TransformEngine\<close> of \<open>internal/coord/transform.go\<close>: from a ray's offsets through the body and
  navigation frames to a position on the ellipsoid. \<open>math.Pi\<close> and the functions of \<open>math\<close> are
  the exact ones on the reals; the engine has no state.
\<close>

section \<open>Vectors and matrices\<close>

record Vec3 =
  v_X :: real
  v_Y :: real
  v_Z :: real

text \<open>A \<open>[3][3]float64\<close>, entry by entry.\<close>

record Mat3 =
  r00 :: real
  r01 :: real
  r02 :: real
  r10 :: real
  r11 :: real
  r12 :: real
  r20 :: real
  r21 :: real
  r22 :: real

definition WGS84A :: real where "WGS84A = 6378137"
definition WGS84F :: real where "WGS84F = 1 / (298257223563 / 10 ^ 9)"
definition WGS84B :: real where "WGS84B = WGS84A * (1 - WGS84F)"
definition WGS84E2 :: real where "WGS84E2 = 2 * WGS84F - WGS84F * WGS84F"
definition DegToRad :: real where "DegToRad = pi / 180"
definition RadToDeg :: real where "RadToDeg = 180 / pi"

definition RotationMatrixRPY :: "real \<Rightarrow> real \<Rightarrow> real \<Rightarrow> Mat3" where
  "RotationMatrixRPY roll pitch heading =
     (let cr = cos roll; sr = sin roll; cp = cos pitch; sp = sin pitch; ch = cos heading; sh = sin heading in
      \<lparr>r00 = ch * cp, r01 = - sh * cr + ch * sp * sr, r02 = sh * sr + ch * sp * cr,
       r10 = sh * cp, r11 = ch * cr + sh * sp * sr, r12 = - ch * sr + sh * sp * cr,
       r20 = - sp, r21 = cp * sr, r22 = cp * cr\<rparr>)"

definition ApplyRotation :: "Mat3 \<Rightarrow> Vec3 \<Rightarrow> Vec3" where
  "ApplyRotation R v =
     \<lparr>v_X = r00 R * v_X v + r01 R * v_Y v + r02 R * v_Z v,
      v_Y = r10 R * v_X v + r11 R * v_Y v + r12 R * v_Z v,
      v_Z = r20 R * v_X v + r21 R * v_Y v + r22 R * v_Z v\<rparr>"

section \<open>The chain of frames\<close>

definition AcousticToBody :: "real \<Rightarrow> real \<Rightarrow> real \<Rightarrow> real \<Rightarrow> Vec3" where
  "AcousticToBody horizOffset depthOffset tiltAlong tiltAcross =
     (let ctA = cos tiltAlong; stA = sin tiltAlong; ctC = cos tiltAcross; stC = sin tiltAcross in
      \<lparr>v_X = horizOffset * ctA - depthOffset * stA,
       v_Y = horizOffset * stC * stA + depthOffset * stC * ctA,
       v_Z = - horizOffset * ctC * stA - depthOffset * ctC * ctA\<rparr>)"

definition BodyToNav :: "Vec3 \<Rightarrow> real \<Rightarrow> real \<Rightarrow> real \<Rightarrow> Vec3" where
  "BodyToNav body roll pitch heading = ApplyRotation (RotationMatrixRPY roll pitch heading) body"

text \<open>The two radii of curvature at a latitude in radians.\<close>

definition radius_normal :: "real \<Rightarrow> real" where
  "radius_normal lat = WGS84A / sqrt (1 - WGS84E2 * sin lat * sin lat)"

definition radius_meridian :: "real \<Rightarrow> real" where
  "radius_meridian lat = radius_normal lat * (1 - WGS84E2) / (1 - WGS84E2 * sin lat * sin lat)"

definition NavToGeo :: "Vec3 \<Rightarrow> INSData \<Rightarrow> Point3D" where
  "NavToGeo nav ins =
     (let lat = Latitude ins * DegToRad; Rn = radius_normal lat; Rm = radius_meridian lat;
          dLat = v_Z nav / Rm * RadToDeg; dLon = v_X nav / (Rn * cos lat) * RadToDeg
      in \<lparr>q_Latitude = Latitude ins + dLat, q_Longitude = Longitude ins + dLon, q_Depth = DepthM ins - v_Y nav,
          q_X = v_X nav, q_Y = v_Y nav, q_Z = v_Z nav, q_Intensity = 0, q_TimestampUS = 0, q_PingIndex = 0,
          q_BeamIndex = 0\<rparr>)"

definition FullTransform :: "real \<Rightarrow> real \<Rightarrow> real \<Rightarrow> real \<Rightarrow> INSData \<Rightarrow> Point3D" where
  "FullTransform horizOffset depthOffset tiltAlong tiltAcross ins =
     (let body = AcousticToBody horizOffset depthOffset tiltAlong tiltAcross;
          nav = BodyToNav body (RollRad ins) (PitchRad ins) (HeadingRad ins)
      in NavToGeo nav ins)"

definition LocalENUOffset :: "real \<Rightarrow> real \<Rightarrow> real \<Rightarrow> real \<Rightarrow> real \<times> real" where
  "LocalENUOffset lat1 lon1 lat2 lon2 =
     (let lat1R = lat1 * DegToRad; lat2R = lat2 * DegToRad; midLat = (lat1R + lat2R) / 2;
          dLon = (lon2 - lon1) * DegToRad; Rn = radius_normal midLat
      in (Rn * cos midLat * dLon, Rn * (lat2R - lat1R)))"

section \<open>Rotations keep distances\<close>

definition sq_norm :: "Vec3 \<Rightarrow> real" where
  "sq_norm v = v_X v * v_X v + v_Y v * v_Y v + v_Z v * v_Z v"

lemma sin_cos_sq: "sin t * sin t = 1 - cos t * cos (t :: real)"
proof -
  have "cos t * cos t + sin t * sin t = 1" by (rule sin_cos_squared_add3)
  then show ?thesis by linarith
qed

text \<open>The elementary rotations about the three axes.\<close>

definition turn_x :: "real \<Rightarrow> Vec3 \<Rightarrow> Vec3" where
  "turn_x t v = v\<lparr>v_Y := cos t * v_Y v - sin t * v_Z v, v_Z := sin t * v_Y v + cos t * v_Z v\<rparr>"

definition turn_y :: "real \<Rightarrow> Vec3 \<Rightarrow> Vec3" where
  "turn_y t v = v\<lparr>v_X := cos t * v_X v + sin t * v_Z v, v_Z := - sin t * v_X v + cos t * v_Z v\<rparr>"

definition turn_z :: "real \<Rightarrow> Vec3 \<Rightarrow> Vec3" where
  "turn_z t v = v\<lparr>v_X := cos t * v_X v - sin t * v_Y v, v_Y := sin t * v_X v + cos t * v_Y v\<rparr>"

lemma BodyToNav_turns: "BodyToNav v roll pitch heading = turn_z heading (turn_y pitch (turn_x roll v))"
  by (simp add: BodyToNav_def ApplyRotation_def RotationMatrixRPY_def turn_x_def turn_y_def turn_z_def Let_def
      algebra_simps)

lemma rotation_sq: "(cos t * x - sin t * y) * (cos t * x - sin t * y)
    + (sin t * x + cos t * y) * (sin t * x + cos t * y) = x * x + y * (y :: real)"
proof -
  have "(cos t * x - sin t * y) * (cos t * x - sin t * y) + (sin t * x + cos t * y) * (sin t * x + cos t * y)
      = (cos t * cos t + sin t * sin t) * (x * x + y * y)"
    by algebra
  then show ?thesis
    unfolding sin_cos_squared_add3 by simp
qed

lemma turns_keep_norm:
  "sq_norm (turn_x t v) = sq_norm v" "sq_norm (turn_y t v) = sq_norm v" "sq_norm (turn_z t v) = sq_norm v"
  using rotation_sq [of t "v_Y v" "v_Z v"] rotation_sq [of t "v_Z v" "v_X v"] rotation_sq [of t "v_X v" "v_Y v"]
  by (simp_all add: sq_norm_def turn_x_def turn_y_def turn_z_def algebra_simps)

lemma AcousticToBody_norm:
  "sq_norm (AcousticToBody h d tiltAlong tiltAcross) = h * h + d * d"
proof -
  let ?x = "h * cos tiltAlong - d * sin tiltAlong" and ?r = "h * sin tiltAlong + d * cos tiltAlong"
  have "sq_norm (AcousticToBody h d tiltAlong tiltAcross)
      = ?x * ?x + (sin tiltAcross * sin tiltAcross + cos tiltAcross * cos tiltAcross) * (?r * ?r)"
    unfolding sq_norm_def AcousticToBody_def Let_def Vec3.simps by algebra
  also have "\<dots> = h * h + d * d"
    unfolding sin_cos_sq [of tiltAcross] using rotation_sq [of tiltAlong h d] by (simp add: mult.commute)
  finally show ?thesis .
qed

lemma full_transform_norm:
  "let p = FullTransform h d tiltAlong tiltAcross ins in
   q_X p * q_X p + q_Y p * q_Y p + q_Z p * q_Z p = h * h + d * d"
proof -
  have "sq_norm (BodyToNav (AcousticToBody h d tiltAlong tiltAcross) (RollRad ins) (PitchRad ins) (HeadingRad ins))
      = h * h + d * d"
    unfolding BodyToNav_turns turns_keep_norm by (rule AcousticToBody_norm)
  then show ?thesis
    by (simp add: FullTransform_def NavToGeo_def sq_norm_def Let_def BodyToNav_turns)
qed

text \<open>C30. The chain is rigid: a body vector is turned by roll, pitch and heading about the three axes
  in this order, and whatever the tilts and the attitude, the point lies as far from the
  vehicle as the ray's end did.\<close>

theorem transform_is_rigid:
  "BodyToNav v roll pitch heading = turn_z heading (turn_y pitch (turn_x roll v))
   \<and> (let p = FullTransform h d tiltAlong tiltAcross ins in
      q_X p * q_X p + q_Y p * q_Y p + q_Z p * q_Z p = h * h + d * d)"
  using BodyToNav_turns full_transform_norm by blast

section \<open>The axis of depth\<close>

lemma zero_centideg: "centideg_rad 0 = 0"
  by (simp add: centideg_rad_def)

lemma soundings_depth:
  assumes "i_RollCentidg ins = 0" and "i_HeadingCentidg ins = 0"
  shows "q_Depth (FullTransform h d tiltAlong 0 ins) = DepthM ins"
  using assms
  by (simp add: FullTransform_def NavToGeo_def BodyToNav_turns AcousticToBody_def turn_x_def turn_y_def turn_z_def
      RollRad_def HeadingRad_def zero_centideg Let_def)

text \<open>The depth of a sounding is the vehicle's depth minus the Y component, but the beam points
  down along Z: with no across-track tilt, roll or heading every sounding is placed at the
  vehicle's own depth, whatever the length of its ray and the pitch. A level vehicle's ray of
  depth \<open>d\<close> moves the point south by \<open>d\<close> metres of the meridian instead.\<close>

lemma soundings_stay_at_vehicle_depth:
  assumes "i_RollCentidg ins = 0" and "i_HeadingCentidg ins = 0"
  shows "q_Depth (FullTransform h d tiltAlong 0 ins) = DepthM ins
       \<and> (i_PitchCentidg ins = 0 \<longrightarrow> q_Latitude (FullTransform h d 0 0 ins)
            = Latitude ins - d / radius_meridian (Latitude ins * DegToRad) * RadToDeg)"
  using assms
  by (simp add: FullTransform_def NavToGeo_def BodyToNav_turns AcousticToBody_def turn_x_def turn_y_def turn_z_def
      RollRad_def PitchRad_def HeadingRad_def zero_centideg Let_def)

section \<open>Offsets between positions\<close>

lemma ellipsoid: "0 < 1 - WGS84E2 * sin t * sin t" "0 < 1 - WGS84E2"
proof -
  have "0 < WGS84E2" "WGS84E2 < 1"
    by (simp_all add: WGS84E2_def WGS84F_def)
  moreover have "sin t * sin t \<le> 1"
    by (simp add: sin_cos_sq)
  ultimately have "WGS84E2 * (sin t * sin t) \<le> WGS84E2"
    by (simp add: mult_left_le)
  with \<open>WGS84E2 < 1\<close> show "0 < 1 - WGS84E2 * sin t * sin t" "0 < 1 - WGS84E2"
    by (simp_all add: mult.assoc)
qed

lemma radius_pos: "0 < radius_normal t" "0 < radius_meridian t"
  using ellipsoid(1) [of t] ellipsoid(2) by (simp_all add: radius_normal_def radius_meridian_def WGS84A_def)

text \<open>Away from the poles, the easting of a point above or below the vehicle's latitude line is
  what \<open>LocalENUOffset\<close> reads back from the two positions.\<close>

theorem easting_round_trip:
  assumes "cos (Latitude ins * DegToRad) \<noteq> 0" and "v_Z nav = 0"
  shows "let p = NavToGeo nav ins in
         LocalENUOffset (Latitude ins) (Longitude ins) (q_Latitude p) (q_Longitude p) = (v_X nav, 0)"
  using assms radius_pos(1) [of "Latitude ins * DegToRad"]
  by (simp add: NavToGeo_def LocalENUOffset_def Let_def RadToDeg_def DegToRad_def mult.commute [of pi])

lemma easting_round_trip_witness:
  "let p = NavToGeo \<lparr>v_X = 25, v_Y = 3, v_Z = 0\<rparr> zero_INSData in
   LocalENUOffset 0 0 (q_Latitude p) (q_Longitude p) = (25, 0)"
  using easting_round_trip [of zero_INSData "\<lparr>v_X = 25, v_Y = 3, v_Z = 0\<rparr>"]
  by (simp add: zero_INSData_def Latitude_def Longitude_def Let_def)

end
