(* ===== verification/Beam_Processor.thy ===== *)
theory Beam_Processor
  imports Ray_Tracer Transform
begin

text \<open>
  \<open>Processor\<close> of \<open>internal/beam/processor.go\<close>: from a ping and the latest INS record to a frame of
  points. The result of the INS reader's \<open>Latest\<close> is an argument; the mutex guards the two
  counters only and is released before the frame handler runs, so it never blocks and is left
  out. \<open>running\<close> and \<open>wg\<close> are never used by the code.
\<close>

section \<open>Operations\<close>

record 'w beam_processor =
  bp_rayTracer :: RayTracer
  bp_onFrame :: "(PointCloudFrame \<Rightarrow> 'w \<Rightarrow> 'w go) option"
  bp_processed :: u64
  bp_dropped :: u64

definition NewProcessor :: "SoundSpeedProfile option \<Rightarrow> 'w beam_processor" where
  "NewProcessor profile =
     \<lparr>bp_rayTracer = NewRayTracer profile, bp_onFrame = None, bp_processed = 0, bp_dropped = 0\<rparr>"

definition beam_SetFrameHandler ::
    "(PointCloudFrame \<Rightarrow> 'w \<Rightarrow> 'w go) \<Rightarrow> 'w beam_processor \<Rightarrow> 'w beam_processor" where
  "beam_SetFrameHandler handler p = p\<lparr>bp_onFrame := Some handler\<rparr>"

definition beam_UpdateProfile :: "SoundSpeedProfile option \<Rightarrow> 'w beam_processor \<Rightarrow> 'w beam_processor" where
  "beam_UpdateProfile profile p = p\<lparr>bp_rayTracer := rt_UpdateProfile profile (bp_rayTracer p)\<rparr>"

definition tilt_rad :: "u16 \<Rightarrow> real" where
  "tilt_rad t = real_of_int (sint t) / 100 * DegToRad"

text \<open>The point of one beam.\<close>

definition beam_point :: "RayTracer \<Rightarrow> INSData \<Rightarrow> SonarPing \<Rightarrow> BeamData \<Rightarrow> Point3D" where
  "beam_point rt insData ping beam =
     (let rayResult = Trace rt (AngleRad beam) (TravelTimeSec beam * (1 / 2));
          geo = FullTransform (rr_HorizontalOffset rayResult) (rr_DepthOffset rayResult)
                  (tilt_rad (p_TiltAlongTrack ping)) (tilt_rad (p_TiltAcrossTrack ping)) insData
      in geo\<lparr>q_Intensity := b_IntensityDB beam, q_TimestampUS := p_TimestampUS ping,
             q_PingIndex := p_PingCounter ping, q_BeamIndex := b_BeamIndex beam\<rparr>)"

definition ping_frame_points :: "RayTracer \<Rightarrow> INSData \<Rightarrow> SonarPing \<Rightarrow> PointCloudFrame" where
  "ping_frame_points rt insData ping =
     foldl (\<lambda>frame beam. AddPoint frame (beam_point rt insData ping beam))
       (NewPointCloudFrame (p_TimestampUS ping) (p_PingCounter ping)) (p_Beams ping)"

definition ProcessPing ::
    "INSData option go \<Rightarrow> SonarPing option \<Rightarrow> 'w beam_processor \<times> 'w \<Rightarrow>
     (PointCloudFrame option \<times> 'w beam_processor \<times> 'w) go" where
  "ProcessPing latest ping = (\<lambda>(p, w).
     (case ping of
        None \<Rightarrow> Inr (None, p, w)
      | Some pg \<Rightarrow>
          if p_Beams pg = [] then Inr (None, p, w)
          else
            (case latest of
               Inl s \<Rightarrow> Inl s
             | Inr None \<Rightarrow> Inr (None, p\<lparr>bp_dropped := bp_dropped p + 1\<rparr>, w)
             | Inr (Some insData) \<Rightarrow>
                 (let frame = ping_frame_points (bp_rayTracer p) insData pg;
                      p1 = p\<lparr>bp_processed := bp_processed p + 1\<rparr>
                  in case bp_onFrame p1 of
                       None \<Rightarrow> Inr (Some frame, p1, w)
                     | Some h \<Rightarrow> (case h frame w of Inl s \<Rightarrow> Inl s | Inr w1 \<Rightarrow> Inr (Some frame, p1, w1))))))"

definition beam_GetStats :: "'w beam_processor \<Rightarrow> u64 \<times> u64" where
  "beam_GetStats p = (bp_processed p, bp_dropped p)"

section \<open>One point per beam\<close>

lemma frame_points:
  "ping_frame_points rt ins ping =
     \<lparr>f_TimestampUS = p_TimestampUS ping, f_PingCounter = p_PingCounter ping,
      f_Points = map (beam_point rt ins ping) (p_Beams ping), f_NumPoints = length (p_Beams ping)\<rparr>"
proof -
  have "foldl (\<lambda>frame beam. AddPoint frame (g beam)) f bs
      = f\<lparr>f_Points := f_Points f @ map g bs, f_NumPoints := f_NumPoints f + length bs\<rparr>"
    for g :: "BeamData \<Rightarrow> Point3D" and f bs
    by (induction bs arbitrary: f) (simp_all add: AddPoint_def)
  then show ?thesis
    by (simp add: ping_frame_points_def NewPointCloudFrame_def)
qed

lemma beam_point_range:
  "let q = beam_point rt ins ping b; r = rr_SlantRange (Trace rt (AngleRad b) (TravelTimeSec b / 2)) in
   q_X q * q_X q + q_Y q * q_Y q + q_Z q * q_Z q = r * r"
  using full_transform_norm Trace_triangle [of rt "AngleRad b" "TravelTimeSec b / 2"]
  by (simp add: beam_point_def Let_def)

text \<open>C28. A ping with beams and an INS record makes one frame with the ping's time and counter: as many
  points as beams, in their order, each labelled with its beam and as far from the vehicle as
  the trace of its beam over half the travel time reached. The frame goes to the handler once
  and is counted. Without an INS record the ping is dropped and counted as such.\<close>

theorem ProcessPing_frames:
  assumes "p_Beams ping \<noteq> []" and "bp_onFrame p = Some h"
  shows "ProcessPing (Inr None) (Some ping) (p, w) = Inr (None, p\<lparr>bp_dropped := bp_dropped p + 1\<rparr>, w)
       \<and> (\<exists>frame. ProcessPing (Inr (Some ins)) (Some ping) (p, w)
                = (case h frame w of Inl s \<Rightarrow> Inl s
                   | Inr w' \<Rightarrow> Inr (Some frame, p\<lparr>bp_processed := bp_processed p + 1\<rparr>, w'))
            \<and> f_TimestampUS frame = p_TimestampUS ping \<and> f_PingCounter frame = p_PingCounter ping
            \<and> f_NumPoints frame = length (p_Beams ping) \<and> length (f_Points frame) = length (p_Beams ping)
            \<and> list_all2 (\<lambda>b q. q_BeamIndex q = b_BeamIndex b \<and> q_Intensity q = b_IntensityDB b
                 \<and> q_PingIndex q = p_PingCounter ping \<and> q_TimestampUS q = p_TimestampUS ping
                 \<and> (let r = rr_SlantRange (Trace (bp_rayTracer p) (AngleRad b) (TravelTimeSec b / 2)) in
                    q_X q * q_X q + q_Y q * q_Y q + q_Z q * q_Z q = r * r)) (p_Beams ping) (f_Points frame))"
proof -
  let ?f = "ping_frame_points (bp_rayTracer p) ins ping"
  have "q_BeamIndex (beam_point rt ins ping b) = b_BeamIndex b
      \<and> q_Intensity (beam_point rt ins ping b) = b_IntensityDB b
      \<and> q_PingIndex (beam_point rt ins ping b) = p_PingCounter ping
      \<and> q_TimestampUS (beam_point rt ins ping b) = p_TimestampUS ping" for rt b
    by (simp add: beam_point_def Let_def)
  moreover have "ProcessPing (Inr (Some ins)) (Some ping) (p, w)
      = (case h ?f w of Inl s \<Rightarrow> Inl s
         | Inr w' \<Rightarrow> Inr (Some ?f, p\<lparr>bp_processed := bp_processed p + 1\<rparr>, w'))"
    using assms by (simp add: ProcessPing_def Let_def)
  ultimately show ?thesis
    using assms(1) beam_point_range
    by (intro conjI exI [of _ ?f])
      (auto simp: ProcessPing_def frame_points list_all2_map2 Let_def intro: list.rel_refl)
qed

text \<open>C39. The records that the INS processor delivers have heading 0. With no roll and no
  across-track tilt the seabed is lost: every point of the frame has the vehicle's depth,
  whatever the travel times.\<close>

theorem level_pings_map_flat:
  assumes "i_RollCentidg ins = 0" and "i_HeadingCentidg ins = 0" and "p_TiltAcrossTrack ping = 0"
  shows "\<forall>q \<in> set (f_Points (ping_frame_points rt ins ping)). q_Depth q = DepthM ins"
  using soundings_depth [OF assms(1,2)] assms(3)
  by (auto simp: frame_points beam_point_def tilt_rad_def Let_def)

section \<open>A ping of one beam\<close>

definition one_beam :: SonarPing where
  "one_beam = \<lparr>p_SyncPattern = SyncMagic, p_PacketLength = 40, p_PingCounter = 3, p_TimestampUS = 9,
     p_SoundSpeedDM = 15000, p_NumBeams = 1, p_TiltAlongTrack = 50, p_TiltAcrossTrack = 0, p_SamplingFreqHz = 0,
     p_PulseLengthUS = 0, p_TransducerDepth = 0,
     p_Beams = [\<lparr>b_BeamIndex = 0, b_PointingAngle = 1000, b_TravelTimeUS = 20000, b_IntensityDB = 7,
       b_QualityFactor = 0, b_DetectInfo = 0, b_Reserved = 0\<rparr>]\<rparr>"

lemma ProcessPing_frames_witness:
  "let p = beam_SetFrameHandler (\<lambda>f fs. Inr (fs @ [f])) (NewProcessor None) in
   (\<exists>frame. ProcessPing (Inr (Some zero_INSData)) (Some one_beam) (p, [])
      = Inr (Some frame, p\<lparr>bp_processed := 1\<rparr>, [frame]) \<and> f_NumPoints frame = 1 \<and> f_PingCounter frame = 3)"
  using ProcessPing_frames [of one_beam "beam_SetFrameHandler (\<lambda>f fs. Inr (fs @ [f])) (NewProcessor None)"
      "\<lambda>f fs. Inr (fs @ [f])" "[]" zero_INSData]
  by (auto simp: one_beam_def beam_SetFrameHandler_def NewProcessor_def Let_def)

lemma level_pings_map_flat_witness:
  "map q_Depth (f_Points (ping_frame_points (NewRayTracer None) (zero_INSData\<lparr>i_DepthMM := 5000\<rparr>) one_beam)) = [5]"
proof -
  let ?f = "ping_frame_points (NewRayTracer None) (zero_INSData\<lparr>i_DepthMM := 5000\<rparr>) one_beam"
  have "length (f_Points ?f) = 1"
    by (simp add: frame_points one_beam_def)
  then obtain q where "f_Points ?f = [q]"
    by (auto simp: length_Suc_conv)
  with level_pings_map_flat [of "zero_INSData\<lparr>i_DepthMM := 5000\<rparr>" one_beam "NewRayTracer None"] show ?thesis
    by (simp add: one_beam_def zero_INSData_def DepthM_def)
qed

end
