(* ===== verification/Variogram.thy ===== *)
theory Variogram
  imports Gateway_Prelude
begin

text \<open>
  \<open>internal/kriging/variogram.go\<close>: the variogram models, the anisotropic distance, the empirical
  variogram of sample pairs and the fit of a model to it. \<open>float64\<close> values are exact reals.
  A division by zero, which gives an infinity or NaN in Go, is written out where its result is a
  number again (\<open>Gamma\<close> with \<open>Range\<close> 0); \<open>AnisotropicDistance\<close> divides by \<open>AnisoRatio\<close>, and a ratio
  of 0 is outside its model: the properties that rest on it require another one. The struct
  literals of the fit leave the ratio at 0, but its only caller puts the configured ratio back
  before it uses the parameters.
\<close>

section \<open>Models\<close>

text \<open>\<open>iota\<close> counts \<open>RadToDeg\<close> as its position 0, so the models start at 1.\<close>

type_synonym VariogramModel = int

definition ModelSpherical :: VariogramModel where "ModelSpherical = 1"
definition ModelExponential :: VariogramModel where "ModelExponential = 2"
definition ModelGaussian :: VariogramModel where "ModelGaussian = 3"

lemmas model_defs = ModelSpherical_def ModelExponential_def ModelGaussian_def

record VariogramParams =
  v_Model :: VariogramModel
  v_Nugget :: real
  v_Sill :: real
  v_Range :: real
  v_AnisoAngle :: real
  v_AnisoRatio :: real

definition DefaultVariogramParams :: VariogramParams where
  "DefaultVariogramParams =
     \<lparr>v_Model = ModelSpherical, v_Nugget = 1 / 100, v_Sill = 1, v_Range = 50, v_AnisoAngle = 0,
      v_AnisoRatio = 1\<rparr>"

text \<open>
  With a range of 0 the quotient \<open>h / Range\<close> of a positive \<open>h\<close> is \<open>+Inf\<close> and \<open>math.Exp\<close> of \<open>-Inf\<close> is 0;
  the spherical model does not divide then.
\<close>

definition Gamma :: "VariogramParams \<Rightarrow> real \<Rightarrow> real" where
  "Gamma v h =
     (if h \<le> 0 then 0
      else if v_Model v = ModelSpherical then
        (if h \<ge> v_Range v then v_Nugget v + v_Sill v
         else
           (let hr = h / v_Range v in v_Nugget v + v_Sill v * (3 / 2 * hr - 1 / 2 * hr * hr * hr)))
      else if v_Model v = ModelExponential then
        (if v_Range v = 0 then v_Nugget v + v_Sill v * (1 - 0)
         else (let hr = h / v_Range v in v_Nugget v + v_Sill v * (1 - exp (- 3 * hr))))
      else if v_Model v = ModelGaussian then
        (if v_Range v = 0 then v_Nugget v + v_Sill v * (1 - 0)
         else (let hr = h / v_Range v in v_Nugget v + v_Sill v * (1 - exp (- 3 * hr * hr))))
      else v_Nugget v + v_Sill v)"

text \<open>The ratio must not be 0.\<close>

definition AnisotropicDistance :: "VariogramParams \<Rightarrow> real \<Rightarrow> real \<Rightarrow> real" where
  "AnisotropicDistance v dx dy =
     (if v_AnisoRatio v = 1 then sqrt (dx * dx + dy * dy)
      else
        (let cosA = cos (v_AnisoAngle v); sinA = sin (v_AnisoAngle v);
             dxRot = dx * cosA + dy * sinA; dyRot = - dx * sinA + dy * cosA;
             dxScaled = dxRot; dyScaled = dyRot / v_AnisoRatio v
         in sqrt (dxScaled * dxScaled + dyScaled * dyScaled)))"

section \<open>The empirical variogram\<close>

record EmpiricalVariogram =
  ev_Lags :: "real list"
  ev_Gamma :: "real list"
  ev_Counts :: "nat list"
  ev_NumLags :: nat
  ev_LagWidth :: real
  ev_MaxDist :: real

definition NewEmpiricalVariogram :: "nat \<Rightarrow> real \<Rightarrow> EmpiricalVariogram" where
  "NewEmpiricalVariogram numLags maxDist =
     (let w = maxDist / real numLags in
      \<lparr>ev_Lags = map (\<lambda>i. (real i + 1 / 2) * w) [0..<numLags], ev_Gamma = replicate numLags 0,
       ev_Counts = replicate numLags 0, ev_NumLags = numLags, ev_LagWidth = w, ev_MaxDist = maxDist\<rparr>)"

text \<open>A distance that passes the guard is positive and its lag is not negative.\<close>

definition AddPair :: "real \<Rightarrow> real \<Rightarrow> EmpiricalVariogram \<Rightarrow> EmpiricalVariogram" where
  "AddPair pairDist valueDiffSq ev =
     (if pairDist \<le> 0 \<or> pairDist \<ge> ev_MaxDist ev then ev
      else
        (let lagIdx = nat (go_trunc (pairDist / ev_LagWidth ev)) in
         if lagIdx \<ge> ev_NumLags ev then ev
         else ev\<lparr>ev_Gamma := (ev_Gamma ev)[lagIdx := ev_Gamma ev ! lagIdx + valueDiffSq],
                 ev_Counts := (ev_Counts ev)[lagIdx := ev_Counts ev ! lagIdx + 1]\<rparr>))"

definition finalize_lag :: "EmpiricalVariogram \<Rightarrow> nat \<Rightarrow> EmpiricalVariogram" where
  "finalize_lag ev i =
     (if ev_Counts ev ! i > 0
      then ev\<lparr>ev_Gamma := (ev_Gamma ev)[i := ev_Gamma ev ! i / (2 * real (ev_Counts ev ! i))]\<rparr>
      else ev)"

definition Finalize :: "EmpiricalVariogram \<Rightarrow> EmpiricalVariogram" where
  "Finalize ev = foldl finalize_lag ev [0..<ev_NumLags ev]"

section \<open>Fitting\<close>

record SamplePoint =
  s_X :: real
  s_Y :: real
  s_Value :: real

definition estimateNugget :: "EmpiricalVariogram \<Rightarrow> real" where
  "estimateNugget ev =
     (case filter (\<lambda>i. ev_Counts ev ! i > 0) [0..<ev_NumLags ev] of
        [] \<Rightarrow> 1 / 100
      | i # _ \<Rightarrow> ev_Gamma ev ! i * (1 / 2))"

definition estimateRange :: "EmpiricalVariogram \<Rightarrow> real \<Rightarrow> real \<Rightarrow> real" where
  "estimateRange ev nugget sill =
     (let target = nugget + 95 / 100 * (sill - nugget) in
      case filter (\<lambda>i. ev_Counts ev ! i > 0 \<and> ev_Gamma ev ! i \<ge> target) [0..<ev_NumLags ev] of
        [] \<Rightarrow> ev_MaxDist ev / 3
      | i # _ \<Rightarrow> ev_Lags ev ! i)"

text \<open>The largest value of a lag that has pairs, and how many such lags there are.\<close>

definition lag_summary :: "EmpiricalVariogram \<Rightarrow> real \<times> nat" where
  "lag_summary ev =
     foldl (\<lambda>(maxGamma, validLags) i.
              if ev_Counts ev ! i > 0
              then (if ev_Gamma ev ! i > maxGamma then ev_Gamma ev ! i else maxGamma, validLags + 1)
              else (maxGamma, validLags))
       (0, 0) [0..<ev_NumLags ev]"

text \<open>The struct literals leave the anisotropy fields at their zero value.\<close>

definition fitFromEmpirical :: "EmpiricalVariogram \<Rightarrow> VariogramModel \<Rightarrow> VariogramParams" where
  "fitFromEmpirical ev model =
     (case lag_summary ev of (maxGamma, validLags) \<Rightarrow>
        if validLags < 3 \<or> maxGamma \<le> 0 then
          \<lparr>v_Model = model, v_Nugget = 1 / 100, v_Sill = 1, v_Range = ev_MaxDist ev / 3,
           v_AnisoAngle = 0, v_AnisoRatio = 0\<rparr>
        else
          (let nugget = estimateNugget ev;
               sill0 = maxGamma * (11 / 10);
               sill = (if sill0 \<le> nugget then nugget + 1 / 10 else sill0);
               practicalRange = estimateRange ev nugget sill
           in \<lparr>v_Model = model, v_Nugget = nugget, v_Sill = sill - nugget, v_Range = practicalRange,
               v_AnisoAngle = 0, v_AnisoRatio = 0\<rparr>))"

definition add_sample_pair :: "SamplePoint list \<Rightarrow> nat \<Rightarrow> EmpiricalVariogram \<Rightarrow> nat \<Rightarrow> EmpiricalVariogram" where
  "add_sample_pair samples i ev j =
     (let dx = s_X (samples ! i) - s_X (samples ! j); dy = s_Y (samples ! i) - s_Y (samples ! j);
          pairDist = sqrt (dx * dx + dy * dy);
          diffSq = (s_Value (samples ! i) - s_Value (samples ! j)) * (s_Value (samples ! i) - s_Value (samples ! j))
      in AddPair pairDist diffSq ev)"

text \<open>The indices of a loop \<open>for k := i; k < n; k += step\<close> with a positive step.\<close>

function steps_from :: "nat \<Rightarrow> nat \<Rightarrow> nat \<Rightarrow> nat list" where
  "steps_from i n d = (if i < n \<and> 0 < d then i # steps_from (i + d) n d else [])"
  by pat_completeness auto
termination
  by (relation "measure (\<lambda>(i, n, d). n - i)") auto

declare steps_from.simps [simp del]

definition fitVariogramSampled :: "SamplePoint list \<Rightarrow> VariogramModel \<Rightarrow> real \<Rightarrow> nat \<Rightarrow> VariogramParams" where
  "fitVariogramSampled samples model maxDist numLags =
     (let n = length samples; d = (if n > 200 then n div 200 else 1);
          ev = foldl (\<lambda>ev i. foldl (add_sample_pair samples i) ev (steps_from (i + 1) n d))
                 (NewEmpiricalVariogram numLags maxDist) (steps_from 0 n d)
      in fitFromEmpirical (Finalize ev) model)"

definition FitVariogram :: "SamplePoint list \<Rightarrow> VariogramModel \<Rightarrow> real \<Rightarrow> nat \<Rightarrow> VariogramParams" where
  "FitVariogram samples model maxDist numLags =
     (let n = length samples; maxPairs = n * (n - 1) div 2 in
      if maxPairs > 5000 then fitVariogramSampled samples model maxDist numLags
      else
        (let ev = foldl (\<lambda>ev i. foldl (add_sample_pair samples i) ev [i + 1..<n])
                    (NewEmpiricalVariogram numLags maxDist) [0..<n]
         in fitFromEmpirical (Finalize ev) model))"

section \<open>Valid parameters\<close>

definition valid_params :: "VariogramParams \<Rightarrow> bool" where
  "valid_params v \<longleftrightarrow> 0 \<le> v_Nugget v \<and> 0 < v_Sill v \<and> 0 < v_Range v"

lemma spherical_mono:
  fixes x y :: real
  assumes "0 \<le> x" and "x \<le> y" and "y \<le> 1"
  shows "3 / 2 * x - 1 / 2 * x * x * x \<le> 3 / 2 * y - 1 / 2 * y * y * y"
proof -
  have "x * x \<le> 1" "x * y \<le> 1" "y * y \<le> 1"
    using assms by (auto intro!: mult_le_one)
  then have "0 \<le> (y - x) * (3 / 2 - 1 / 2 * (y * y + x * y + x * x))"
    using assms by (intro mult_nonneg_nonneg) auto
  also have "\<dots> = (3 / 2 * y - 1 / 2 * y * y * y) - (3 / 2 * x - 1 / 2 * x * x * x)"
    by (simp add: field_simps)
  finally show ?thesis by simp
qed

lemma Gamma_range:
  assumes "valid_params v"
  shows "0 \<le> Gamma v h" and "Gamma v h \<le> v_Nugget v + v_Sill v"
proof -
  have hr: "0 < h / v_Range v" if "0 < h"
    using that assms by (simp add: valid_params_def)
  have sph: "0 \<le> 3 / 2 * x - 1 / 2 * x * x * x" "3 / 2 * x - 1 / 2 * x * x * x \<le> 1"
    if "0 \<le> x" "x \<le> 1" for x :: real
    using spherical_mono [of 0 x] spherical_mono [of x 1] that by simp_all
  show "0 \<le> Gamma v h"
    using assms hr sph [of "h / v_Range v"]
    by (auto simp: Gamma_def valid_params_def Let_def not_le divide_le_eq)
  show "Gamma v h \<le> v_Nugget v + v_Sill v"
    using assms hr sph [of "h / v_Range v"]
    by (auto simp: Gamma_def valid_params_def Let_def not_le divide_le_eq mult_le_cancel_left1)
qed

lemma Gamma_mono:
  assumes "valid_params v" and "h \<le> k"
  shows "Gamma v h \<le> Gamma v k"
proof (cases "h \<le> 0 \<or> v_Model v = ModelSpherical \<and> k \<ge> v_Range v")
  case True
  then show ?thesis
  proof
    assume "h \<le> 0"
    then have "Gamma v h = 0" by (simp add: Gamma_def)
    with Gamma_range(1) [OF assms(1)] show ?thesis by simp
  next
    assume k: "v_Model v = ModelSpherical \<and> k \<ge> v_Range v"
    then have "Gamma v k = v_Nugget v + v_Sill v"
      using assms(1) by (simp add: Gamma_def valid_params_def)
    with Gamma_range(2) [OF assms(1)] show ?thesis by simp
  qed
next
  case False
  then have pos: "0 < h" "0 < k" using assms(2) by auto
  let ?x = "h / v_Range v" and ?y = "k / v_Range v"
  have xy: "0 \<le> ?x" "?x \<le> ?y"
    using assms pos by (simp_all add: valid_params_def divide_right_mono)
  then have sq: "?x * ?x \<le> ?y * ?y"
    by (intro mult_mono) auto
  have sill: "0 \<le> v_Sill v"
    using assms(1) by (simp add: valid_params_def)
  consider "v_Model v = ModelSpherical" "k < v_Range v" | "v_Model v = ModelExponential"
    | "v_Model v = ModelGaussian" | "v_Model v \<noteq> ModelSpherical" "v_Model v \<noteq> ModelExponential" "v_Model v \<noteq> ModelGaussian"
    using False by force
  then show ?thesis
  proof cases
    case 1
    then have "?y \<le> 1"
      using pos by (simp add: divide_le_eq)
    from spherical_mono [OF xy this] 1 pos assms(2) sill show ?thesis
      by (simp add: Gamma_def Let_def mult_left_mono)
  next
    case 2
    with pos xy sill show ?thesis
      by (simp add: Gamma_def Let_def model_defs mult_left_mono)
  next
    case 3
    with pos sq sill show ?thesis
      by (simp add: Gamma_def Let_def model_defs mult_left_mono)
  next
    case 4
    with pos show ?thesis by (simp add: Gamma_def)
  qed
qed

section \<open>The fit\<close>

text \<open>What adding pairs keeps: the size of the lists and sums that are not negative.\<close>

definition ev_ok :: "nat \<Rightarrow> real \<Rightarrow> EmpiricalVariogram \<Rightarrow> bool" where
  "ev_ok n maxDist ev \<longleftrightarrow>
     ev_NumLags ev = n \<and> ev_MaxDist ev = maxDist \<and> length (ev_Gamma ev) = n \<and> length (ev_Counts ev) = n
   \<and> ev_Lags ev = map (\<lambda>i. (real i + 1 / 2) * (maxDist / real n)) [0..<n]
   \<and> (\<forall>i<n. 0 \<le> ev_Gamma ev ! i)"

lemma ev_ok_new: "ev_ok n maxDist (NewEmpiricalVariogram n maxDist)"
  by (simp add: ev_ok_def NewEmpiricalVariogram_def Let_def)

lemma ev_ok_add: "ev_ok n m ev \<Longrightarrow> 0 \<le> d \<Longrightarrow> ev_ok n m (AddPair x d ev)"
  by (auto simp: ev_ok_def AddPair_def Let_def nth_list_update)

lemma ev_ok_pair: "ev_ok n m ev \<Longrightarrow> ev_ok n m (add_sample_pair samples i ev j)"
  by (simp add: add_sample_pair_def Let_def ev_ok_add)

lemma ev_ok_pairs: "ev_ok n m ev \<Longrightarrow>
    ev_ok n m (foldl (\<lambda>ev i. foldl (add_sample_pair samples i) ev (f i)) ev is)"
  by (intro foldl_invar [where P = "ev_ok n m"]) (auto intro: ev_ok_pair)

lemma ev_ok_finalize: "ev_ok n m ev \<Longrightarrow> ev_ok n m (Finalize ev)"
  unfolding Finalize_def
  by (rule foldl_invar [where P = "ev_ok n m"]) (auto simp: ev_ok_def finalize_lag_def nth_list_update)

lemma lag_summary_nonneg: "0 \<le> fst (lag_summary ev)"
  unfolding lag_summary_def
  by (rule foldl_invar [where P = "\<lambda>p. 0 \<le> fst p"]) (auto split: if_splits)

lemma estimates_ok:
  assumes "ev_ok n m ev" and "0 < n" and "0 < m"
  shows "0 \<le> estimateNugget ev" and "0 < estimateRange ev nugget sill"
proof -
  have first: "i < n" if "filter P [0..<ev_NumLags ev] = i # xs" for P i xs
  proof -
    have "i \<in> set (filter P [0..<ev_NumLags ev])"
      unfolding that by simp
    with assms(1) show ?thesis by (simp add: ev_ok_def)
  qed
  show "0 \<le> estimateNugget ev"
  proof (cases "filter (\<lambda>i. ev_Counts ev ! i > 0) [0..<ev_NumLags ev]")
    case (Cons i xs)
    from first [OF this] assms(1) show ?thesis
      unfolding estimateNugget_def Cons by (simp add: ev_ok_def)
  qed (simp add: estimateNugget_def)
  let ?P = "\<lambda>i. ev_Counts ev ! i > 0 \<and> ev_Gamma ev ! i \<ge> nugget + 95 / 100 * (sill - nugget)"
  show "0 < estimateRange ev nugget sill"
  proof (cases "filter ?P [0..<ev_NumLags ev]")
    case (Cons i xs)
    from first [OF this] assms show ?thesis
      unfolding estimateRange_def Let_def Cons by (simp add: ev_ok_def add_nonneg_pos)
  next
    case Nil
    with assms show ?thesis
      unfolding estimateRange_def Let_def Nil by (simp add: ev_ok_def)
  qed
qed

lemma fitFromEmpirical_valid:
  assumes "ev_ok n m ev" and "0 < n" and "0 < m"
  shows "valid_params (fitFromEmpirical ev model) \<and> v_Model (fitFromEmpirical ev model) = model"
proof -
  obtain g k where summary: "lag_summary ev = (g, k)"
    by (cases "lag_summary ev")
  show ?thesis
  proof (cases "k < 3 \<or> g \<le> 0")
    case True
    then show ?thesis
      unfolding fitFromEmpirical_def summary using assms(1,3) by (simp add: valid_params_def ev_ok_def)
  next
    case False
    then show ?thesis
      unfolding fitFromEmpirical_def summary
      using estimates_ok [OF assms] by (simp add: valid_params_def Let_def)
  qed
qed

text \<open>C36. Whatever the samples, a fit with at least one lag over a positive distance gives a valid
  variogram of the requested model: it is 0 at distance 0, never negative, non-decreasing in the
  distance and never above nugget plus sill.\<close>

theorem fitted_variogram_valid:
  assumes "0 < maxDist" and "0 < numLags" and v: "v = FitVariogram samples model maxDist numLags"
  shows "v_Model v = model \<and> 0 < v_Range v \<and> Gamma v 0 = 0
       \<and> (\<forall>h k. h \<le> k \<longrightarrow> 0 \<le> Gamma v h \<and> Gamma v h \<le> Gamma v k \<and> Gamma v k \<le> v_Nugget v + v_Sill v)"
proof -
  have "valid_params v \<and> v_Model v = model"
    unfolding v FitVariogram_def fitVariogramSampled_def Let_def
    using fitFromEmpirical_valid [OF ev_ok_finalize [OF ev_ok_pairs [OF ev_ok_new]] assms(2,1)]
    by simp
  moreover have "Gamma v 0 = 0"
    by (simp add: Gamma_def)
  ultimately show ?thesis
    using Gamma_range [of v] Gamma_mono [of v] by (simp add: valid_params_def)
qed

lemma fitted_variogram_valid_witness:
  "v_Model (FitVariogram [] ModelSpherical 100 20) = ModelSpherical
   \<and> 0 \<le> Gamma (FitVariogram [] ModelSpherical 100 20) 3
   \<and> Gamma (FitVariogram [] ModelSpherical 100 20) 3 \<le> Gamma (FitVariogram [] ModelSpherical 100 20) 7"
  using fitted_variogram_valid [of 100 20 "FitVariogram [] ModelSpherical 100 20" "[]" ModelSpherical] by auto

end
