(* ===== verification/Spatial_Grid.thy ===== *)
theory Spatial_Grid
  imports Sonar_Model Variogram "HOL-Library.Multiset"
begin

text \<open>
  \<open>SpatialGrid\<close> of \<open>internal/voidfill/grid.go\<close>: square cells over a rectangle, the points in
  each, and which cells are void or at an edge. The grid's own mutex is taken on entry and
  released on return by every exported method, and none of them calls another one while it holds
  the mutex, so it is left out. \<open>float64\<close> values are exact reals, the cell size is taken to be
  positive (as the gateway's configuration has it), and an infinite \<open>MinDepth\<close> or \<open>MaxDepth\<close> is
  \<open>None\<close>.

  The grids of the model are of any size. In Go, \<open>make\<close> panics when the number of cells is more than
  a slice can have, which points far enough apart or a small enough cell size bring about:
  \<open>grid_fits\<close> says that a grid is one \<open>make\<close> accepts, and what is proved of \<open>NewSpatialGrid\<close> and its
  callers speaks of the program for such grids only.
\<close>

section \<open>State\<close>

record GridCell =
  gc_MinX :: real
  gc_MinY :: real
  gc_MaxX :: real
  gc_MaxY :: real
  gc_Points :: "Point3D list"
  gc_CenterX :: real
  gc_CenterY :: real
  gc_MinDepth :: "real option"
  gc_MaxDepth :: "real option"
  gc_AvgDepth :: real
  gc_HasData :: bool
  gc_IsEdge :: bool
  gc_IsVoid :: bool

record GridConfig =
  g_CellSize :: real
  g_MinX :: real
  g_MinY :: real
  g_MaxX :: real
  g_MaxY :: real
  g_DepthThreshold :: real
  g_EdgeDepthDiff :: real
  g_MinPointsPerCell :: int

definition DefaultGridConfig :: "real \<Rightarrow> GridConfig" where
  "DefaultGridConfig cellSize =
     \<lparr>g_CellSize = cellSize, g_MinX = 0, g_MinY = 0, g_MaxX = 0, g_MaxY = 0, g_DepthThreshold = 1 / 10,
      g_EdgeDepthDiff = 1, g_MinPointsPerCell = 1\<rparr>"

record SpatialGrid =
  sg_config :: GridConfig
  sg_numColsX :: nat
  sg_numRowsY :: nat
  sg_cells :: "GridCell list"

definition new_cell :: "GridConfig \<Rightarrow> nat \<Rightarrow> nat \<Rightarrow> GridCell" where
  "new_cell cfg numRowsY i =
     (let cx = i div numRowsY; cy = i mod numRowsY;
          minX = g_MinX cfg + real cx * g_CellSize cfg; minY = g_MinY cfg + real cy * g_CellSize cfg;
          maxX = g_MinX cfg + real (cx + 1) * g_CellSize cfg; maxY = g_MinY cfg + real (cy + 1) * g_CellSize cfg
      in \<lparr>gc_MinX = minX, gc_MinY = minY, gc_MaxX = maxX, gc_MaxY = maxY, gc_Points = [],
          gc_CenterX = (minX + maxX) / 2, gc_CenterY = (minY + maxY) / 2, gc_MinDepth = None,
          gc_MaxDepth = None, gc_AvgDepth = 0, gc_HasData = False, gc_IsEdge = False, gc_IsVoid = False\<rparr>)"

definition NewSpatialGrid :: "GridConfig \<Rightarrow> SpatialGrid" where
  "NewSpatialGrid cfg =
     (let rangeX = (if g_MaxX cfg - g_MinX cfg \<le> 0 then g_CellSize cfg else g_MaxX cfg - g_MinX cfg);
          rangeY = (if g_MaxY cfg - g_MinY cfg \<le> 0 then g_CellSize cfg else g_MaxY cfg - g_MinY cfg);
          numColsX = nat \<lceil>rangeX / g_CellSize cfg\<rceil> + 1; numRowsY = nat \<lceil>rangeY / g_CellSize cfg\<rceil> + 1
      in \<lparr>sg_config = cfg, sg_numColsX = numColsX, sg_numRowsY = numRowsY,
          sg_cells = map (new_cell cfg numRowsY) [0..<numColsX * numRowsY]\<rparr>)"

text \<open>
  The grids within the model: of a positive cell size, and with at most as many cells as \<open>make\<close> takes
  pointers, 2 to the 48 bytes of 8 each on a 64-bit machine. The dimensions are positive, so they
  and their product then fit an \<open>int\<close>.
\<close>

definition grid_fits :: "GridConfig \<Rightarrow> bool" where
  "grid_fits cfg \<longleftrightarrow>
     0 < g_CellSize cfg \<and> sg_numColsX (NewSpatialGrid cfg) * sg_numRowsY (NewSpatialGrid cfg) \<le> 2 ^ 45"

definition grid_Reset :: "SpatialGrid \<Rightarrow> SpatialGrid" where
  "grid_Reset g =
     g\<lparr>sg_cells := map (\<lambda>c. c\<lparr>gc_Points := [], gc_HasData := False, gc_IsEdge := False, gc_IsVoid := False,
         gc_MinDepth := None, gc_MaxDepth := None, gc_AvgDepth := 0\<rparr>) (sg_cells g)\<rparr>"

section \<open>Adding points\<close>

definition in_bounds :: "GridConfig \<Rightarrow> real \<Rightarrow> real \<Rightarrow> bool" where
  "in_bounds cfg x y \<longleftrightarrow> \<not> (x < g_MinX cfg \<or> x \<ge> g_MaxX cfg \<or> y < g_MinY cfg \<or> y \<ge> g_MaxY cfg)"

definition CellCoord :: "SpatialGrid \<Rightarrow> real \<Rightarrow> real \<Rightarrow> nat \<times> nat \<times> bool" where
  "CellCoord g x y =
     (let cfg = sg_config g in
      if \<not> in_bounds cfg x y then (0, 0, False)
      else
        (let cx = nat (go_trunc ((x - g_MinX cfg) / g_CellSize cfg));
             cy = nat (go_trunc ((y - g_MinY cfg) / g_CellSize cfg))
         in (cx, cy, cx < sg_numColsX g \<and> cy < sg_numRowsY g)))"

definition cellIndex :: "SpatialGrid \<Rightarrow> real \<Rightarrow> real \<Rightarrow> nat option" where
  "cellIndex g x y =
     (let cfg = sg_config g in
      if \<not> in_bounds cfg x y then None
      else
        (let cx = nat (go_trunc ((x - g_MinX cfg) / g_CellSize cfg));
             cy = nat (go_trunc ((y - g_MinY cfg) / g_CellSize cfg))
         in if cx \<ge> sg_numColsX g \<or> cy \<ge> sg_numRowsY g then None else Some (cx * sg_numRowsY g + cy)))"

definition cell_add :: "Point3D \<Rightarrow> GridCell \<Rightarrow> GridCell" where
  "cell_add p c =
     c\<lparr>gc_Points := gc_Points c @ [p], gc_HasData := True,
       gc_MinDepth := (case gc_MinDepth c of None \<Rightarrow> Some (q_Depth p)
                       | Some d \<Rightarrow> if q_Depth p < d then Some (q_Depth p) else Some d),
       gc_MaxDepth := (case gc_MaxDepth c of None \<Rightarrow> Some (q_Depth p)
                       | Some d \<Rightarrow> if q_Depth p > d then Some (q_Depth p) else Some d)\<rparr>"

definition grid_AddPoint :: "SpatialGrid \<Rightarrow> Point3D \<Rightarrow> SpatialGrid \<times> bool" where
  "grid_AddPoint g p =
     (case cellIndex g (q_X p) (q_Y p) of
        None \<Rightarrow> (g, False)
      | Some idx \<Rightarrow> (g\<lparr>sg_cells := (sg_cells g)[idx := cell_add p (sg_cells g ! idx)]\<rparr>, True))"

definition AddPoints :: "SpatialGrid \<Rightarrow> Point3D list \<Rightarrow> SpatialGrid \<times> nat" where
  "AddPoints g points =
     foldl (\<lambda>(g, count) p. case grid_AddPoint g p of (g', ok) \<Rightarrow> (g', if ok then count + 1 else count))
       (g, 0) points"

section \<open>Statistics\<close>

definition cell_statistics :: "int \<Rightarrow> GridCell \<Rightarrow> GridCell" where
  "cell_statistics minPoints c =
     (if gc_Points c = [] then c\<lparr>gc_HasData := False, gc_IsVoid := True\<rparr>
      else
        (let s = foldl (\<lambda>acc p. acc + q_Depth p) 0 (gc_Points c);
             c1 = c\<lparr>gc_AvgDepth := s / real (length (gc_Points c)),
                    gc_HasData := int (length (gc_Points c)) \<ge> minPoints\<rparr>
         in c1\<lparr>gc_IsVoid := \<not> gc_HasData c1\<rparr>))"

text \<open>The cells around \<open>(cx, cy)\<close> inside the grid, in the order of the loops.\<close>

definition around :: "nat \<Rightarrow> nat \<Rightarrow> int \<Rightarrow> nat \<Rightarrow> nat \<Rightarrow> (nat \<times> nat) list" where
  "around cols rows radius cx cy =
     map (\<lambda>(nx, ny). (nat nx, nat ny))
       (filter (\<lambda>(nx, ny). nx \<ge> 0 \<and> nx < int cols \<and> ny \<ge> 0 \<and> ny < int rows)
          (map (\<lambda>(dx, dy). (int cx + dx, int cy + dy)) (List.product [- radius..radius] [- radius..radius])))"

definition has_neighbor :: "(GridCell \<Rightarrow> bool) \<Rightarrow> nat \<Rightarrow> nat \<Rightarrow> GridCell list \<Rightarrow> nat \<Rightarrow> nat \<Rightarrow> bool" where
  "has_neighbor P cols rows cells cx cy =
     list_ex (\<lambda>(nx, ny). (nx, ny) \<noteq> (cx, cy) \<and> P (cells ! (nx * rows + ny))) (around cols rows 1 cx cy)"

definition mark_void :: "nat \<Rightarrow> nat \<Rightarrow> GridCell list \<Rightarrow> nat \<times> nat \<Rightarrow> GridCell list" where
  "mark_void cols rows cells = (\<lambda>(cx, cy).
     (let idx = cx * rows + cy; c = cells ! idx in
      if \<not> gc_IsVoid c then cells
      else if has_neighbor gc_HasData cols rows cells cx cy then cells[idx := c\<lparr>gc_IsVoid := True\<rparr>] else cells))"

definition mark_edge :: "nat \<Rightarrow> nat \<Rightarrow> GridCell list \<Rightarrow> nat \<times> nat \<Rightarrow> GridCell list" where
  "mark_edge cols rows cells = (\<lambda>(cx, cy).
     (let idx = cx * rows + cy; c = cells ! idx in
      if \<not> gc_HasData c then cells
      else cells[idx := c\<lparr>gc_IsEdge := has_neighbor gc_IsVoid cols rows cells cx cy\<rparr>]))"

definition ComputeStatistics :: "SpatialGrid \<Rightarrow> SpatialGrid" where
  "ComputeStatistics g =
     (let cols = sg_numColsX g; rows = sg_numRowsY g;
          cells1 = map (cell_statistics (g_MinPointsPerCell (sg_config g))) (sg_cells g);
          cells2 = foldl (mark_void cols rows) cells1 (List.product [0..<cols] [0..<rows]);
          cells3 = foldl (mark_edge cols rows) cells2 (List.product [0..<cols] [0..<rows])
      in g\<lparr>sg_cells := cells3\<rparr>)"

record VoidInfo =
  vi_TotalCells :: nat
  vi_DataCells :: nat
  vi_VoidCells :: nat
  vi_EdgeCells :: nat
  vi_VoidCoveragePct :: real
  vi_EdgeNeighborDist :: real

definition AnalyzeVoids :: "SpatialGrid \<Rightarrow> VoidInfo" where
  "AnalyzeVoids g =
     (let cells = sg_cells g; total = length cells; voids = length (filter gc_IsVoid cells) in
      \<lparr>vi_TotalCells = total, vi_DataCells = length (filter gc_HasData cells), vi_VoidCells = voids,
       vi_EdgeCells = length (filter gc_IsEdge cells),
       vi_VoidCoveragePct = (if total > 0 then real voids / real total * 100 else 0),
       vi_EdgeNeighborDist = 0\<rparr>)"

section \<open>Reading and filling\<close>

definition GetVoidCells :: "SpatialGrid \<Rightarrow> GridCell list" where
  "GetVoidCells g = filter gc_IsVoid (sg_cells g)"

definition cell_samples :: "GridCell \<Rightarrow> SamplePoint list" where
  "cell_samples c = map (\<lambda>p. \<lparr>s_X = q_X p, s_Y = q_Y p, s_Value = q_Depth p\<rparr>) (gc_Points c)"

definition GetEdgePoints :: "SpatialGrid \<Rightarrow> int \<Rightarrow> SamplePoint list" where
  "GetEdgePoints g searchRadius =
     concat (map cell_samples (filter (\<lambda>c. gc_IsEdge c \<and> gc_HasData c) (sg_cells g)))"

definition GetNeighbors :: "SpatialGrid \<Rightarrow> nat \<Rightarrow> nat \<Rightarrow> int \<Rightarrow> SamplePoint list" where
  "GetNeighbors g cx cy radius =
     concat (map (\<lambda>(nx, ny). let c = sg_cells g ! (nx * sg_numRowsY g + ny) in
                    if gc_HasData c then cell_samples c else [])
       (around (sg_numColsX g) (sg_numRowsY g) radius cx cy))"

definition GetCell :: "SpatialGrid \<Rightarrow> nat \<Rightarrow> nat \<Rightarrow> GridCell option" where
  "GetCell g cx cy =
     (if cx \<ge> sg_numColsX g \<or> cy \<ge> sg_numRowsY g then None else Some (sg_cells g ! (cx * sg_numRowsY g + cy)))"

definition SetCellFilled :: "SpatialGrid \<Rightarrow> nat \<Rightarrow> nat \<Rightarrow> Point3D \<Rightarrow> SpatialGrid \<times> bool" where
  "SetCellFilled g cx cy p =
     (case GetCell g cx cy of
        None \<Rightarrow> (g, False)
      | Some c \<Rightarrow>
          (g\<lparr>sg_cells := (sg_cells g)[cx * sg_numRowsY g + cy :=
               c\<lparr>gc_Points := gc_Points c @ [p], gc_HasData := True, gc_IsVoid := False,
                 gc_AvgDepth := q_Depth p, gc_MinDepth := Some (q_Depth p), gc_MaxDepth := Some (q_Depth p)\<rparr>]\<rparr>,
           True))"

definition Bounds :: "SpatialGrid \<Rightarrow> real \<times> real \<times> real \<times> real" where
  "Bounds g = (g_MinX (sg_config g), g_MinY (sg_config g), g_MaxX (sg_config g), g_MaxY (sg_config g))"

definition Dimensions :: "SpatialGrid \<Rightarrow> nat \<times> nat" where
  "Dimensions g = (sg_numColsX g, sg_numRowsY g)"

definition AllPoints :: "SpatialGrid \<Rightarrow> Point3D list" where
  "AllPoints g = concat (map gc_Points (sg_cells g))"

definition cell_point :: "GridCell \<Rightarrow> Point3D" where
  "cell_point c =
     (let p = hd (gc_Points c) in
      \<lparr>q_Latitude = q_Latitude p, q_Longitude = q_Longitude p, q_Depth = gc_AvgDepth c, q_X = gc_CenterX c,
       q_Y = gc_CenterY c, q_Z = 0, q_Intensity = q_Intensity p, q_TimestampUS = 0, q_PingIndex = 0,
       q_BeamIndex = 0\<rparr>)"

definition InterpolatedPoints :: "SpatialGrid \<Rightarrow> Point3D list" where
  "InterpolatedPoints g =
     map cell_point (filter (\<lambda>c. gc_HasData c \<and> gc_Points c \<noteq> []) (sg_cells g))"

end
