(* ===== verification/Linear_Solver.thy ===== *)
theory Linear_Solver
  imports Gateway_Prelude
begin

text \<open>
  \<open>solveLinearSystem\<close> of \<open>internal/kriging/solver.go\<close>: Gauss-Jordan elimination with partial
  pivoting on an augmented matrix in one slice, row after row. The \<open>float64\<close> entries are exact
  reals. Every loop over rows or columns is a fold over its index range; the lemmas read the
  slice as a matrix and state each loop pointwise.
\<close>

section \<open>The code\<close>

definition MatrixTolerance :: real where
  "MatrixTolerance = 1 / 10 ^ 12"

text \<open>Entry \<open>(i, j)\<close> of the augmented matrix of an \<open>n\<close>-row system.\<close>

definition entry :: "nat \<Rightarrow> real list \<Rightarrow> nat \<Rightarrow> nat \<Rightarrow> real" where
  "entry n aug i j = aug ! (i * (n + 1) + j)"

definition set_entry :: "nat \<Rightarrow> real list \<Rightarrow> nat \<Rightarrow> nat \<Rightarrow> real \<Rightarrow> real list" where
  "set_entry n aug i j x = aug[i * (n + 1) + j := x]"

definition augment :: "real list \<Rightarrow> real list \<Rightarrow> nat \<Rightarrow> real list" where
  "augment A b n = concat (map (\<lambda>i. sub_slice (i * n) (i * n + n) A @ [b ! i]) [0..<n])"

text \<open>The row of the largest absolute value in a column, from the diagonal down.\<close>

definition find_pivot :: "nat \<Rightarrow> real list \<Rightarrow> nat \<Rightarrow> nat \<times> real" where
  "find_pivot n aug col =
     foldl (\<lambda>(maxRow, maxVal) row.
              let val = \<bar>entry n aug row col\<bar> in if val > maxVal then (row, val) else (maxRow, maxVal))
       (col, \<bar>entry n aug col col\<bar>) [Suc col..<n]"

definition swap_rows :: "nat \<Rightarrow> nat \<Rightarrow> nat \<Rightarrow> real list \<Rightarrow> real list" where
  "swap_rows n a b aug =
     foldl (\<lambda>M j. set_entry n (set_entry n M a j (entry n M b j)) b j (entry n M a j)) aug [0..<Suc n]"

definition scale_row :: "nat \<Rightarrow> nat \<Rightarrow> real list \<Rightarrow> real list" where
  "scale_row n col aug =
     (let pivot = entry n aug col col in
      foldl (\<lambda>M j. set_entry n M col j (entry n M col j / pivot)) aug [col..<Suc n])"

definition eliminate_row :: "nat \<Rightarrow> nat \<Rightarrow> nat \<Rightarrow> real list \<Rightarrow> real list" where
  "eliminate_row n col row aug =
     (let factor = entry n aug row col in
      foldl (\<lambda>M j. set_entry n M row j (entry n M row j - factor * entry n M col j)) aug [col..<Suc n])"

definition eliminate_column :: "nat \<Rightarrow> nat \<Rightarrow> real list \<Rightarrow> real list" where
  "eliminate_column n col aug =
     foldl (\<lambda>M row. if row = col then M else eliminate_row n col row M) aug [0..<n]"

text \<open>One column of the outer loop; the error is the column whose pivot is too small.\<close>

definition solve_column :: "nat \<Rightarrow> nat \<Rightarrow> real list \<Rightarrow> nat + real list" where
  "solve_column n col aug =
     (case find_pivot n aug col of (maxRow, maxVal) \<Rightarrow>
        if maxVal < MatrixTolerance then Inl col
        else
          (let aug1 = (if maxRow \<noteq> col then swap_rows n col maxRow aug else aug)
           in Inr (eliminate_column n col (scale_row n col aug1))))"

fun solve_columns :: "nat \<Rightarrow> nat list \<Rightarrow> real list \<Rightarrow> nat + real list" where
  "solve_columns n [] aug = Inr aug"
| "solve_columns n (col # cols) aug =
     (case solve_column n col aug of Inl e \<Rightarrow> Inl e | Inr aug' \<Rightarrow> solve_columns n cols aug')"

definition solveLinearSystem :: "real list \<Rightarrow> real list \<Rightarrow> nat \<Rightarrow> nat + real list" where
  "solveLinearSystem A b n =
     (case solve_columns n [0..<n] (augment A b n) of
        Inl e \<Rightarrow> Inl e
      | Inr aug \<Rightarrow> Inr (map (\<lambda>i. entry n aug i n) [0..<n]))"

section \<open>The slice as a matrix\<close>

definition fits :: "nat \<Rightarrow> real list \<Rightarrow> bool" where
  "fits n aug \<longleftrightarrow> length aug = n * (n + 1)"

lemma index_less: "i < n \<Longrightarrow> j \<le> n \<Longrightarrow> i * (n + 1) + j < n * (n + (1 :: nat))"
proof -
  assume "i < n" "j \<le> n"
  then have "i * (n + 1) + j < Suc i * (n + 1)" by simp
  also have "\<dots> \<le> n * (n + 1)" using \<open>i < n\<close> by (intro mult_le_mono1) simp
  finally show ?thesis .
qed

lemma index_eq: "j \<le> n \<Longrightarrow> l \<le> n \<Longrightarrow> i * (n + 1) + j = k * (n + (1 :: nat)) + l \<longleftrightarrow> i = k \<and> j = l"
proof
  assume le: "j \<le> n" "l \<le> n" and eq: "i * (n + 1) + j = k * (n + 1) + l"
  have "(i * (n + 1) + j) div (n + 1) = i" "(k * (n + 1) + l) div (n + 1) = k"
    using le by (simp_all only: div_mult_self3) simp_all
  with eq show "i = k \<and> j = l" by auto
qed simp

lemma entry_update:
  assumes "fits n M" and "i < n" and "j \<le> n" and "k < n" and "l \<le> n"
  shows "entry n (set_entry n M i j x) k l = (if k = i \<and> l = j then x else entry n M k l)"
  using assms index_less [of i n j] index_eq [of j n l i k] 
  by (auto simp: entry_def set_entry_def fits_def nth_list_update)

lemma fits_update [simp]: "fits n (set_entry n M i j x) = fits n M"
  by (simp add: fits_def set_entry_def)

lemma fits_foldl:
  "(\<And>M j. fits n (f M j) = fits n M) \<Longrightarrow> fits n (foldl f M js) = fits n M"
  by (induction js arbitrary: M) auto

lemma fits_steps [simp]:
  "fits n (swap_rows n a b M) = fits n M" "fits n (scale_row n c M) = fits n M"
  "fits n (eliminate_row n c r M) = fits n M" "fits n (eliminate_column n c M) = fits n M"
proof -
  show row: "fits n (eliminate_row n c r M) = fits n M" for r M
    by (simp add: eliminate_row_def Let_def fits_foldl)
  show "fits n (eliminate_column n c M) = fits n M"
    by (simp add: eliminate_column_def row fits_foldl)
qed (simp_all add: swap_rows_def scale_row_def Let_def fits_foldl)

text \<open>The loops, entry by entry.\<close>

lemma entry_swap_rows:
  assumes "fits n M" and "a < n" and "b < n" and "k < n" and "l \<le> n"
  shows "entry n (swap_rows n a b M) k l = entry n M (if k = a then b else if k = b then a else k) l"
proof -
  define step where "step = (\<lambda>M j. set_entry n (set_entry n M a j (entry n M b j)) b j (entry n M a j))"
  have "entry n (foldl step M [0..<m]) k l
      = (if l < m then entry n M (if k = a then b else if k = b then a else k) l else entry n M k l)"
    if "m \<le> Suc n" "k < n" "l \<le> n" for m k l
    using that
  proof (induction m arbitrary: k l)
    case (Suc m)
    have "fits n (foldl step M [0..<m])"
      using assms(1) by (simp add: step_def fits_foldl)
    with Suc assms(2,3) show ?case
      by (auto simp: step_def entry_update)
  qed simp
  from this [of "Suc n"] assms(4,5) show ?thesis
    by (simp add: swap_rows_def step_def)
qed

lemma entry_scale_row:
  assumes "fits n M" and "c < n" and "k < n" and "l \<le> n"
  shows "entry n (scale_row n c M) k l
           = (if k = c \<and> c \<le> l then entry n M c l / entry n M c c else entry n M k l)"
proof -
  define p step where "p = entry n M c c" and "step = (\<lambda>M j. set_entry n M c j (entry n M c j / p))"
  have "entry n (foldl step M [c..<m]) k l
      = (if k = c \<and> c \<le> l \<and> l < m then entry n M c l / p else entry n M k l)"
    if "c \<le> m" "m \<le> Suc n" "k < n" "l \<le> n" for m k l
    using that
  proof (induction m arbitrary: k l rule: nat_induct_at_least)
    case (Suc m)
    have "fits n (foldl step M [c..<m])"
      using assms(1) by (simp add: step_def fits_foldl)
    with Suc assms(2) show ?case
      by (auto simp: step_def entry_update less_Suc_eq)
  qed simp
  from this [of "Suc n"] assms(2-4) show ?thesis
    by (simp add: scale_row_def Let_def step_def p_def)
qed

lemma entry_eliminate_row:
  assumes "fits n M" and "c < n" and "r < n" and "r \<noteq> c" and "k < n" and "l \<le> n"
  shows "entry n (eliminate_row n c r M) k l
           = (if k = r \<and> c \<le> l then entry n M r l - entry n M r c * entry n M c l else entry n M k l)"
proof -
  define f step where "f = entry n M r c"
    and "step = (\<lambda>M j. set_entry n M r j (entry n M r j - f * entry n M c j))"
  have "entry n (foldl step M [c..<m]) k l
      = (if k = r \<and> c \<le> l \<and> l < m then entry n M r l - f * entry n M c l else entry n M k l)"
    if "c \<le> m" "m \<le> Suc n" "k < n" "l \<le> n" for m k l
    using that
  proof (induction m arbitrary: k l rule: nat_induct_at_least)
    case (Suc m)
    have "fits n (foldl step M [c..<m])"
      using assms(1) by (simp add: step_def fits_foldl)
    with Suc assms(2-4) show ?case
      by (auto simp: step_def entry_update less_Suc_eq)
  qed simp
  from this [of "Suc n"] assms(2,5,6) show ?thesis
    by (simp add: eliminate_row_def Let_def step_def f_def)
qed

lemma entry_eliminate_column:
  assumes "fits n M" and "c < n" and "k < n" and "l \<le> n"
  shows "entry n (eliminate_column n c M) k l
           = (if k \<noteq> c \<and> c \<le> l then entry n M k l - entry n M k c * entry n M c l else entry n M k l)"
proof -
  define step where "step = (\<lambda>M r. if r = c then M else eliminate_row n c r M)"
  have "entry n (foldl step M [0..<m]) k l
      = (if k < m \<and> k \<noteq> c \<and> c \<le> l then entry n M k l - entry n M k c * entry n M c l else entry n M k l)"
    if "m \<le> n" "k < n" "l \<le> n" for m k l
    using that
  proof (induction m arbitrary: k l)
    case (Suc m)
    have "fits n (foldl step M [0..<m])"
      using assms(1) by (simp add: step_def fits_foldl)
    with Suc assms(2) show ?case
      by (cases "m = c") (auto simp: step_def entry_eliminate_row less_Suc_eq)
  qed simp
  from this [of n] assms(3,4) show ?thesis
    by (simp add: eliminate_column_def step_def)
qed

section \<open>Elimination keeps the solutions\<close>

definition residual :: "nat \<Rightarrow> real list \<Rightarrow> nat \<Rightarrow> (nat \<Rightarrow> real) \<Rightarrow> real" where
  "residual n M i x = (\<Sum>j<n. entry n M i j * x j) - entry n M i n"

definition solves :: "nat \<Rightarrow> real list \<Rightarrow> (nat \<Rightarrow> real) \<Rightarrow> bool" where
  "solves n M x \<longleftrightarrow> (\<forall>i<n. residual n M i x = 0)"

text \<open>The first \<open>c\<close> columns are those of the identity.\<close>

definition reduced :: "nat \<Rightarrow> nat \<Rightarrow> real list \<Rightarrow> bool" where
  "reduced n c M \<longleftrightarrow> (\<forall>i<n. \<forall>j<c. entry n M i j = (if i = j then 1 else 0))"

text \<open>A row that is a combination of two others has the combination of their residuals.\<close>

lemma residual_combine:
  assumes "\<And>j. j \<le> n \<Longrightarrow> entry n M' i j = a * entry n M k j + b * entry n M c j"
  shows "residual n M' i x = a * residual n M k x + b * residual n M c x"
  using assms
  by (simp add: residual_def algebra_simps sum.distrib sum_distrib_left)

lemma find_pivot_row:
  assumes "col < n" and "find_pivot n M col = (r, v)"
  shows "col \<le> r \<and> r < n \<and> v = \<bar>entry n M r col\<bar>"
proof -
  let ?P = "\<lambda>(r, v). col \<le> r \<and> r < n \<and> v = \<bar>entry n M r col\<bar>"
  have "?P (find_pivot n M col)"
    unfolding find_pivot_def
    by (rule foldl_invar [where P = ?P]) (use assms(1) in \<open>auto simp: Let_def split: if_splits\<close>)
  with assms(2) show ?thesis by simp
qed

lemma swap_keeps:
  assumes "fits n M" and "c < n" and "r < n" and "c \<le> r" and "reduced n c M"
  shows "reduced n c (swap_rows n c r M)" and "solves n (swap_rows n c r M) x = solves n M x"
    and "entry n (swap_rows n c r M) c c = entry n M r c"
proof -
  let ?p = "\<lambda>k. if k = c then r else if k = r then c else k"
  note entry = entry_swap_rows [OF assms(1-3)]
  show "reduced n c (swap_rows n c r M)"
    using assms by (auto simp: reduced_def entry)
  have res: "residual n (swap_rows n c r M) k x = residual n M (?p k) x" if "k < n" for k
    using that by (simp add: residual_def entry)
  show "solves n (swap_rows n c r M) x = solves n M x"
  proof
    assume "solves n (swap_rows n c r M) x"
    moreover have "?p k < n \<and> ?p (?p k) = k" if "k < n" for k
      using that assms(2,3) by auto
    ultimately show "solves n M x"
      unfolding solves_def by (metis res)
  next
    assume "solves n M x"
    with res assms(2,3) show "solves n (swap_rows n c r M) x"
      by (auto simp: solves_def)
  qed
  show "entry n (swap_rows n c r M) c c = entry n M r c"
    using assms(2) by (simp add: entry)
qed

lemma scale_keeps:
  assumes "fits n M" and "c < n" and "reduced n c M" and "entry n M c c \<noteq> 0"
  shows "reduced n c (scale_row n c M)" and "solves n (scale_row n c M) x = solves n M x"
    and "entry n (scale_row n c M) c c = 1"
proof -
  note entry = entry_scale_row [OF assms(1,2)]
  show "reduced n c (scale_row n c M)"
    using assms(2,3) by (auto simp: reduced_def entry)
  have zero: "l < c \<Longrightarrow> entry n M c l = 0" for l
    using assms(2,3) by (simp add: reduced_def)
  have c: "residual n (scale_row n c M) c x = (1 / entry n M c c) * residual n M c x + 0 * residual n M c x"
    using assms(2) zero by (intro residual_combine) (auto simp: entry)
  have other: "residual n (scale_row n c M) k x = residual n M k x" if "k < n" "k \<noteq> c" for k
    using that by (simp add: residual_def entry)
  show "solves n (scale_row n c M) x = solves n M x"
    using c other assms(2,4) by (fastforce simp: solves_def)
  show "entry n (scale_row n c M) c c = 1"
    using assms(2,4) by (simp add: entry)
qed

lemma eliminate_keeps:
  assumes "fits n M" and "c < n" and "reduced n c M" and "entry n M c c = 1"
  shows "reduced n (Suc c) (eliminate_column n c M)"
    and "solves n (eliminate_column n c M) x = solves n M x"
proof -
  note entry = entry_eliminate_column [OF assms(1,2)]
  show "reduced n (Suc c) (eliminate_column n c M)"
    using assms by (auto simp: reduced_def entry less_Suc_eq)
  have zero: "l < c \<Longrightarrow> entry n M c l = 0" for l
    using assms(2,3) by (simp add: reduced_def)
  have other: "residual n (eliminate_column n c M) k x
      = 1 * residual n M k x + (- entry n M k c) * residual n M c x" if "k < n" "k \<noteq> c" for k
    using that zero by (intro residual_combine) (auto simp: entry not_le)
  have c: "residual n (eliminate_column n c M) c x = residual n M c x"
    using assms(2) by (simp add: residual_def entry)
  show "solves n (eliminate_column n c M) x = solves n M x"
  proof
    assume s: "solves n (eliminate_column n c M) x"
    then have "residual n M c x = 0"
      using c assms(2) by (simp add: solves_def)
    with s other show "solves n M x"
      by (force simp: solves_def)
  next
    assume "solves n M x"
    with other c assms(2) show "solves n (eliminate_column n c M) x"
      by (force simp: solves_def)
  qed
qed

lemma solve_column_keeps:
  assumes "fits n M" and "c < n" and "reduced n c M" and "solve_column n c M = Inr M'"
  shows "fits n M' \<and> reduced n (Suc c) M' \<and> solves n M' x = solves n M x"
proof -
  obtain r v where pivot: "find_pivot n M c = (r, v)"
    by (cases "find_pivot n M c")
  note row = find_pivot_row [OF assms(2) pivot]
  let ?M1 = "if r \<noteq> c then swap_rows n c r M else M"
  have v: "MatrixTolerance \<le> v" and M': "M' = eliminate_column n c (scale_row n c ?M1)"
    using assms(4) pivot by (auto simp: solve_column_def Let_def split: if_splits)
  have "entry n M r c \<noteq> 0"
    using v row by (auto simp: MatrixTolerance_def)
  then have M1: "fits n ?M1" "reduced n c ?M1" "solves n ?M1 x = solves n M x" "entry n ?M1 c c \<noteq> 0"
    using assms(1-3) row swap_keeps [of n M c r] by auto
  note scale = scale_keeps [OF M1(1) assms(2) M1(2,4)]
  have "fits n (scale_row n c ?M1)"
    using M1(1) by simp
  from eliminate_keeps [OF this assms(2) scale(1,3)] M1(1,3) scale(2) show ?thesis
    by (simp add: M')
qed

lemma solve_columns_keep:
  assumes "fits n M" and "c + m \<le> n" and "reduced n c M" and "solve_columns n [c..<c + m] M = Inr M'"
  shows "fits n M' \<and> reduced n (c + m) M' \<and> solves n M' x = solves n M x"
  using assms
proof (induction m arbitrary: c M)
  case (Suc m)
  have split: "[c..<c + Suc m] = c # [Suc c..<Suc c + m]"
    by (simp add: upt_conv_Cons)
  obtain M1 where M1: "solve_column n c M = Inr M1" "solve_columns n [Suc c..<Suc c + m] M1 = Inr M'"
    using Suc.prems(4) unfolding split by (auto split: sum.splits)
  have "fits n M1 \<and> reduced n (Suc c) M1 \<and> solves n M1 x = solves n M x"
    using Suc.prems M1(1) by (intro solve_column_keeps) auto
  with Suc.IH [of M1 "Suc c"] M1(2) Suc.prems(2) show ?case by simp
qed simp

section \<open>What the solver returns\<close>

lemma augment_entries:
  assumes "length A = n * n" and "length b = n"
  shows "fits n (augment A b n)"
    and "i < n \<Longrightarrow> j < n \<Longrightarrow> entry n (augment A b n) i j = A ! (i * n + j)"
    and "i < n \<Longrightarrow> entry n (augment A b n) i n = b ! i"
proof -
  let ?row = "\<lambda>i. sub_slice (i * n) (i * n + n) A @ [b ! i]"
  have bound: "i * n + n \<le> n * n" if "i < n" for i
    using mult_le_mono1 [of "Suc i" n n] that by simp
  have len: "length (?row i) = n + 1" if "i < n" for i
    using assms(1) bound [OF that] by (simp add: length_slice)
  then show "fits n (augment A b n)"
    by (simp add: fits_def augment_def length_concat_rows)
  show "i < n \<Longrightarrow> j < n \<Longrightarrow> entry n (augment A b n) i j = A ! (i * n + j)"
    using nth_concat_rows [of n ?row "n + 1" i j] len bound [of i] assms(1)
    by (simp add: entry_def augment_def nth_append sub_slice_def)
  show "i < n \<Longrightarrow> entry n (augment A b n) i n = b ! i"
    using nth_concat_rows [of n ?row "n + 1" i n] len bound [of i] assms(1)
    by (simp add: entry_def augment_def nth_append length_slice min_def)
qed

lemma solver_unique:
  assumes "length A = n * n" and "length b = n" and "solveLinearSystem A b n = Inr x"
  shows "length x = n \<and> ((\<forall>i<n. (\<Sum>j<n. A ! (i * n + j) * y j) = b ! i) \<longleftrightarrow> (\<forall>i<n. y i = x ! i))"
proof -
  let ?M = "augment A b n"
  note M = augment_entries [OF assms(1,2)]
  obtain M' where M': "solve_columns n [0..<0 + n] ?M = Inr M'" and x: "x = map (\<lambda>i. entry n M' i n) [0..<n]"
    using assms(3) by (auto simp: solveLinearSystem_def split: sum.splits)
  have keep: "reduced n n M'" "solves n M' y = solves n ?M y"
    using solve_columns_keep [OF M(1) _ _ M'] by (auto simp: reduced_def)
  have "(\<Sum>j<n. entry n M' i j * y j) = y i" if "i < n" for i
  proof -
    have "(\<Sum>j<n. entry n M' i j * y j) = (\<Sum>j<n. if i = j then y j else 0)"
      using keep(1) that by (intro sum.cong) (auto simp: reduced_def)
    with that show ?thesis by simp
  qed
  then have "solves n M' y \<longleftrightarrow> (\<forall>i<n. y i = x ! i)"
    by (auto simp: solves_def residual_def x)
  with keep(2) M show ?thesis
    by (simp add: solves_def residual_def x)
qed

text \<open>The same with the matrix given as a function.\<close>

lemma solver_unique_matrix:
  assumes "length A = n * n" and "length b = n" and "solveLinearSystem A b n = Inr x"
    and "\<And>i j. i < n \<Longrightarrow> j < n \<Longrightarrow> A ! (i * n + j) = M i j"
  shows "length x = n" and "(\<forall>i<n. (\<Sum>j<n. M i j * y j) = b ! i) \<longleftrightarrow> (\<forall>i<n. y i = x ! i)"
proof -
  have "(\<Sum>j<n. A ! (i * n + j) * y j) = (\<Sum>j<n. M i j * y j)" if "i < n" for i
    using that assms(4) by (intro sum.cong) auto
  with solver_unique [OF assms(1-3), of y]
  show "length x = n" "(\<forall>i<n. (\<Sum>j<n. M i j * y j) = b ! i) \<longleftrightarrow> (\<forall>i<n. y i = x ! i)" by auto
qed

lemma solve_columns_error: "solve_columns n cols M = Inl e \<Longrightarrow> e \<in> set cols"
  by (induction cols arbitrary: M)
    (auto simp: solve_column_def Let_def split: sum.splits prod.splits if_splits)

text \<open>C24. When the solver returns a vector it is the solution of the system, and the only one; so it
  reports an error, with a column of the matrix, for every matrix that has a non-zero kernel.\<close>

theorem solver_solves:
  assumes "length A = n * n" and "length b = n"
  shows "case solveLinearSystem A b n of
           Inl col \<Rightarrow> col < n
         | Inr x \<Rightarrow> length x = n \<and> (\<forall>i<n. (\<Sum>j<n. A ! (i * n + j) * x ! j) = b ! i)
             \<and> (\<forall>y. (\<forall>i<n. (\<Sum>j<n. A ! (i * n + j) * y j) = b ! i) \<longrightarrow> (\<forall>i<n. y i = x ! i))"
proof (cases "solveLinearSystem A b n")
  case (Inl col)
  then show ?thesis
    using solve_columns_error [of n "[0..<n]" "augment A b n" col]
    by (auto simp: solveLinearSystem_def split: sum.splits)
next
  case (Inr x)
  note unique = solver_unique [OF assms Inr]
  from unique [of "\<lambda>j. x ! j"] unique Inr show ?thesis by simp
qed

lemmas solver_eval = solveLinearSystem_def augment_def sub_slice_def solve_column_def find_pivot_def
  swap_rows_def scale_row_def eliminate_column_def eliminate_row_def entry_def set_entry_def
  MatrixTolerance_def upt_conv_Cons Let_def

lemma solver_solves_witness:
  "\<exists>x. solveLinearSystem [0, 2, 4, 1] [6, 9] 2 = Inr x \<and> (\<Sum>j<2. [0, 2, 4, 1] ! (1 * 2 + j) * x ! j) = 9"
proof -
  have "solveLinearSystem [0, 2, 4, 1] [6, 9] 2 = Inr [3 / 2, 3]"
    by (simp add: solver_eval)
  moreover from this solver_solves [of "[0, 2, 4, 1]" 2 "[6, 9]"]
  have "\<forall>i<2. (\<Sum>j<2. [0, 2, 4, 1] ! (i * 2 + j) * [3 / 2, 3] ! j) = [6, 9 :: real] ! i"
    by simp
  from this [rule_format, of 1]
  have "(\<Sum>j<2. [0, 2, 4, 1] ! (1 * 2 + j) * [3 / 2, 3] ! j) = [6, 9 :: real] ! 1"
    by simp
  ultimately show ?thesis by simp
qed

end
