(* ===== verification/Go_Heap.thy ===== *)
theory Go_Heap
  imports Gateway_Prelude "HOL-Library.Multiset"
begin

text \<open>
  Go's \<open>container/heap\<close> as \<open>internal/pointcloud/reorganizer.go\<close> uses it: a binary min-heap in
  a slice, ordered by a key of its elements. \<open>Len\<close>, \<open>Less\<close>, \<open>Swap\<close>, \<open>Push\<close> and \<open>Pop\<close> of
  \<open>FrameHeap\<close> are \<open>length\<close>, the comparison of keys, \<open>heap_swap\<close>, appending and splitting off the
  last element.
\<close>

section \<open>Operations\<close>

definition heap_swap :: "'a list \<Rightarrow> nat \<Rightarrow> nat \<Rightarrow> 'a list" where
  "heap_swap h i j = h[i := h ! j, j := h ! i]"

text \<open>\<open>up\<close>: move the element at \<open>j\<close> towards the root while it is less than its parent.\<close>

function heap_up :: "('a \<Rightarrow> 'k::linorder) \<Rightarrow> 'a list \<Rightarrow> nat \<Rightarrow> 'a list" where
  "heap_up key h j =
     (let i = (j - 1) div 2 in
      if i = j \<or> \<not> key (h ! j) < key (h ! i) then h else heap_up key (heap_swap h i j) i)"
  by pat_completeness auto
termination
  by (relation "measure (\<lambda>(key, h, j). j)") auto

text \<open>The child of \<open>i\<close> with the smaller key, the left one on a tie.\<close>

definition least_child :: "('a \<Rightarrow> 'k::linorder) \<Rightarrow> 'a list \<Rightarrow> nat \<Rightarrow> nat \<Rightarrow> nat" where
  "least_child key h i n =
     (let j1 = 2 * i + 1; j2 = j1 + 1 in if j2 < n \<and> key (h ! j2) < key (h ! j1) then j2 else j1)"

text \<open>
  \<open>down\<close>: move the element at \<open>i\<close> towards the leaves of the first \<open>n\<close> elements while a child
  is less; the index it ends at comes back too.
\<close>

function heap_down :: "('a \<Rightarrow> 'k::linorder) \<Rightarrow> 'a list \<Rightarrow> nat \<Rightarrow> nat \<Rightarrow> 'a list \<times> nat" where
  "heap_down key h i n =
     (if 2 * i + 1 \<ge> n then (h, i)
      else
        (let j = least_child key h i n in
         if \<not> key (h ! j) < key (h ! i) then (h, i) else heap_down key (heap_swap h i j) j n))"
  by pat_completeness auto
termination
  by (relation "measure (\<lambda>(key, h, i, n). n - i)") (auto simp: least_child_def Let_def split: if_splits)

declare heap_up.simps [simp del] heap_down.simps [simp del]

text \<open>\<open>heap.Init\<close>: \<open>down\<close> from the last parent back to the root.\<close>

fun heap_init_from :: "('a \<Rightarrow> 'k::linorder) \<Rightarrow> nat \<Rightarrow> 'a list \<Rightarrow> 'a list" where
  "heap_init_from key 0 h = h"
| "heap_init_from key (Suc i) h = heap_init_from key i (fst (heap_down key h i (length h)))"

definition heap_Init :: "('a \<Rightarrow> 'k::linorder) \<Rightarrow> 'a list \<Rightarrow> 'a list" where
  "heap_Init key h = heap_init_from key (length h div 2) h"

definition heap_Push :: "('a \<Rightarrow> 'k::linorder) \<Rightarrow> 'a list \<Rightarrow> 'a \<Rightarrow> 'a list" where
  "heap_Push key h x = heap_up key (h @ [x]) (length h)"

text \<open>Popping an empty heap swaps out of range.\<close>

definition heap_Pop :: "('a \<Rightarrow> 'k::linorder) \<Rightarrow> 'a list \<Rightarrow> ('a \<times> 'a list) go" where
  "heap_Pop key h =
     (if h = [] then Inl Panic
      else
        (let n = length h - 1; h1 = fst (heap_down key (heap_swap h 0 n) 0 n)
         in Inr (h1 ! n, take n h1)))"

definition heap_Remove :: "('a \<Rightarrow> 'k::linorder) \<Rightarrow> 'a list \<Rightarrow> nat \<Rightarrow> ('a \<times> 'a list) go" where
  "heap_Remove key h i =
     (if length h \<le> i then Inl Panic
      else
        (let n = length h - 1;
             h2 = (if n \<noteq> i then
                     (let (h1, i') = heap_down key (heap_swap h i n) i n
                      in if i' > i then h1 else heap_up key h1 i)
                   else h)
         in Inr (h2 ! n, take n h2)))"

section \<open>Elements are kept\<close>

lemma length_heap_swap [simp]: "length (heap_swap h i j) = length h"
  by (simp add: heap_swap_def)

lemma mset_heap_swap: "i < length h \<Longrightarrow> j < length h \<Longrightarrow> mset (heap_swap h i j) = mset h"
  by (simp add: heap_swap_def mset_swap)

lemma nth_heap_swap:
  "i < length h \<Longrightarrow> j < length h \<Longrightarrow> k < length h \<Longrightarrow>
     heap_swap h i j ! k = (if k = i then h ! j else if k = j then h ! i else h ! k)"
  by (auto simp: heap_swap_def nth_list_update)

lemma heap_up_elems:
  "j < length h \<Longrightarrow> length (heap_up key h j) = length h \<and> mset (heap_up key h j) = mset h
     \<and> (\<forall>k. j < k \<and> k < length h \<longrightarrow> heap_up key h j ! k = h ! k)"
proof (induction key h j rule: heap_up.induct)
  case (1 key h j)
  let ?i = "(j - 1) div 2"
  show ?case
  proof (cases "?i = j \<or> \<not> key (h ! j) < key (h ! ?i)")
    case True
    then show ?thesis by (subst (1 2 3) heap_up.simps) (auto simp: Let_def)
  next
    case False
    have i: "?i < j" using False by auto
    have up: "heap_up key h j = heap_up key (heap_swap h ?i j) ?i"
      using False by (subst heap_up.simps) (simp add: Let_def)
    from "1.IH" [OF refl False] i "1.prems" show ?thesis
      unfolding up by (auto simp: mset_heap_swap nth_heap_swap)
  qed
qed

lemma least_child_bounds:
  "2 * i + 1 < n \<Longrightarrow> i < least_child key h i n" "2 * i + 1 < n \<Longrightarrow> least_child key h i n < n"
  by (auto simp: least_child_def Let_def)

lemma heap_down_stop:
  "n \<le> 2 * i + 1 \<or> \<not> key (h ! least_child key h i n) < key (h ! i) \<Longrightarrow> heap_down key h i n = (h, i)"
  by (subst heap_down.simps) (auto simp: Let_def)

lemma heap_down_step:
  "2 * i + 1 < n \<Longrightarrow> key (h ! least_child key h i n) < key (h ! i) \<Longrightarrow>
     heap_down key h i n = heap_down key (heap_swap h i (least_child key h i n)) (least_child key h i n) n"
  by (subst heap_down.simps) (simp add: Let_def)

lemma heap_down_elems:
  "i < n \<Longrightarrow> n \<le> length h \<Longrightarrow> length (fst (heap_down key h i n)) = length h
     \<and> mset (fst (heap_down key h i n)) = mset h
     \<and> (\<forall>k. n \<le> k \<and> k < length h \<longrightarrow> fst (heap_down key h i n) ! k = h ! k)
     \<and> i \<le> snd (heap_down key h i n) \<and> snd (heap_down key h i n) < n"
proof (induction key h i n rule: heap_down.induct)
  case (1 key h i n)
  let ?j = "least_child key h i n"
  show ?case
  proof (cases "n \<le> 2 * i + 1 \<or> \<not> key (h ! ?j) < key (h ! i)")
    case True
    with "1.prems" show ?thesis by (auto simp: heap_down_stop)
  next
    case False
    then have j: "i < ?j" "?j < n" by (auto intro: least_child_bounds)
    have down: "heap_down key h i n = heap_down key (heap_swap h i ?j) ?j n"
      using False by (simp add: heap_down_step)
    have "length (fst (heap_down key (heap_swap h i ?j) ?j n)) = length (heap_swap h i ?j)
     \<and> mset (fst (heap_down key (heap_swap h i ?j) ?j n)) = mset (heap_swap h i ?j)
     \<and> (\<forall>k. n \<le> k \<and> k < length (heap_swap h i ?j) \<longrightarrow>
          fst (heap_down key (heap_swap h i ?j) ?j n) ! k = heap_swap h i ?j ! k)
     \<and> ?j \<le> snd (heap_down key (heap_swap h i ?j) ?j n) \<and> snd (heap_down key (heap_swap h i ?j) ?j n) < n"
      using False "1.prems" j by (intro "1.IH" [OF _ refl]) auto
    with down j "1.prems" show ?thesis
      by (auto simp: mset_heap_swap nth_heap_swap)
  qed
qed

section \<open>Heap order\<close>

text \<open>The edge into \<open>k\<close> is in order, and so are all edges among the first \<open>n\<close> elements.\<close>

definition edge :: "('a \<Rightarrow> 'k::linorder) \<Rightarrow> 'a list \<Rightarrow> nat \<Rightarrow> bool" where
  "edge key h k \<longleftrightarrow> key (h ! ((k - 1) div 2)) \<le> key (h ! k)"

definition heap_ord :: "('a \<Rightarrow> 'k::linorder) \<Rightarrow> 'a list \<Rightarrow> nat \<Rightarrow> bool" where
  "heap_ord key h n \<longleftrightarrow> (\<forall>k. 0 < k \<and> k < n \<longrightarrow> edge key h k)"

text \<open>Each child of \<open>j\<close> is at least \<open>j\<close>'s parent.\<close>

definition bridged :: "('a \<Rightarrow> 'k::linorder) \<Rightarrow> 'a list \<Rightarrow> nat \<Rightarrow> nat \<Rightarrow> bool" where
  "bridged key h n j \<longleftrightarrow>
     (0 < j \<longrightarrow> (\<forall>k. 0 < k \<and> k < n \<and> (k - 1) div 2 = j \<longrightarrow> key (h ! ((j - 1) div 2)) \<le> key (h ! k)))"

lemma heap_ord_min:
  assumes "heap_ord key h n" and "k < n"
  shows "key (h ! 0) \<le> key (h ! k)"
  using assms(2)
proof (induction k rule: less_induct)
  case (less k)
  show ?case
  proof (cases "k = 0")
    case False
    then have "key (h ! 0) \<le> key (h ! ((k - 1) div 2))"
      using less by (intro less.IH) auto
    also have "\<dots> \<le> key (h ! k)"
      using assms(1) less.prems False by (simp add: heap_ord_def edge_def)
    finally show ?thesis .
  qed simp
qed

lemma heap_up_ord:
  assumes "j < n" and "n \<le> length h" and "\<forall>k. 0 < k \<and> k < n \<and> k \<noteq> j \<longrightarrow> edge key h k"
    and "bridged key h n j"
  shows "heap_ord key (heap_up key h j) n"
  using assms
proof (induction key h j rule: heap_up.induct)
  case (1 key h j)
  let ?i = "(j - 1) div 2"
  show ?case
  proof (cases "?i = j \<or> \<not> key (h ! j) < key (h ! ?i)")
    case True
    then have "heap_up key h j = h"
      by (subst heap_up.simps) (auto simp: Let_def)
    moreover have "edge key h k" if "0 < k" "k < n" for k
      using that True "1.prems"(3) by (cases "k = j") (auto simp: edge_def)
    ultimately show ?thesis by (simp add: heap_ord_def)
  next
    case False
    let ?h = "heap_swap h ?i j"
    have i: "?i < j" using False by auto
    have up: "heap_up key h j = heap_up key ?h ?i"
      using False by (subst heap_up.simps) (simp add: Let_def)
    have sw: "?h ! k = (if k = ?i then h ! j else if k = j then h ! ?i else h ! k)" if "k < n" for k
      using that "1.prems"(1,2) i by (intro nth_heap_swap) auto
    have less: "key (h ! j) < key (h ! ?i)" using False by auto
    have edges: "\<forall>k. 0 < k \<and> k < n \<and> k \<noteq> ?i \<longrightarrow> edge key ?h k"
    proof (intro allI impI)
      fix k
      assume k: "0 < k \<and> k < n \<and> k \<noteq> ?i"
      have pk: "(k - 1) div 2 < n" using k by auto
      have e: "k \<noteq> j \<Longrightarrow> key (h ! ((k - 1) div 2)) \<le> key (h ! k)"
        using "1.prems"(3) k by (simp add: edge_def)
      have b: "0 < j \<Longrightarrow> (k - 1) div 2 = j \<Longrightarrow> key (h ! ?i) \<le> key (h ! k)"
        using "1.prems"(4) k by (simp add: bridged_def)
      show "edge key ?h k"
        unfolding edge_def sw [OF pk] sw [OF conjunct1 [OF conjunct2 [OF k]]]
        using e b less k i by (auto split: if_splits intro: less_imp_le order_trans)
    qed
    have "bridged key ?h n ?i"
      unfolding bridged_def
    proof (intro impI allI)
      fix k
      assume pos: "0 < ?i" and k: "0 < k \<and> k < n \<and> (k - 1) div 2 = ?i"
      have "?i < n" "(?i - 1) div 2 < n" "(?i - 1) div 2 \<noteq> ?i" "(?i - 1) div 2 \<noteq> j"
        using i "1.prems"(1) pos by auto
      moreover have "edge key h ?i" and "k \<noteq> j \<Longrightarrow> edge key h k"
        using "1.prems"(3) pos i k \<open>?i < n\<close> by auto
      moreover have "k \<noteq> ?i"
      proof
        assume "k = ?i"
        moreover have "(?i - 1) div 2 < ?i" using pos by simp
        ultimately show False using k by simp
      qed
      ultimately show "key (?h ! ((?i - 1) div 2)) \<le> key (?h ! k)"
        using sw [of "(?i - 1) div 2"] sw [of k] k by (auto simp: edge_def intro: order_trans)
    qed
    with edges show ?thesis
      unfolding up using i "1.prems"(1,2) by (intro "1.IH" [OF refl False]) auto
  qed
qed

lemma least_child_parent: "(least_child key h i n - 1) div 2 = i"
  by (auto simp: least_child_def Let_def)

lemma least_child_le:
  assumes "0 < k" and "k < n" and "(k - 1) div 2 = i"
  shows "key (h ! least_child key h i n) \<le> key (h ! k)"
proof -
  have "k = 2 * i + 1 \<or> k = 2 * i + 2"
    using assms by auto
  with assms(2) show ?thesis
    by (auto simp: least_child_def Let_def)
qed

text \<open>
  One step of \<open>down\<close> repairs the edges around \<open>i\<close> and leaves only those below the child
  in doubt; the edge into \<open>i\<close> need not have been in order.
\<close>

lemma heap_down_one:
  assumes n: "n \<le> length h" "2 * i + 1 < n" and less: "key (h ! least_child key h i n) < key (h ! i)"
    and edges: "\<forall>k. 0 < k \<and> k < n \<and> k \<noteq> i \<and> (k - 1) div 2 \<noteq> i \<longrightarrow> edge key h k"
    and bridge: "bridged key h n i"
  defines "j \<equiv> least_child key h i n" and "h' \<equiv> heap_swap h i (least_child key h i n)"
  shows "(\<forall>k. 0 < k \<and> k < n \<and> (k - 1) div 2 \<noteq> j \<longrightarrow> edge key h' k) \<and> bridged key h' n j"
proof
  have j: "i < j" "j < n" "(j - 1) div 2 = i"
    unfolding j_def using least_child_bounds [OF n(2)] least_child_parent by blast+
  have sw: "h' ! k = (if k = i then h ! j else if k = j then h ! i else h ! k)" if "k < n" for k
    using that n j unfolding h'_def j_def by (intro nth_heap_swap) auto
  have lt: "key (h ! j) < key (h ! i)" using less by (simp add: j_def)
  show "\<forall>k. 0 < k \<and> k < n \<and> (k - 1) div 2 \<noteq> j \<longrightarrow> edge key h' k"
  proof (intro allI impI)
    fix k
    assume k: "0 < k \<and> k < n \<and> (k - 1) div 2 \<noteq> j"
    have p: "(k - 1) div 2 < n" "(k - 1) div 2 < k" using k by auto
    consider (into) "k = i" | (from_i) "(k - 1) div 2 = i" | (other) "k \<noteq> i" "(k - 1) div 2 \<noteq> i"
      by blast
    then show "edge key h' k"
    proof cases
      case into
      then have "key (h ! ((k - 1) div 2)) \<le> key (h ! j)"
        using bridge k j by (simp add: bridged_def)
      then show ?thesis
        using into k p by (simp add: edge_def sw)
    next
      case from_i
      then have "key (h ! j) \<le> key (h ! k)"
        unfolding j_def using k by (intro least_child_le) auto
      then show ?thesis
        using from_i k p lt by (auto simp: edge_def sw intro: less_imp_le)
    next
      case other
      moreover have "k \<noteq> j" using other j(3) by auto
      ultimately show ?thesis
        using edges k p by (simp add: edge_def sw)
    qed
  qed
  show "bridged key h' n j"
    unfolding bridged_def
  proof (intro impI allI)
    fix k
    assume k: "0 < k \<and> k < n \<and> (k - 1) div 2 = j"
    then have "j < k" by auto
    moreover have "edge key h k"
      using edges k j \<open>j < k\<close> by auto
    ultimately show "key (h' ! ((j - 1) div 2)) \<le> key (h' ! k)"
      using k j by (simp add: edge_def sw)
  qed
qed

lemma heap_down_ord:
  assumes "n \<le> length h" and "i < n" and "\<forall>k. 0 < k \<and> k < n \<and> (k - 1) div 2 \<noteq> i \<longrightarrow> edge key h k"
    and "bridged key h n i"
  shows "heap_ord key (fst (heap_down key h i n)) n"
  using assms
proof (induction key h i n rule: heap_down.induct)
  case (1 key h i n)
  show ?case
  proof (cases "n \<le> 2 * i + 1 \<or> \<not> key (h ! least_child key h i n) < key (h ! i)")
    case True
    have "edge key h k" if "0 < k" "k < n" for k
    proof (cases "(k - 1) div 2 = i")
      case below: True
      then have "2 * i + 1 < n" using that by auto
      with True below that least_child_le [of k n i key h] show ?thesis
        by (auto simp: edge_def not_less)
    next
      case False
      with that "1.prems"(3) show ?thesis by blast
    qed
    with True show ?thesis by (simp add: heap_down_stop heap_ord_def)
  next
    case False
    let ?j = "least_child key h i n"
    have pre: "(\<forall>k. 0 < k \<and> k < n \<and> (k - 1) div 2 \<noteq> ?j \<longrightarrow> edge key (heap_swap h i ?j) k)
        \<and> bridged key (heap_swap h i ?j) n ?j"
      using False "1.prems" by (intro heap_down_one) auto
    have j: "?j < n" using False by (intro least_child_bounds) auto
    have down: "heap_down key h i n = heap_down key (heap_swap h i ?j) ?j n"
      using False by (intro heap_down_step) auto
    show ?thesis
      unfolding down using False pre j "1.prems"(1) by (intro "1.IH" [OF _ refl]) auto
  qed
qed

section \<open>The heap operations\<close>

lemma heap_Push_ok:
  assumes "heap_ord key h (length h)"
  shows "heap_ord key (heap_Push key h x) (length (heap_Push key h x))
       \<and> mset (heap_Push key h x) = add_mset x (mset h)"
proof -
  have "\<forall>k. 0 < k \<and> k < Suc (length h) \<and> k \<noteq> length h \<longrightarrow> edge key (h @ [x]) k"
    using assms by (auto simp: heap_ord_def edge_def nth_append)
  moreover have "bridged key (h @ [x]) (Suc (length h)) (length h)"
    by (auto simp: bridged_def)
  ultimately have "heap_ord key (heap_up key (h @ [x]) (length h)) (Suc (length h))"
    by (intro heap_up_ord) auto
  with heap_up_elems [of "length h" "h @ [x]" key] show ?thesis
    by (simp add: heap_Push_def)
qed

lemma mset_split_last: "length h = Suc n \<Longrightarrow> mset h = add_mset (h ! n) (mset (take n h))"
  by (metis Suc_eq_plus1 append_take_drop_id Cons_nth_drop_Suc drop_all le_refl lessI mset.simps(2)
      mset_append union_mset_add_mset_right mset.simps(1) add_0_right)

lemma heap_ord_take: "heap_ord key h n \<Longrightarrow> heap_ord key (take n h) n"
  by (auto simp: heap_ord_def edge_def)

lemma heap_Pop_ok:
  assumes ord: "heap_ord key h (length h)" and ne: "h \<noteq> []"
  shows "\<exists>t. heap_Pop key h = Inr (h ! 0, t) \<and> heap_ord key t (length t)
           \<and> mset h = add_mset (h ! 0) (mset t) \<and> length t = length h - 1"
proof -
  define n where "n = length h - 1"
  have len: "length h = Suc n" using ne by (cases h) (auto simp: n_def)
  let ?h = "heap_swap h 0 n" and ?d = "fst (heap_down key (heap_swap h 0 n) 0 n)"
  have d: "length ?d = Suc n" "mset ?d = mset h" "?d ! n = h ! 0" "heap_ord key ?d n"
  proof -
    have sw: "?h ! k = (if k = 0 then h ! n else if k = n then h ! 0 else h ! k)" if "k < Suc n" for k
      using that len by (intro nth_heap_swap) auto
    have m: "mset ?h = mset h" using len by (simp add: mset_heap_swap)
    show "length ?d = Suc n" "mset ?d = mset h" "?d ! n = h ! 0"
      using heap_down_elems [of 0 n ?h key] len m sw [of n]
      by (cases "n = 0"; simp add: heap_down_stop)+
    have "\<forall>k. 0 < k \<and> k < n \<and> (k - 1) div 2 \<noteq> 0 \<longrightarrow> edge key ?h k"
    proof (intro allI impI)
      fix k
      assume k: "0 < k \<and> k < n \<and> (k - 1) div 2 \<noteq> 0"
      then have "(k - 1) div 2 < n" by auto
      with k ord len sw [of k] sw [of "(k - 1) div 2"] show "edge key ?h k"
        by (auto simp: edge_def heap_ord_def)
    qed
    then show "heap_ord key ?d n"
      using len by (cases "n = 0") (auto simp: heap_ord_def [of _ _ 0] bridged_def intro!: heap_down_ord)
  qed
  have "heap_Pop key h = Inr (h ! 0, take n ?d)"
    using ne d(3) by (simp add: heap_Pop_def n_def Let_def)
  with d len heap_ord_take [OF d(4)] mset_split_last [OF d(1)] show ?thesis
    by simp
qed

text \<open>
  \<open>heap.Remove\<close>: the last element takes the place at \<open>i\<close> and moves down, or up if it did not.
\<close>

lemma heap_Remove_ok:
  assumes ord: "heap_ord key h (length h)" and i: "i < length h"
  shows "\<exists>t. heap_Remove key h i = Inr (h ! i, t) \<and> heap_ord key t (length t)
           \<and> mset h = add_mset (h ! i) (mset t) \<and> length t = length h - 1"
proof -
  define n where "n = length h - 1"
  have len: "length h = Suc n" using i by (cases h) (auto simp: n_def)
  show ?thesis
  proof (cases "n = i")
    case True
    have "heap_ord key h n" using ord len by (simp add: heap_ord_def)
    from heap_ord_take [OF this] show ?thesis
      using True len mset_split_last [OF len] by (simp add: heap_Remove_def Let_def)
  next
    case False
    then have in': "i < n" using i len by simp
    let ?h = "heap_swap h i n"
    have sw: "?h ! k = (if k = i then h ! n else if k = n then h ! i else h ! k)" if "k < Suc n" for k
      using that len in' by (intro nth_heap_swap) auto
    have m: "mset ?h = mset h" using len in' by (simp add: mset_heap_swap)
    have edges: "\<forall>k. 0 < k \<and> k < n \<and> k \<noteq> i \<and> (k - 1) div 2 \<noteq> i \<longrightarrow> edge key ?h k"
    proof (intro allI impI)
      fix k
      assume k: "0 < k \<and> k < n \<and> k \<noteq> i \<and> (k - 1) div 2 \<noteq> i"
      then have "(k - 1) div 2 < n" by auto
      with k ord len sw [of k] sw [of "(k - 1) div 2"] show "edge key ?h k"
        by (auto simp: edge_def heap_ord_def)
    qed
    have bridge: "bridged key ?h n i"
      unfolding bridged_def
    proof (intro impI allI)
      fix k
      assume pos: "0 < i" and k: "0 < k \<and> k < n \<and> (k - 1) div 2 = i"
      have "(i - 1) div 2 < i" "i < k" using pos k by auto
      moreover have "key (h ! ((i - 1) div 2)) \<le> key (h ! i)" "key (h ! i) \<le> key (h ! k)"
        using ord len in' pos k by (auto simp: heap_ord_def edge_def)
      ultimately show "key (?h ! ((i - 1) div 2)) \<le> key (?h ! k)"
        using sw [of k] sw [of "(i - 1) div 2"] k in' by auto
    qed
    obtain h1 i' where d: "heap_down key ?h i n = (h1, i')" by (cases "heap_down key ?h i n")
    have d1: "length h1 = Suc n" "mset h1 = mset h" "h1 ! n = h ! i" "i \<le> i'"
      using heap_down_elems [of i n ?h key] d len in' m sw [of n] by auto
    let ?h2 = "if i' > i then h1 else heap_up key h1 i"
    have "heap_ord key ?h2 n \<and> length ?h2 = Suc n \<and> mset ?h2 = mset h \<and> ?h2 ! n = h ! i"
    proof (cases "n \<le> 2 * i + 1 \<or> \<not> key (?h ! least_child key ?h i n) < key (?h ! i)")
      case stop: True
      then have h1: "h1 = ?h" "i' = i" using d heap_down_stop [OF stop] by auto
      have "edge key ?h k" if "0 < k" "k < n" "k \<noteq> i" for k
      proof (cases "(k - 1) div 2 = i")
        case below: True
        then have "2 * i + 1 < n" using that by auto
        with stop below that least_child_le [of k n i key ?h] show ?thesis
          by (auto simp: edge_def not_less)
      next
        case False
        with that edges show ?thesis by blast
      qed
      then have "heap_ord key (heap_up key ?h i) n"
        using in' len bridge by (intro heap_up_ord) auto
      with heap_up_elems [of i ?h key] h1 len in' m sw [of n] show ?thesis by simp
    next
      case False
      let ?j = "least_child key ?h i n"
      have j: "i < ?j" "?j < n" using False by (auto intro: least_child_bounds)
      have down: "heap_down key ?h i n = heap_down key (heap_swap ?h i ?j) ?j n"
        using False by (intro heap_down_step) auto
      have pre: "(\<forall>k. 0 < k \<and> k < n \<and> (k - 1) div 2 \<noteq> ?j \<longrightarrow> edge key (heap_swap ?h i ?j) k)
          \<and> bridged key (heap_swap ?h i ?j) n ?j"
        using False len edges bridge by (intro heap_down_one) auto
      have "heap_ord key (fst (heap_down key (heap_swap ?h i ?j) ?j n)) n"
        using pre j len by (intro heap_down_ord) auto
      moreover have "i < i'"
        using heap_down_elems [of ?j n "heap_swap ?h i ?j" key] j len d down by auto
      ultimately show ?thesis
        using d down d1 by simp
    qed
    moreover have "heap_Remove key h i = Inr (?h2 ! n, take n ?h2)"
      using False i len d by (simp add: heap_Remove_def n_def [symmetric] Let_def)
    ultimately show ?thesis
      using heap_ord_take [of key ?h2 n] mset_split_last [of ?h2 n] len by simp
  qed
qed

section \<open>The contract of a priority queue\<close>

text \<open>
  What the users of the heap rely on, whatever its layout: a view as a multiset, pushing adds
  an element, popping removes one of least key. Popping \<open>n\<close> times lists the elements.
\<close>

fun pops :: "('q \<Rightarrow> ('a \<times> 'q) go) \<Rightarrow> nat \<Rightarrow> 'q \<Rightarrow> 'a list go" where
  "pops pop 0 q = Inr []"
| "pops pop (Suc n) q =
     (case pop q of
        Inl s \<Rightarrow> Inl s
      | Inr (x, q') \<Rightarrow> (case pops pop n q' of Inl s \<Rightarrow> Inl s | Inr xs \<Rightarrow> Inr (x # xs)))"

locale priority_queue =
  fixes ok :: "'q \<Rightarrow> bool" and elems :: "'q \<Rightarrow> 'a multiset" and key :: "'a \<Rightarrow> 'k::linorder"
    and push :: "'q \<Rightarrow> 'a \<Rightarrow> 'q" and pop :: "'q \<Rightarrow> ('a \<times> 'q) go"
  assumes push_ok: "ok q \<Longrightarrow> ok (push q x)"
    and push_elems: "ok q \<Longrightarrow> elems (push q x) = add_mset x (elems q)"
    and pop_law: "ok q \<Longrightarrow> elems q \<noteq> {#} \<Longrightarrow>
      \<exists>x q'. pop q = Inr (x, q') \<and> ok q' \<and> elems q = add_mset x (elems q')
        \<and> (\<forall>y \<in># elems q. key x \<le> key y)"
begin

lemma pops_sorted:
  "ok q \<Longrightarrow> \<exists>xs. pops pop (size (elems q)) q = Inr xs \<and> mset xs = elems q
     \<and> sorted (map key xs)"
proof (induction "size (elems q)" arbitrary: q)
  case 0
  then show ?case by simp
next
  case (Suc n)
  then have "elems q \<noteq> {#}" by auto
  then obtain x q' where pop: "pop q = Inr (x, q')" "ok q'" "elems q = add_mset x (elems q')"
    "\<forall>y \<in># elems q. key x \<le> key y"
    using pop_law [OF Suc.prems] by blast
  then have n: "n = size (elems q')" using Suc.hyps(2) by simp
  obtain xs where xs: "pops pop n q' = Inr xs" "mset xs = elems q'" "sorted (map key xs)"
    using Suc.hyps(1) [OF n pop(2)] n by auto
  have "\<forall>y \<in> set xs. key x \<le> key y"
    using pop(3,4) xs(2) by (metis in_multiset_in_set insert_iff set_mset_add_mset_insert)
  with pop xs n show ?case by auto
qed

end

text \<open>The heap in a slice is a priority queue.\<close>

interpretation go_heap:
  priority_queue "\<lambda>h. heap_ord key h (length h)" mset key "heap_Push key" "heap_Pop key"
  for key :: "'a \<Rightarrow> 'k::linorder"
proof
  fix h :: "'a list" and x
  assume ord: "heap_ord key h (length h)"
  show "heap_ord key (heap_Push key h x) (length (heap_Push key h x))"
    and "mset (heap_Push key h x) = add_mset x (mset h)"
    using heap_Push_ok [OF ord] by simp_all
next
  fix h :: "'a list"
  assume ord: "heap_ord key h (length h)" and "mset h \<noteq> {#}"
  then have "h \<noteq> []" by auto
  from heap_Pop_ok [OF ord this] heap_ord_min [OF ord]
  show "\<exists>x q'. heap_Pop key h = Inr (x, q') \<and> heap_ord key q' (length q')
      \<and> mset h = add_mset x (mset q') \<and> (\<forall>y \<in># mset h. key x \<le> key y)"
    by (metis in_set_conv_nth set_mset_mset)
qed

lemma heap_Pop_length: "heap_Pop key h = Inr (x, h') \<Longrightarrow> length h' = length h - 1"
  using heap_down_elems [of 0 "length h - 1" "heap_swap h 0 (length h - 1)" key]
  by (cases "length h - 1 = 0") (auto simp: heap_Pop_def Let_def heap_down_stop split: if_splits)

text \<open>The loop \<open>for tmpHeap.Len() > 0\<close> that empties a heap into a list.\<close>

function heap_drain :: "('a \<Rightarrow> 'k::linorder) \<Rightarrow> 'a list \<Rightarrow> 'a list go" where
  "heap_drain key h =
     (if h = [] then Inr []
      else
        (case heap_Pop key h of
           Inl s \<Rightarrow> Inl s
         | Inr (x, h') \<Rightarrow> (case heap_drain key h' of Inl s \<Rightarrow> Inl s | Inr xs \<Rightarrow> Inr (x # xs))))"
  by pat_completeness auto
termination
  by (relation "measure (\<lambda>(key, h). length h)")
    (auto dest!: heap_Pop_length)

declare heap_drain.simps [simp del]

lemma heap_drain_pops: "heap_drain key h = pops (heap_Pop key) (length h) h"
proof (induction "length h" arbitrary: h)
  case 0
  then show ?case by (simp add: heap_drain.simps)
next
  case (Suc n)
  then have ne: "h \<noteq> []" and len: "length h = Suc n" by auto
  show ?case
  proof (cases "heap_Pop key h")
    case (Inl s)
    with ne len show ?thesis by (simp add: heap_drain.simps)
  next
    case (Inr r)
    obtain x h' where r: "r = (x, h')" by (cases r)
    then have "n = length h'"
      using heap_Pop_length [of key h x h'] Inr len by simp
    with Suc.hyps(1) [of h'] ne len Inr r show ?thesis
      by (simp add: heap_drain.simps [of key h] split: sum.splits)
  qed
qed

lemma heap_drain_sorted:
  "heap_ord key h (length h) \<Longrightarrow>
     \<exists>xs. heap_drain key h = Inr xs \<and> mset xs = mset h \<and> sorted (map key xs)"
  using go_heap.pops_sorted [of key h] by (simp add: heap_drain_pops)

lemma heap_ord_0 [simp]: "heap_ord key h 0"
  by (simp add: heap_ord_def edge_def)

end
