(* ===== verification/Quick_Select.thy ===== *)
theory Quick_Select
  imports Variogram Go_Heap
begin

text \<open>
  The choice of the nearest samples in \<open>internal/kriging/solver.go\<close>: \<open>selectNeighbors\<close> with
  \<open>quickSelectItems\<close> and \<open>partitionItems\<close>, in place on a slice. Exchanging two elements is
  \<open>heap_swap\<close>. The indices are natural numbers: the loop is entered with \<open>lo < hi\<close>, and
  \<open>hi = pivot - 1\<close> only runs when \<open>pivot > k\<close>.
\<close>

section \<open>The code\<close>

record distItem =
  di_pt :: SamplePoint
  di_dist :: real

definition partition_loop :: "distItem list \<Rightarrow> nat \<Rightarrow> nat \<Rightarrow> real \<Rightarrow> distItem list \<times> nat" where
  "partition_loop items lo m pivot =
     foldl (\<lambda>(items, i) j. if di_dist (items ! j) \<le> pivot then (heap_swap items i j, Suc i) else (items, i))
       (items, lo) [lo..<m]"

definition partitionItems :: "distItem list \<Rightarrow> nat \<Rightarrow> nat \<Rightarrow> distItem list \<times> nat" where
  "partitionItems items lo hi =
     (case partition_loop items lo hi (di_dist (items ! hi)) of
        (items1, i) \<Rightarrow> (heap_swap items1 i hi, i))"

lemma partition_loop_Suc:
  "lo \<le> m \<Longrightarrow> partition_loop items lo (Suc m) pivot =
     (case partition_loop items lo m pivot of (items1, i) \<Rightarrow>
        if di_dist (items1 ! m) \<le> pivot then (heap_swap items1 i m, Suc i) else (items1, i))"
  by (simp add: partition_loop_def split: prod.splits)

lemma partition_loop_start: "partition_loop items lo lo pivot = (items, lo)"
  by (simp add: partition_loop_def)

lemma partition_loop_bounds:
  "lo \<le> m \<Longrightarrow> lo \<le> snd (partition_loop items lo m pivot) \<and> snd (partition_loop items lo m pivot) \<le> m"
  by (induction m rule: nat_induct_at_least)
    (auto simp: partition_loop_start partition_loop_Suc split: prod.splits)

lemma partitionItems_bounds:
  assumes "partitionItems items lo hi = (items', p)" and "lo \<le> hi"
  shows "lo \<le> p \<and> p \<le> hi"
  using assms partition_loop_bounds [of lo hi items "di_dist (items ! hi)"]
  by (auto simp: partitionItems_def split: prod.splits)

function quickSelectItems :: "distItem list \<Rightarrow> nat \<Rightarrow> nat \<Rightarrow> nat \<Rightarrow> distItem list" where
  "quickSelectItems items lo hi k =
     (if lo < hi then
        (case partitionItems items lo hi of
           (items', pivot) \<Rightarrow>
             if pivot = k then items'
             else if pivot < k then quickSelectItems items' (pivot + 1) hi k
             else quickSelectItems items' lo (pivot - 1) k)
      else items)"
  by pat_completeness auto
termination
  by (relation "measure (\<lambda>(items, lo, hi, k). hi - lo)")
    (auto dest!: partitionItems_bounds [OF sym])

declare quickSelectItems.simps [simp del]

definition dist_items :: "real \<Rightarrow> real \<Rightarrow> SamplePoint list \<Rightarrow> distItem list" where
  "dist_items targetX targetY candidates =
     map (\<lambda>c. let dx = s_X c - targetX; dy = s_Y c - targetY
               in \<lparr>di_pt = c, di_dist = sqrt (dx * dx + dy * dy)\<rparr>) candidates"

definition selectNeighbors :: "real \<Rightarrow> real \<Rightarrow> SamplePoint list \<Rightarrow> nat \<Rightarrow> SamplePoint list" where
  "selectNeighbors targetX targetY candidates maxN =
     (let items = dist_items targetX targetY candidates
      in map di_pt (take maxN (quickSelectItems items 0 (length items - 1) maxN)))"

section \<open>Partitioning\<close>

text \<open>What happens to the elements between \<open>lo\<close> and \<open>hi\<close>: they move among themselves.\<close>

definition moved_within :: "nat \<Rightarrow> nat \<Rightarrow> distItem list \<Rightarrow> distItem list \<Rightarrow> bool" where
  "moved_within lo hi xs ys \<longleftrightarrow>
     mset ys = mset xs \<and> length ys = length xs
   \<and> (\<forall>k < length xs. k < lo \<or> hi < k \<longrightarrow> ys ! k = xs ! k)
   \<and> (\<forall>k. lo \<le> k \<and> k \<le> hi \<longrightarrow> (\<exists>l. lo \<le> l \<and> l \<le> hi \<and> ys ! k = xs ! l))"

lemma moved_refl: "moved_within lo hi xs xs"
  by (auto simp: moved_within_def)

lemma moved_swap:
  assumes "moved_within lo hi xs ys" and "hi < length xs" and "lo \<le> i" "i \<le> hi" "lo \<le> j" "j \<le> hi"
  shows "moved_within lo hi xs (heap_swap ys i j)"
proof -
  have "length ys = length xs" using assms(1) by (simp add: moved_within_def)
  with assms show ?thesis
    by (auto simp: moved_within_def mset_heap_swap nth_heap_swap length_heap_swap)
qed

lemma partition_loop_inv:
  assumes "lo \<le> m" and "m \<le> hi" and "hi < length items" and "partition_loop items lo m pivot = (ys, i)"
  shows "moved_within lo hi items ys \<and> ys ! hi = items ! hi
       \<and> (\<forall>k. lo \<le> k \<and> k < i \<longrightarrow> di_dist (ys ! k) \<le> pivot)
       \<and> (\<forall>k. i \<le> k \<and> k < m \<longrightarrow> pivot < di_dist (ys ! k))"
  using assms(1,2,4)
proof (induction m arbitrary: ys i rule: nat_induct_at_least)
  case base
  then show ?case by (simp add: partition_loop_start moved_refl)
next
  case (Suc m)
  obtain zs i0 where zs: "partition_loop items lo m pivot = (zs, i0)"
    by (cases "partition_loop items lo m pivot")
  have b: "lo \<le> i0" "i0 \<le> m"
    using partition_loop_bounds [OF Suc.hyps, of items pivot] zs by simp_all
  have IH: "moved_within lo hi items zs" "zs ! hi = items ! hi"
    "\<forall>k. lo \<le> k \<and> k < i0 \<longrightarrow> di_dist (zs ! k) \<le> pivot" "\<forall>k. i0 \<le> k \<and> k < m \<longrightarrow> pivot < di_dist (zs ! k)"
    using Suc.IH [OF _ zs] Suc.prems(1) by auto
  have len: "length zs = length items"
    using IH(1) by (simp add: moved_within_def)
  show ?case
  proof (cases "di_dist (zs ! m) \<le> pivot")
    case True
    then have ys: "ys = heap_swap zs i0 m" "i = Suc i0"
      using Suc.prems(2) zs Suc.hyps by (auto simp: partition_loop_Suc)
    have "moved_within lo hi items ys"
      unfolding ys using IH(1) assms(3) b Suc.prems(1) by (intro moved_swap) auto
    moreover have "ys ! k = (if k = i0 then zs ! m else if k = m then zs ! i0 else zs ! k)" if "k \<le> hi" for k
      using that assms(3) b Suc.prems(1) len by (auto simp: ys nth_heap_swap)
    ultimately show ?thesis
      using IH(2-4) True b Suc.prems(1) ys(2) by (auto simp: less_Suc_eq)
  next
    case False
    then have "ys = zs" "i = i0"
      using Suc.prems(2) zs Suc.hyps by (auto simp: partition_loop_Suc)
    with IH False show ?thesis by (auto simp: less_Suc_eq)
  qed
qed

lemma partitionItems_ok:
  assumes "partitionItems items lo hi = (ys, p)" and "lo \<le> hi" and "hi < length items"
  shows "moved_within lo hi items ys"
    and "\<forall>k. lo \<le> k \<and> k < p \<longrightarrow> di_dist (ys ! k) \<le> di_dist (ys ! p)"
    and "\<forall>k. p < k \<and> k \<le> hi \<longrightarrow> di_dist (ys ! p) \<le> di_dist (ys ! k)"
proof -
  obtain zs where zs: "partition_loop items lo hi (di_dist (items ! hi)) = (zs, p)" and ys: "ys = heap_swap zs p hi"
    using assms(1) by (auto simp: partitionItems_def split: prod.splits)
  note inv = partition_loop_inv [OF assms(2) order.refl assms(3) zs]
  note b = partitionItems_bounds [OF assms(1,2)]
  have len: "length zs = length items"
    using inv by (simp add: moved_within_def)
  have nth: "ys ! k = (if k = p then zs ! hi else if k = hi then zs ! p else zs ! k)" if "k \<le> hi" for k
    using that assms(3) b len by (auto simp: ys nth_heap_swap)
  show "moved_within lo hi items ys"
    unfolding ys using inv assms(3) b by (intro moved_swap) auto
  show "\<forall>k. lo \<le> k \<and> k < p \<longrightarrow> di_dist (ys ! k) \<le> di_dist (ys ! p)"
    using inv b nth by auto
  show "\<forall>k. p < k \<and> k \<le> hi \<longrightarrow> di_dist (ys ! p) \<le> di_dist (ys ! k)"
    using inv b nth by (auto simp: less_imp_le)
qed

section \<open>Selecting\<close>

text \<open>The first \<open>c\<close> elements are at most as far as the others.\<close>

definition split_at :: "nat \<Rightarrow> distItem list \<Rightarrow> bool" where
  "split_at c xs \<longleftrightarrow> (\<forall>a b. a < c \<and> c \<le> b \<and> b < length xs \<longrightarrow> di_dist (xs ! a) \<le> di_dist (xs ! b))"

lemma split_at_moved:
  assumes "moved_within lo hi xs ys" and "hi < length xs" and "c \<le> lo \<or> hi < c" and "split_at c xs"
  shows "split_at c ys"
  unfolding split_at_def
proof (intro allI impI, elim conjE)
  fix a b
  assume ab: "a < c" "c \<le> b" "b < length ys"
  have len: "length ys = length xs" using assms(1) by (simp add: moved_within_def)
  have from_range: "\<exists>l. ys ! k = xs ! l \<and> l < length xs \<and> (k < c \<longleftrightarrow> l < c)" if "k < length xs" for k
  proof (cases "lo \<le> k \<and> k \<le> hi")
    case True
    then obtain l where "lo \<le> l" "l \<le> hi" "ys ! k = xs ! l"
      using assms(1) by (auto simp: moved_within_def)
    with True assms(2,3) show ?thesis by (intro exI [of _ l]) auto
  next
    case False
    with that assms(1) show ?thesis by (auto simp: moved_within_def not_le)
  qed
  obtain l m where "ys ! a = xs ! l" "l < c" "ys ! b = xs ! m" "m < length xs" "c \<le> m"
    using from_range [of a] from_range [of b] ab len by (auto simp: not_less)
  with assms(4) show "di_dist (ys ! a) \<le> di_dist (ys ! b)"
    by (simp add: split_at_def)
qed

lemma partition_splits:
  assumes "partitionItems items lo hi = (ys, p)" and "lo \<le> hi" and "hi < length items"
    and "split_at lo items" and "split_at (Suc hi) items"
  shows "split_at lo ys" and "split_at (Suc hi) ys" and "split_at p ys" and "split_at (Suc p) ys"
proof -
  note part = partitionItems_ok [OF assms(1-3)]
  note b = partitionItems_bounds [OF assms(1,2)]
  show lo: "split_at lo ys" and hi: "split_at (Suc hi) ys"
    using split_at_moved [OF part(1) assms(3)] assms(4,5) by simp_all
  have len: "length ys = length items"
    using part(1) by (simp add: moved_within_def)
  have le: "di_dist (ys ! a) \<le> di_dist (ys ! p)" if "a \<le> p" for a
  proof (cases "lo \<le> a \<and> a < p")
    case False
    with that have "a = p \<or> a < lo" by auto
    with lo b len assms(3) show ?thesis by (auto simp: split_at_def)
  qed (use part(2) in simp)
  have ge: "di_dist (ys ! p) \<le> di_dist (ys ! b)" if "p \<le> b" "b < length ys" for b
  proof (cases "p < b \<and> b \<le> hi")
    case False
    with that have "b = p \<or> hi < b" by auto
    with that hi b show ?thesis by (auto simp: split_at_def)
  qed (use part(3) in simp)
  show "split_at p ys" "split_at (Suc p) ys"
    using order.trans [OF le ge] by (auto simp: split_at_def less_Suc_eq_le Suc_le_eq)
qed

lemma quickSelect_ok:
  assumes "hi < length items" and "lo \<le> k" and "k \<le> hi"
    and "split_at lo items" and "split_at (Suc hi) items"
  shows "mset (quickSelectItems items lo hi k) = mset items \<and> split_at k (quickSelectItems items lo hi k)"
  using assms
proof (induction items lo hi k rule: quickSelectItems.induct)
  case (1 items lo hi k)
  show ?case
  proof (cases "lo < hi")
    case True
    obtain ys p where p: "partitionItems items lo hi = (ys, p)"
      by (cases "partitionItems items lo hi")
    have le: "lo \<le> hi" using True by simp
    note b = partitionItems_bounds [OF p le]
    note splits = partition_splits [OF p le "1.prems"(1,4,5)]
    have ys: "mset ys = mset items" "length ys = length items"
      using partitionItems_ok(1) [OF p le "1.prems"(1)] by (simp_all add: moved_within_def)
    consider "p = k" | "p < k" | "k < p" by linarith
    then show ?thesis
    proof cases
      case 1
      with True p ys splits show ?thesis by (simp add: quickSelectItems.simps [of items])
    next
      case 2
      with "1.IH"(1) [OF True p [symmetric]] "1.prems" ys splits True p show ?thesis
        by (simp add: quickSelectItems.simps [of items])
    next
      case 3
      then have "Suc (p - 1) = p" by simp
      with 3 "1.IH"(2) [OF True p [symmetric]] "1.prems" ys splits True p b show ?thesis
        by (simp add: quickSelectItems.simps [of items])
    qed
  next
    case False
    then have "lo = k" using "1.prems"(2,3) by simp
    with False "1.prems"(4) show ?thesis
      by (simp add: quickSelectItems.simps [of items])
  qed
qed

definition sample_dist :: "real \<Rightarrow> real \<Rightarrow> SamplePoint \<Rightarrow> real" where
  "sample_dist x y c = sqrt ((s_X c - x) * (s_X c - x) + (s_Y c - y) * (s_Y c - y))"

lemma dist_items_sample: "dist_items x y cs = map (\<lambda>c. \<lparr>di_pt = c, di_dist = sample_dist x y c\<rparr>) cs"
  by (simp add: dist_items_def sample_dist_def Let_def)

lemma selectNeighbors_split:
  assumes "maxN < length candidates"
  shows "\<exists>rest. mset (selectNeighbors x y candidates maxN) + mset rest = mset candidates
           \<and> length (selectNeighbors x y candidates maxN) = maxN
           \<and> (\<forall>a \<in> set (selectNeighbors x y candidates maxN). \<forall>b \<in> set rest. sample_dist x y a \<le> sample_dist x y b)"
proof -
  let ?items = "dist_items x y candidates"
  let ?out = "quickSelectItems ?items 0 (length ?items - 1) maxN"
  have len: "length ?items = length candidates"
    by (simp add: dist_items_sample)
  have "split_at 0 ?items" "split_at (Suc (length ?items - 1)) ?items"
    by (auto simp: split_at_def)
  then have out: "mset ?out = mset ?items" "split_at maxN ?out"
    using quickSelect_ok [of "length ?items - 1" ?items 0 maxN] assms len by auto
  then have len_out: "length ?out = length candidates"
    using len mset_eq_length by metis
  have item: "di_dist it = sample_dist x y (di_pt it)" if "it \<in> set ?out" for it
    using that mset_eq_setD [OF out(1)] by (auto simp: dist_items_sample)
  have "mset (map di_pt (take maxN ?out)) + mset (map di_pt (drop maxN ?out)) = mset (map di_pt ?out)"
    by (metis append_take_drop_id map_append mset_append)
  also have "\<dots> = mset (map di_pt ?items)"
    using out(1) by simp
  also have "map di_pt ?items = candidates"
    by (simp add: dist_items_sample comp_def)
  finally have parts: "mset (map di_pt (take maxN ?out)) + mset (map di_pt (drop maxN ?out)) = mset candidates" .
  have "sample_dist x y (di_pt a) \<le> sample_dist x y (di_pt b)"
    if a: "a \<in> set (take maxN ?out)" and b: "b \<in> set (drop maxN ?out)" for a b
  proof -
    obtain i where "i < maxN" "i < length ?out" "take maxN ?out ! i = a"
      using a unfolding in_set_conv_nth by auto
    moreover obtain j where "j < length ?out - maxN" "drop maxN ?out ! j = b"
      using b unfolding in_set_conv_nth by auto
    ultimately have "di_dist a \<le> di_dist b"
      using out(2) by (auto simp: split_at_def)
    with item a b show ?thesis by (metis in_set_dropD in_set_takeD)
  qed
  with parts assms len_out show ?thesis
    by (intro exI [of _ "map di_pt (drop maxN ?out)"]) (simp add: selectNeighbors_def Let_def)
qed

text \<open>C35. When there are more candidates than wanted, the selection ends and returns that many of
  them, each at most as far from the target as every candidate left out.\<close>

theorem selectNeighbors_nearest:
  assumes "maxN < length candidates"
  shows "\<exists>rest. mset (selectNeighbors x y candidates maxN) + mset rest = mset candidates
           \<and> length (selectNeighbors x y candidates maxN) = maxN
           \<and> (\<forall>a \<in> set (selectNeighbors x y candidates maxN). \<forall>b \<in> set rest. sample_dist x y a \<le> sample_dist x y b)"
  using assms by (rule selectNeighbors_split)

definition grid_samples :: "SamplePoint list" where
  "grid_samples = [\<lparr>s_X = 3, s_Y = 0, s_Value = 9\<rparr>, \<lparr>s_X = 0, s_Y = 0, s_Value = 7\<rparr>, \<lparr>s_X = 0, s_Y = 1, s_Value = 8\<rparr>]"

lemma selectNeighbors_nearest_witness:
  "\<exists>rest. mset (selectNeighbors 0 0 grid_samples 2) + mset rest = mset grid_samples
     \<and> length (selectNeighbors 0 0 grid_samples 2) = 2"
  using selectNeighbors_nearest [of 2 grid_samples 0 0] by (auto simp: grid_samples_def)

end
