(* ===== verification/Kriging.thy ===== *)
theory Kriging
  imports Linear_Solver Quick_Select
begin

text \<open>
  Ordinary kriging of \<open>internal/kriging/solver.go\<close>: the system of variogram values, its solution
  by \<open>solveLinearSystem\<close>, the weighted mean, and the inverse-distance fallback when the system is
  singular. The variance that the fallback sets to \<open>NaN\<close> is \<open>None\<close>; all other \<open>float64\<close> values are
  exact reals, and an anisotropy ratio of 0, with which the distances are not numbers, is outside
  the model.
\<close>

section \<open>The code\<close>

definition MaxKrigingNeighbors :: nat where "MaxKrigingNeighbors = 24"
definition MinKrigingNeighbors :: nat where "MinKrigingNeighbors = 4"

record KrigingResult =
  kr_Value :: "real option"
  kr_Variance :: "real option"
  kr_Weights :: "real list"
  kr_NumNeighbors :: nat

record DistanceCache =
  dc_distMatrix :: "real list"
  dc_n :: nat

definition NewDistanceCache :: "nat \<Rightarrow> DistanceCache" where
  "NewDistanceCache n = \<lparr>dc_distMatrix = replicate (n * n) 0, dc_n = n\<rparr>"

definition dc_Set :: "nat \<Rightarrow> nat \<Rightarrow> real \<Rightarrow> DistanceCache \<Rightarrow> DistanceCache go" where
  "dc_Set i j d dc =
     (let ij = i * dc_n dc + j; ji = j * dc_n dc + i in
      if ij \<ge> length (dc_distMatrix dc) \<or> ji \<ge> length (dc_distMatrix dc) then Inl Panic
      else Inr (dc\<lparr>dc_distMatrix := (dc_distMatrix dc)[ij := d, ji := d]\<rparr>))"

definition dc_Get :: "nat \<Rightarrow> nat \<Rightarrow> DistanceCache \<Rightarrow> real go" where
  "dc_Get i j dc =
     (if i * dc_n dc + j \<ge> length (dc_distMatrix dc) then Inl Panic
      else Inr (dc_distMatrix dc ! (i * dc_n dc + j)))"

record OrdinaryKriging =
  ok_Params :: VariogramParams
  ok_Cache :: "DistanceCache option"

definition NewOrdinaryKriging :: "VariogramParams \<Rightarrow> OrdinaryKriging" where
  "NewOrdinaryKriging params = \<lparr>ok_Params = params, ok_Cache = None\<rparr>"

text \<open>The variogram between a sample and a position.\<close>

definition gamma_to :: "VariogramParams \<Rightarrow> SamplePoint \<Rightarrow> real \<Rightarrow> real \<Rightarrow> real" where
  "gamma_to params c x y = Gamma params (AnisotropicDistance params (s_X c - x) (s_Y c - y))"

definition kriging_entry :: "VariogramParams \<Rightarrow> SamplePoint list \<Rightarrow> nat \<Rightarrow> nat \<Rightarrow> real" where
  "kriging_entry params ns i j =
     (let n = length ns in
      if i < n \<and> j < n then (if i = j then 0 else gamma_to params (ns ! i) (s_X (ns ! j)) (s_Y (ns ! j)))
      else if i = n \<and> j = n then 0 else 1)"

definition kriging_matrix :: "VariogramParams \<Rightarrow> SamplePoint list \<Rightarrow> real list" where
  "kriging_matrix params ns =
     (let size = length ns + 1 in
      concat (map (\<lambda>i. map (kriging_entry params ns i) [0..<size]) [0..<size]))"

definition kriging_rhs :: "VariogramParams \<Rightarrow> real \<Rightarrow> real \<Rightarrow> SamplePoint list \<Rightarrow> real list" where
  "kriging_rhs params targetX targetY ns = map (\<lambda>c. gamma_to params c targetX targetY) ns @ [1]"

text \<open>The fallback: its loop stops at the first sample at the target.\<close>

fun idw_loop :: "real \<Rightarrow> real \<Rightarrow> SamplePoint list \<Rightarrow> real \<Rightarrow> real \<Rightarrow> real list \<Rightarrow>
    SamplePoint + (real \<times> real \<times> real list)" where
  "idw_loop x y [] wSum wVal weights = Inr (wSum, wVal, weights)"
| "idw_loop x y (c # cs) wSum wVal weights =
     (let d = sample_dist x y c in
      if d < 1 / 10 ^ 12 then Inl c
      else
        (let w = 1 / (d * d) in idw_loop x y cs (wSum + w) (wVal + w * s_Value c) (weights @ [w])))"

definition fallbackIDW :: "real \<Rightarrow> real \<Rightarrow> SamplePoint list \<Rightarrow> KrigingResult" where
  "fallbackIDW targetX targetY ns =
     (case idw_loop targetX targetY ns 0 0 [] of
        Inl c \<Rightarrow> \<lparr>kr_Value = Some (s_Value c), kr_Variance = Some 0, kr_Weights = [1], kr_NumNeighbors = 1\<rparr>
      | Inr (wSum, wVal, weights) \<Rightarrow>
          \<lparr>kr_Value = Some (wVal / wSum), kr_Variance = None, kr_Weights = map (\<lambda>w. w / wSum) weights,
           kr_NumNeighbors = length ns\<rparr>)"

datatype kriging_error = InsufficientNeighbors nat

text \<open>The neighbours \<open>Interpolate\<close> works with.\<close>

definition kriging_neighbors :: "real \<Rightarrow> real \<Rightarrow> SamplePoint list \<Rightarrow> SamplePoint list" where
  "kriging_neighbors targetX targetY neighbors =
     (if length neighbors > MaxKrigingNeighbors
      then selectNeighbors targetX targetY neighbors MaxKrigingNeighbors else neighbors)"

definition weighted_sum :: "nat \<Rightarrow> real list \<Rightarrow> (nat \<Rightarrow> real) \<Rightarrow> real" where
  "weighted_sum n w f = foldl (\<lambda>s i. s + w ! i * f i) 0 [0..<n]"

definition kriging_result :: "real list \<Rightarrow> real list \<Rightarrow> SamplePoint list \<Rightarrow> KrigingResult" where
  "kriging_result w b ns =
     (let n = length ns;
          value = weighted_sum n w (\<lambda>i. s_Value (ns ! i));
          krigingVar = weighted_sum n w (\<lambda>i. b ! i) + w ! n
      in \<lparr>kr_Value = Some value, kr_Variance = Some (if krigingVar < 0 then 0 else krigingVar),
          kr_Weights = take n w, kr_NumNeighbors = n\<rparr>)"

definition kriging_Interpolate ::
    "OrdinaryKriging \<Rightarrow> real \<Rightarrow> real \<Rightarrow> SamplePoint list \<Rightarrow> kriging_error + KrigingResult" where
  "kriging_Interpolate ok targetX targetY neighbors =
     (if length neighbors < MinKrigingNeighbors then Inl (InsufficientNeighbors (length neighbors))
      else
        (let ns = kriging_neighbors targetX targetY neighbors;
             A = kriging_matrix (ok_Params ok) ns;
             b = kriging_rhs (ok_Params ok) targetX targetY ns
         in case solveLinearSystem A b (length ns + 1) of
              Inl _ \<Rightarrow> Inr (fallbackIDW targetX targetY ns)
            | Inr w \<Rightarrow> Inr (kriging_result w b ns)))"

definition BatchInterpolate ::
    "OrdinaryKriging \<Rightarrow> SamplePoint list \<Rightarrow> SamplePoint list \<Rightarrow> KrigingResult list" where
  "BatchInterpolate ok targets neighbors =
     map (\<lambda>t. case kriging_Interpolate ok (s_X t) (s_Y t) neighbors of
                Inl _ \<Rightarrow> \<lparr>kr_Value = None, kr_Variance = None, kr_Weights = [], kr_NumNeighbors = 0\<rparr>
              | Inr r \<Rightarrow> r) targets"

section \<open>The kriging system\<close>

lemma kriging_matrix_entry:
  "length (kriging_matrix params ns) = (length ns + 1) * (length ns + 1)"
  "i \<le> length ns \<Longrightarrow> j \<le> length ns \<Longrightarrow>
     kriging_matrix params ns ! (i * (length ns + 1) + j) = kriging_entry params ns i j"
proof -
  let ?n = "length ns + 1" and ?f = "\<lambda>i. map (kriging_entry params ns i) [0..<length ns + 1]"
  show "length (kriging_matrix params ns) = ?n * ?n"
    unfolding kriging_matrix_def Let_def by (rule length_concat_rows) simp
  show "kriging_matrix params ns ! (i * ?n + j) = kriging_entry params ns i j"
    if "i \<le> length ns" "j \<le> length ns"
    using nth_concat_rows [of ?n ?f ?n i j] that by (simp add: kriging_matrix_def nth_append del: upt_Suc)
qed

lemma weighted_sum_eq: "weighted_sum n w f = (\<Sum>i<n. w ! i * f i)"
  unfolding weighted_sum_def by (induction n) simp_all

lemma kriging_unique:
  assumes "solveLinearSystem (kriging_matrix params ns) (kriging_rhs params x y ns) (length ns + 1) = Inr w"
  shows "length w = length ns + 1"
    and "(\<forall>i < length ns + 1. (\<Sum>j < length ns + 1. kriging_entry params ns i j * e j) = kriging_rhs params x y ns ! i)
           \<longleftrightarrow> (\<forall>i < length ns + 1. e i = w ! i)"
  using solver_unique_matrix(1) [OF kriging_matrix_entry(1) _ assms, where M = "kriging_entry params ns"]
    solver_unique_matrix(2) [OF kriging_matrix_entry(1) _ assms, where M = "kriging_entry params ns" and y = e]
    kriging_matrix_entry(2) [of _ ns _ params]
  by (simp_all add: kriging_rhs_def less_Suc_eq_le)

text \<open>The last row of the system says that the weights sum to 1.\<close>

lemma kriging_weights:
  assumes "solveLinearSystem (kriging_matrix params ns) (kriging_rhs params x y ns) (length ns + 1) = Inr w"
  shows "length w = length ns + 1" and "(\<Sum>i<length ns. w ! i) = 1"
proof -
  show "length w = length ns + 1"
    by (rule kriging_unique(1) [OF assms])
  have "(\<Sum>j<length ns + 1. kriging_entry params ns (length ns) j * w ! j) = kriging_rhs params x y ns ! length ns"
    using kriging_unique(2) [OF assms, of "\<lambda>j. w ! j"] by simp
  then show "(\<Sum>i<length ns. w ! i) = 1"
    by (simp add: kriging_entry_def kriging_rhs_def nth_append)
qed

text \<open>At the place of a sample its unit vector solves the system.\<close>

lemma kriging_at_sample:
  assumes "solveLinearSystem (kriging_matrix params ns) (kriging_rhs params x y ns) (length ns + 1) = Inr w"
    and "i < length ns" and "s_X (ns ! i) = x" and "s_Y (ns ! i) = y"
  shows "\<forall>j < length ns + 1. w ! j = (if j = i then 1 else 0)"
proof -
  let ?e = "\<lambda>j. if j = i then 1 else (0 :: real)"
  have self: "gamma_to params (ns ! i) x y = 0"
    using assms(3,4) by (simp add: gamma_to_def AnisotropicDistance_def Gamma_def Let_def)
  have "(\<Sum>j<length ns + 1. kriging_entry params ns k j * ?e j) = kriging_rhs params x y ns ! k"
    if "k < length ns + 1" for k
  proof -
    have "(\<Sum>j<length ns + 1. kriging_entry params ns k j * ?e j) = kriging_entry params ns k i"
      using assms(2) by (simp add: if_distrib [of "\<lambda>z. _ * z"] cong: if_cong)
    with assms(2-4) that self show ?thesis
      by (auto simp: kriging_entry_def kriging_rhs_def Let_def nth_append less_Suc_eq)
  qed
  then show ?thesis
    using kriging_unique(2) [OF assms(1), of ?e] by auto
qed

section \<open>The fallback\<close>

lemma idw_loop_step:
  assumes "idw_loop x y (c # cs) s v ws = Inr r"
  obtains w where "w = 1 / (sample_dist x y c * sample_dist x y c)" "0 < w" "1 / 10 ^ 12 \<le> sample_dist x y c"
    "idw_loop x y cs (s + w) (v + w * s_Value c) (ws @ [w]) = Inr r"
proof -
  have d: "1 / 10 ^ 12 \<le> sample_dist x y c"
    using assms by (auto simp: Let_def split: if_splits)
  have "0 < sample_dist x y c"
    using d by (rule less_le_trans [rotated]) simp
  with d assms show ?thesis
    by (intro that [of "1 / (sample_dist x y c * sample_dist x y c)"]) (auto simp: Let_def split: if_splits)
qed

lemma idw_loop_weights:
  assumes "idw_loop x y cs s v ws = Inr (s', v', ws')" and "s = sum_list ws" and "\<forall>w \<in> set ws. 0 < w"
  shows "s' = sum_list ws' \<and> (\<forall>w \<in> set ws'. 0 < w) \<and> length ws' = length ws + length cs
       \<and> (\<forall>c \<in> set cs. 1 / 10 ^ 12 \<le> sample_dist x y c)"
  using assms
proof (induction cs arbitrary: s v ws)
  case (Cons c cs)
  obtain w where w: "0 < w" "1 / 10 ^ 12 \<le> sample_dist x y c"
    "idw_loop x y cs (s + w) (v + w * s_Value c) (ws @ [w]) = Inr (s', v', ws')"
    using idw_loop_step [OF Cons.prems(1)] by metis
  from Cons.IH [OF w(3)] Cons.prems(2,3) w(1,2) show ?case by simp
qed simp

lemma idw_loop_convex:
  assumes "idw_loop x y cs s v ws = Inr (s', v', ws')" and "\<forall>c \<in> set cs. a \<le> s_Value c \<and> s_Value c \<le> b"
    and "a * s \<le> v" and "v \<le> b * s"
  shows "a * s' \<le> v' \<and> v' \<le> b * s'"
  using assms
proof (induction cs arbitrary: s v ws)
  case (Cons c cs)
  obtain w where w: "0 < w" "idw_loop x y cs (s + w) (v + w * s_Value c) (ws @ [w]) = Inr (s', v', ws')"
    using idw_loop_step [OF Cons.prems(1)] by metis
  have "a * w \<le> w * s_Value c" "w * s_Value c \<le> b * w"
    using Cons.prems(2) w(1) by (simp_all add: mult.commute [of w])
  with Cons.IH [OF w(2)] Cons.prems(2-4) show ?case
    by (simp add: distrib_left)
qed simp

lemma idw_loop_hit: "idw_loop x y cs s v ws = Inl c \<Longrightarrow> c \<in> set cs \<and> sample_dist x y c < 1 / 10 ^ 12"
  by (induction cs arbitrary: s v ws) (auto simp: Let_def split: if_splits)

lemma sum_list_pos:
  assumes "\<forall>w \<in> set ws. 0 < (w :: real)" and "ws \<noteq> []"
  shows "0 < sum_list ws"
proof (cases ws)
  case (Cons w us)
  have "0 \<le> sum_list us"
    by (rule sum_list_nonneg) (use assms(1) Cons in \<open>auto simp: less_imp_le\<close>)
  moreover have "0 < w"
    using assms(1) Cons by simp
  ultimately show ?thesis using Cons by simp
qed (use assms(2) in simp)

lemma fallbackIDW_ok:
  assumes "cs \<noteq> []" and "\<forall>c \<in> set cs. a \<le> s_Value c \<and> s_Value c \<le> b"
  shows "sum_list (kr_Weights (fallbackIDW x y cs)) = 1
       \<and> (\<exists>v. kr_Value (fallbackIDW x y cs) = Some v \<and> a \<le> v \<and> v \<le> b)"
proof (cases "idw_loop x y cs 0 0 []")
  case (Inl c)
  with idw_loop_hit [OF Inl] assms(2) show ?thesis by (simp add: fallbackIDW_def)
next
  case (Inr r)
  obtain s v ws where r: "r = (s, v, ws)" by (cases r)
  have ws: "s = sum_list ws" "\<forall>w \<in> set ws. 0 < w" "ws \<noteq> []" "a * s \<le> v" "v \<le> b * s"
    using idw_loop_weights [OF Inr [unfolded r]] idw_loop_convex [OF Inr [unfolded r] assms(2)] assms(1) by auto
  then have s: "0 < s" using sum_list_pos by blast
  have "sum_list (map (\<lambda>w. w / s) ws) = sum_list ws / s"
    by (induction ws) (simp_all add: add_divide_distrib)
  with Inr r ws s show ?thesis
    by (simp add: fallbackIDW_def pos_le_divide_eq pos_divide_le_eq)
qed

section \<open>Interpolation\<close>

lemma kriging_neighbors_ok:
  assumes "MinKrigingNeighbors \<le> length cs"
  shows "set (kriging_neighbors x y cs) \<subseteq> set cs" and "kriging_neighbors x y cs \<noteq> []"
    and "c \<in> set cs \<Longrightarrow> s_X c = x \<Longrightarrow> s_Y c = y \<Longrightarrow>
           \<exists>c' \<in> set (kriging_neighbors x y cs). s_X c' = x \<and> s_Y c' = y"
proof -
  let ?ns = "kriging_neighbors x y cs"
  have "set ?ns \<subseteq> set cs \<and> ?ns \<noteq> [] \<and> (c \<in> set cs \<and> s_X c = x \<and> s_Y c = y \<longrightarrow> (\<exists>c' \<in> set ?ns. s_X c' = x \<and> s_Y c' = y))"
  proof (cases "length cs > MaxKrigingNeighbors")
    case True
    obtain rest where rest: "mset ?ns + mset rest = mset cs" "length ?ns = MaxKrigingNeighbors"
      "\<forall>a \<in> set ?ns. \<forall>b \<in> set rest. sample_dist x y a \<le> sample_dist x y b"
      using selectNeighbors_split [OF True, of x y] True by (auto simp: kriging_neighbors_def)
    then have sets: "set cs = set ?ns \<union> set rest"
      by (metis mset_append set_append set_mset_mset)
    have ne: "?ns \<noteq> []"
      using rest(2) by (auto simp: MaxKrigingNeighbors_def)
    have at: "s_X a = x \<and> s_Y a = y" if "sample_dist x y a \<le> 0" for a
      using that by (simp add: sample_dist_def sum_squares_le_zero_iff)
    have "\<exists>c' \<in> set ?ns. s_X c' = x \<and> s_Y c' = y" if "c \<in> set cs" "s_X c = x" "s_Y c = y"
    proof (cases "c \<in> set ?ns")
      case False
      with that sets have "c \<in> set rest" by simp
      with rest(3) that(2,3) have "sample_dist x y (hd ?ns) \<le> 0"
        using ne by (force simp: sample_dist_def)
      from at [OF this] ne show ?thesis by (intro bexI [of _ "hd ?ns"]) auto
    qed (use that in blast)
    with sets ne show ?thesis by blast
  next
    case False
    with assms show ?thesis by (auto simp: kriging_neighbors_def MinKrigingNeighbors_def)
  qed
  then show "set ?ns \<subseteq> set cs" "?ns \<noteq> []"
    "c \<in> set cs \<Longrightarrow> s_X c = x \<Longrightarrow> s_Y c = y \<Longrightarrow> \<exists>c' \<in> set ?ns. s_X c' = x \<and> s_Y c' = y" by blast+
qed

text \<open>C22. With at least four samples and an anisotropy ratio other than 0, interpolation returns
  weights that sum to 1, reproduces a constant field exactly, whether the system is solved or the
  fallback is taken, and a variance, where there is one, is not negative. (With a ratio of 0 the
  distances of the code are not numbers.)\<close>

theorem kriging_unbiased:
  assumes "MinKrigingNeighbors \<le> length neighbors" and "v_AnisoRatio (ok_Params ok) \<noteq> 0"
  shows "\<exists>r. kriging_Interpolate ok x y neighbors = Inr r \<and> sum_list (kr_Weights r) = 1
           \<and> (\<forall>var. kr_Variance r = Some var \<longrightarrow> 0 \<le> var)
           \<and> (\<forall>c. (\<forall>p \<in> set neighbors. s_Value p = c) \<longrightarrow> kr_Value r = Some c)"
proof -
  let ?ns = "kriging_neighbors x y neighbors" and ?p = "ok_Params ok"
  note ns = kriging_neighbors_ok(1,2) [OF assms(1), of x y]
  show ?thesis
  proof (cases "solveLinearSystem (kriging_matrix ?p ?ns) (kriging_rhs ?p x y ?ns) (length ?ns + 1)")
    case (Inl e)
    then have "kriging_Interpolate ok x y neighbors = Inr (fallbackIDW x y ?ns)"
      using assms by (simp add: kriging_Interpolate_def Let_def)
    moreover have "kr_Value (fallbackIDW x y ?ns) = Some c" if "\<forall>p \<in> set neighbors. s_Value p = c" for c
    proof -
      have "\<forall>p \<in> set ?ns. c \<le> s_Value p \<and> s_Value p \<le> c"
        using that ns(1) by auto
      from fallbackIDW_ok [OF ns(2) this] show ?thesis by (metis antisym)
    qed
    moreover obtain a b where "\<forall>c \<in> set ?ns. a \<le> s_Value c \<and> s_Value c \<le> b"
      by (rule that [of "Min (s_Value ` set ?ns)" "Max (s_Value ` set ?ns)"]) auto
    then have "sum_list (kr_Weights (fallbackIDW x y ?ns)) = 1"
      using fallbackIDW_ok [OF ns(2)] by blast
    moreover have "\<forall>var. kr_Variance (fallbackIDW x y ?ns) = Some var \<longrightarrow> 0 \<le> var"
      by (auto simp: fallbackIDW_def split: sum.splits)
    ultimately show ?thesis by blast
  next
    case (Inr w)
    note weights = kriging_weights [OF Inr]
    let ?r = "kriging_result w (kriging_rhs ?p x y ?ns) ?ns"
    have sum: "sum_list (take (length ?ns) w) = (\<Sum>i<length ?ns. w ! i)"
      using weights(1) by (simp add: sum_list_sum_nth min_def atLeast0LessThan)
    have "kr_Value ?r = Some c" if "\<forall>p \<in> set neighbors. s_Value p = c" for c
    proof -
      have "(\<Sum>i<length ?ns. w ! i * s_Value (?ns ! i)) = (\<Sum>i<length ?ns. w ! i * c)"
        using that ns(1) by (intro sum.cong) (auto simp: subset_iff)
      with weights(2) show ?thesis
        by (simp add: kriging_result_def Let_def weighted_sum_eq flip: sum_distrib_right)
    qed
    with Inr assms sum weights show ?thesis
      by (intro exI [of _ ?r]) (simp add: kriging_Interpolate_def kriging_result_def Let_def)
  qed
qed

text \<open>C23. Kriging interpolates exactly: given at least four samples, an anisotropy ratio other than 0,
  and a sample at the target with which all samples closer to the target than the fallback's
  tolerance of 1e-12 agree in value, it returns that value; with more samples than the solver
  takes, the choice of the nearest keeps one at the target.\<close>

theorem kriging_reproduces_samples:
  assumes "MinKrigingNeighbors \<le> length neighbors" and "v_AnisoRatio (ok_Params ok) \<noteq> 0"
    and "c \<in> set neighbors" and "s_X c = x" and "s_Y c = y"
    and "\<forall>p \<in> set neighbors. sample_dist x y p < 1 / 10 ^ 12 \<longrightarrow> s_Value p = s_Value c"
  shows "\<exists>r. kriging_Interpolate ok x y neighbors = Inr r \<and> kr_Value r = Some (s_Value c)"
proof -
  let ?ns = "kriging_neighbors x y neighbors" and ?p = "ok_Params ok"
  note ns = kriging_neighbors_ok [OF assms(1), where x = x and y = y]
  obtain i where i: "i < length ?ns" "s_X (?ns ! i) = x" "s_Y (?ns ! i) = y"
    using ns(3) [OF assms(3-5)] by (auto simp: in_set_conv_nth)
  have zero: "sample_dist x y (?ns ! i) = 0"
    using i(2,3) by (simp add: sample_dist_def)
  have same: "s_Value p = s_Value c" if "p \<in> set ?ns" "sample_dist x y p < 1 / 10 ^ 12" for p
    using that ns(1) assms(6) by blast
  show ?thesis
  proof (cases "solveLinearSystem (kriging_matrix ?p ?ns) (kriging_rhs ?p x y ?ns) (length ?ns + 1)")
    case (Inl e)
    then have res: "kriging_Interpolate ok x y neighbors = Inr (fallbackIDW x y ?ns)"
      using assms(1) by (simp add: kriging_Interpolate_def Let_def)
    show ?thesis
    proof (cases "idw_loop x y ?ns 0 0 []")
      case (Inl p)
      with idw_loop_hit [OF Inl] same res show ?thesis by (simp add: fallbackIDW_def)
    next
      case (Inr q)
      obtain s v ws where "q = (s, v, ws)" by (cases q)
      with idw_loop_weights [of x y ?ns 0 0 "[]" s v ws] Inr nth_mem [OF i(1)]
      have "1 / 10 ^ 12 \<le> sample_dist x y (?ns ! i)" by simp
      with zero show ?thesis by simp
    qed
  next
    case (Inr w)
    let ?r = "kriging_result w (kriging_rhs ?p x y ?ns) ?ns"
    note unit = kriging_at_sample [OF Inr i]
    have "(\<Sum>j<length ?ns. w ! j * s_Value (?ns ! j)) = (\<Sum>j<length ?ns. if j = i then s_Value (?ns ! i) else 0)"
      using unit by (intro sum.cong) auto
    also have "\<dots> = s_Value c"
      using i(1) zero same [of "?ns ! i"] by simp
    finally show ?thesis
      using Inr assms(1) by (simp add: kriging_Interpolate_def kriging_result_def Let_def weighted_sum_eq)
  qed
qed

text \<open>Four samples on a square.\<close>

definition square_samples :: "SamplePoint list" where
  "square_samples =
     [\<lparr>s_X = 0, s_Y = 0, s_Value = 10\<rparr>, \<lparr>s_X = 1, s_Y = 0, s_Value = 20\<rparr>,
      \<lparr>s_X = 0, s_Y = 1, s_Value = 30\<rparr>, \<lparr>s_X = 1, s_Y = 1, s_Value = 40\<rparr>]"

lemma kriging_unbiased_witness:
  "\<exists>r. kriging_Interpolate (NewOrdinaryKriging DefaultVariogramParams) 5 5 square_samples = Inr r
     \<and> sum_list (kr_Weights r) = 1"
  using kriging_unbiased [of square_samples "NewOrdinaryKriging DefaultVariogramParams" 5 5]
  by (auto simp: square_samples_def MinKrigingNeighbors_def NewOrdinaryKriging_def DefaultVariogramParams_def)

lemma kriging_reproduces_samples_witness:
  "\<exists>r. kriging_Interpolate (NewOrdinaryKriging DefaultVariogramParams) 1 0 square_samples = Inr r
     \<and> kr_Value r = Some 20"
proof -
  have "\<not> sqrt 2 * 1000000000000 < 1"
    using real_sqrt_ge_one [of 2] by linarith
  then show ?thesis
    using kriging_reproduces_samples [of square_samples "NewOrdinaryKriging DefaultVariogramParams"
        "\<lparr>s_X = 1, s_Y = 0, s_Value = 20\<rparr>" 1 0]
    by (auto simp: square_samples_def MinKrigingNeighbors_def sample_dist_def NewOrdinaryKriging_def DefaultVariogramParams_def)
qed

end
