(* ===== verification/Void_Filler.thy ===== *)
theory Void_Filler
  imports Spatial_Grid Kriging
begin

text \<open>
  \<open>VoidFiller\<close> of \<open>internal/voidfill/filler.go\<close>: the grid of the latest points, the fit of the
  variogram to its edges, and the filling of void cells by kriging with its limit per call. The
  anisotropy ratio of the configuration must not be 0 (see \<open>Variogram\<close>), and a new grid must be one
  that \<open>make\<close> accepts (\<open>fill_fits\<close>). The
  filler's mutex is a flag of its state: locking it while it is held blocks for ever. A \<open>clock\<close>
  gives what \<open>time\<close> returns, by the number of interpolations done so far.
\<close>

section \<open>State\<close>

record FillerConfig =
  fc_CellSize :: real
  fc_SearchRadius :: int
  fc_MaxKrigingNeighbors :: int
  fc_MaxVoidCellsPerPatch :: int
  fc_MinPointsForKriging :: int
  fc_VariogramNugget :: real
  fc_VariogramSill :: real
  fc_VariogramRange :: real
  fc_VariogramAnisoAngle :: real
  fc_VariogramAnisoRatio :: real
  fc_EnableFallbackIDW :: bool
  fc_AutoFitVariogram :: bool
  fc_MaxInterpolatePerTick :: int

definition DefaultFillerConfig :: FillerConfig where
  "DefaultFillerConfig =
     \<lparr>fc_CellSize = 1 / 2, fc_SearchRadius = 4, fc_MaxKrigingNeighbors = int MaxKrigingNeighbors,
      fc_MaxVoidCellsPerPatch = 2048, fc_MinPointsForKriging = int MinKrigingNeighbors,
      fc_VariogramNugget = 1 / 100, fc_VariogramSill = 1, fc_VariogramRange = 50,
      fc_VariogramAnisoAngle = 0, fc_VariogramAnisoRatio = 1, fc_EnableFallbackIDW = True,
      fc_AutoFitVariogram = True, fc_MaxInterpolatePerTick = 256\<rparr>"

record FillerStats =
  fs_GridsProcessed :: u64
  fs_VoidCellsDetected :: u64
  fs_VoidCellsFilled :: u64
  fs_VoidCellsSkipped :: u64
  fs_KrigingInterpolations :: u64
  fs_IDWFallbacks :: u64
  fs_GridCellsTotal :: u64
  fs_GridCellsWithData :: u64
  fs_AvgInterpolateUs :: real
  fs_MinInterpolateUs :: real
  fs_MaxInterpolateUs :: real

record PatchFillResult =
  pf_PatchID :: u64
  pf_VoidCellsInPatch :: int
  pf_FilledCells :: int
  pf_SkippedCells :: int
  pf_KrigingCount :: int
  pf_IDWCount :: int
  pf_ElapsedUs :: int
  pf_FilledPoints :: "Point3D list"

definition empty_patch :: PatchFillResult where
  "empty_patch =
     \<lparr>pf_PatchID = 0, pf_VoidCellsInPatch = 0, pf_FilledCells = 0, pf_SkippedCells = 0, pf_KrigingCount = 0,
      pf_IDWCount = 0, pf_ElapsedUs = 0, pf_FilledPoints = []\<rparr>"

record void_filler =
  vf_config :: FillerConfig
  vf_kriging :: OrdinaryKriging
  vf_variogram :: VariogramParams
  vf_grid :: "SpatialGrid option"
  vf_mu :: bool
  vf_stats :: FillerStats
  vf_lastPatchID :: u64

record clock =
  ck_elapsed :: "nat \<Rightarrow> int"
  ck_stamp :: "nat \<Rightarrow> u64"
  ck_total :: int

definition NewVoidFiller :: "FillerConfig \<Rightarrow> void_filler" where
  "NewVoidFiller cfg =
     (let params = \<lparr>v_Model = ModelSpherical, v_Nugget = fc_VariogramNugget cfg, v_Sill = fc_VariogramSill cfg,
                    v_Range = fc_VariogramRange cfg, v_AnisoAngle = fc_VariogramAnisoAngle cfg,
                    v_AnisoRatio = fc_VariogramAnisoRatio cfg\<rparr>
      in \<lparr>vf_config = cfg, vf_kriging = NewOrdinaryKriging params, vf_variogram = params, vf_grid = None,
          vf_mu = False,
          vf_stats = \<lparr>fs_GridsProcessed = 0, fs_VoidCellsDetected = 0, fs_VoidCellsFilled = 0,
            fs_VoidCellsSkipped = 0, fs_KrigingInterpolations = 0, fs_IDWFallbacks = 0, fs_GridCellsTotal = 0,
            fs_GridCellsWithData = 0, fs_AvgInterpolateUs = 0, fs_MinInterpolateUs = 0, fs_MaxInterpolateUs = 0\<rparr>,
          vf_lastPatchID = 0\<rparr>)"

definition vf_lock :: "void_filler \<Rightarrow> void_filler go" where
  "vf_lock vf = (if vf_mu vf then Inl Deadlock else Inr (vf\<lparr>vf_mu := True\<rparr>))"

definition vf_unlock :: "void_filler \<Rightarrow> void_filler" where
  "vf_unlock vf = vf\<lparr>vf_mu := False\<rparr>"

definition SetGrid :: "SpatialGrid option \<Rightarrow> void_filler \<Rightarrow> void_filler go" where
  "SetGrid g vf =
     (case vf_lock vf of Inl s \<Rightarrow> Inl s | Inr vf1 \<Rightarrow> Inr (vf_unlock (vf1\<lparr>vf_grid := g\<rparr>)))"

definition SetVariogram :: "VariogramParams \<Rightarrow> void_filler \<Rightarrow> void_filler go" where
  "SetVariogram params vf =
     (case vf_lock vf of
        Inl s \<Rightarrow> Inl s
      | Inr vf1 \<Rightarrow> Inr (vf_unlock (vf1\<lparr>vf_variogram := params, vf_kriging := NewOrdinaryKriging params\<rparr>)))"

definition filler_GetStats :: "void_filler \<Rightarrow> FillerStats go" where
  "filler_GetStats vf = (case vf_lock vf of Inl s \<Rightarrow> Inl s | Inr vf1 \<Rightarrow> Inr (vf_stats vf1))"

definition GetVariogram :: "void_filler \<Rightarrow> VariogramParams go" where
  "GetVariogram vf = (case vf_lock vf of Inl s \<Rightarrow> Inl s | Inr vf1 \<Rightarrow> Inr (vf_variogram vf1))"

section \<open>Fitting the variogram to the grid\<close>

definition UpdateVariogramFromGrid :: "void_filler \<Rightarrow> (bool \<times> void_filler) go" where
  "UpdateVariogramFromGrid vf =
     (case vf_lock vf of
        Inl s \<Rightarrow> Inl s
      | Inr vf1 \<Rightarrow>
          (case vf_grid vf1 of
             None \<Rightarrow> Inr (False, vf_unlock vf1)
           | Some g \<Rightarrow>
               (let edgePoints = GetEdgePoints g (fc_SearchRadius (vf_config vf1)) in
                if length edgePoints < 30 then Inr (False, vf_unlock vf1)
                else
                  (let sampleSize = (if length edgePoints > 200 then 200 else length edgePoints);
                       step = length edgePoints div sampleSize;
                       samples = map (\<lambda>i. edgePoints ! (i * step)) [0..<sampleSize];
                       fitted = FitVariogram samples ModelSpherical (fc_VariogramRange (vf_config vf1) * 2) 20;
                       params = fitted\<lparr>v_AnisoAngle := v_AnisoAngle (vf_variogram vf1),
                                       v_AnisoRatio := v_AnisoRatio (vf_variogram vf1)\<rparr>
                   in Inr (True, vf_unlock (vf1\<lparr>vf_variogram := params, vf_kriging := NewOrdinaryKriging params\<rparr>))))))"

section \<open>Filling void cells\<close>

text \<open>The filler's own fallback, which weights by the fourth power of the distance.\<close>

fun fourth_power_loop :: "real \<Rightarrow> real \<Rightarrow> SamplePoint list \<Rightarrow> real \<Rightarrow> real \<Rightarrow> SamplePoint + (real \<times> real)" where
  "fourth_power_loop x y [] wSum wVal = Inr (wSum, wVal)"
| "fourth_power_loop x y (c # cs) wSum wVal =
     (let dx = s_X c - x; dy = s_Y c - y; d = dx * dx + dy * dy in
      if d < 1 / 10 ^ 12 then Inl c
      else (let w = 1 / (d * d) in fourth_power_loop x y cs (wSum + w) (wVal + w * s_Value c)))"

datatype idw_error = NoNeighbors | ZeroWeights

definition filler_fallbackIDW :: "real \<Rightarrow> real \<Rightarrow> SamplePoint list \<Rightarrow> idw_error + KrigingResult" where
  "filler_fallbackIDW x y neighbors =
     (if neighbors = [] then Inl NoNeighbors
      else case fourth_power_loop x y neighbors 0 0 of
        Inl c \<Rightarrow> Inr \<lparr>kr_Value = Some (s_Value c), kr_Variance = Some 0, kr_Weights = [], kr_NumNeighbors = 1\<rparr>
      | Inr (wSum, wVal) \<Rightarrow>
          if wSum < 1 / 10 ^ 12 then Inl ZeroWeights
          else Inr \<lparr>kr_Value = Some (wVal / wSum), kr_Variance = Some 0, kr_Weights = [],
                    kr_NumNeighbors = length neighbors\<rparr>)"

definition clamp_index :: "nat \<Rightarrow> int \<Rightarrow> nat" where
  "clamp_index n t = (let t0 = (if t < 0 then 0 else t) in if t0 \<ge> int n then n - 1 else nat t0)"

text \<open>The depth of a result; the results the loop uses are numbers.\<close>

definition result_depth :: "KrigingResult \<Rightarrow> real" where
  "result_depth r = (case kr_Value r of None \<Rightarrow> 0 | Some v \<Rightarrow> v)"

definition time_stats :: "int \<Rightarrow> nat \<Rightarrow> FillerStats \<Rightarrow> FillerStats" where
  "time_stats elapsedUs totalInterpolated st =
     (let e = real_of_int elapsedUs;
          st1 = (if fs_MinInterpolateUs st = 0 \<or> e < fs_MinInterpolateUs st then st\<lparr>fs_MinInterpolateUs := e\<rparr> else st);
          st2 = (if e > fs_MaxInterpolateUs st1 then st1\<lparr>fs_MaxInterpolateUs := e\<rparr> else st1)
      in st2\<lparr>fs_AvgInterpolateUs :=
           (fs_AvgInterpolateUs st2 * real (totalInterpolated - 1) + e) / real totalInterpolated\<rparr>)"

definition filled_point :: "clock \<Rightarrow> nat \<Rightarrow> GridCell \<Rightarrow> KrigingResult \<Rightarrow> SamplePoint list \<Rightarrow> Point3D" where
  "filled_point ck n c r neighbors =
     \<lparr>q_Latitude = (if neighbors = [] then 0 else s_X (hd neighbors)),
      q_Longitude = (if neighbors = [] then 0 else s_Y (hd neighbors)),
      q_Depth = result_depth r, q_X = gc_CenterX c, q_Y = gc_CenterY c, q_Z = 0, q_Intensity = 128,
      q_TimestampUS = ck_stamp ck n, q_PingIndex = 0, q_BeamIndex = 0\<rparr>"

text \<open>The loop's state: grid, counters of the filler, patch result, cells filled, interpolations.\<close>

record fill_state =
  fl_grid :: SpatialGrid
  fl_stats :: FillerStats
  fl_patch :: PatchFillResult
  fl_totalFilled :: nat
  fl_totalInterpolated :: nat

definition interpolate_cell ::
    "void_filler \<Rightarrow> GridCell \<Rightarrow> SamplePoint list \<Rightarrow> fill_state \<Rightarrow> KrigingResult option \<times> fill_state" where
  "interpolate_cell vf c neighbors s =
     (case kriging_Interpolate (vf_kriging vf) (gc_CenterX c) (gc_CenterY c) neighbors of
        Inr r \<Rightarrow>
          (Some r, s\<lparr>fl_patch := (fl_patch s)\<lparr>pf_KrigingCount := pf_KrigingCount (fl_patch s) + 1\<rparr>,
                     fl_stats := (fl_stats s)\<lparr>fs_KrigingInterpolations := fs_KrigingInterpolations (fl_stats s) + 1\<rparr>\<rparr>)
      | Inl _ \<Rightarrow>
          (let skipped = s\<lparr>fl_patch := (fl_patch s)\<lparr>pf_SkippedCells := pf_SkippedCells (fl_patch s) + 1\<rparr>,
                            fl_stats := (fl_stats s)\<lparr>fs_VoidCellsSkipped := fs_VoidCellsSkipped (fl_stats s) + 1\<rparr>\<rparr>
           in if fc_EnableFallbackIDW (vf_config vf) then
                (case filler_fallbackIDW (gc_CenterX c) (gc_CenterY c) neighbors of
                   Inl _ \<Rightarrow> (None, skipped)
                 | Inr r \<Rightarrow>
                     (Some r, s\<lparr>fl_patch := (fl_patch s)\<lparr>pf_IDWCount := pf_IDWCount (fl_patch s) + 1\<rparr>,
                                fl_stats := (fl_stats s)\<lparr>fs_IDWFallbacks := fs_IDWFallbacks (fl_stats s) + 1\<rparr>\<rparr>))
              else (None, skipped)))"

definition fill_cell :: "clock \<Rightarrow> void_filler \<Rightarrow> GridCell \<Rightarrow> fill_state \<Rightarrow> fill_state" where
  "fill_cell ck vf c s =
     (let g = fl_grid s; cfg = sg_config g; inv = 1 / fc_CellSize (vf_config vf);
          cx = clamp_index (sg_numColsX g) (go_trunc ((gc_CenterX c - g_MinX cfg) * inv));
          cy = clamp_index (sg_numRowsY g) (go_trunc ((gc_CenterY c - g_MinY cfg) * inv));
          neighbors = GetNeighbors g cx cy (fc_SearchRadius (vf_config vf))
      in if int (length neighbors) < fc_MinPointsForKriging (vf_config vf) then
           s\<lparr>fl_patch := (fl_patch s)\<lparr>pf_SkippedCells := pf_SkippedCells (fl_patch s) + 1\<rparr>\<rparr>
         else
           (let n = fl_totalInterpolated s + 1; s1 = s\<lparr>fl_totalInterpolated := n\<rparr> in
            case interpolate_cell vf c neighbors s1 of
              (None, s2) \<Rightarrow> s2
            | (Some r, s2) \<Rightarrow>
                (let p = filled_point ck n c r neighbors in
                 s2\<lparr>fl_stats := time_stats (ck_elapsed ck n) n (fl_stats s2),
                    fl_grid := fst (SetCellFilled (fl_grid s2) cx cy p),
                    fl_patch := (fl_patch s2)\<lparr>pf_FilledPoints := pf_FilledPoints (fl_patch s2) @ [p],
                                 pf_FilledCells := pf_FilledCells (fl_patch s2) + 1\<rparr>,
                    fl_totalFilled := fl_totalFilled s2 + 1\<rparr>)))"

text \<open>The loop over the void cells, left when the limit of interpolations is reached.\<close>

fun fill_loop :: "clock \<Rightarrow> void_filler \<Rightarrow> int \<Rightarrow> GridCell list \<Rightarrow> fill_state \<Rightarrow> fill_state" where
  "fill_loop ck vf maxI [] s = s"
| "fill_loop ck vf maxI (c # cs) s =
     (if int (fl_totalInterpolated s) \<ge> maxI then
        (let skipped = pf_VoidCellsInPatch (fl_patch s) - int (fl_totalFilled s) in
         s\<lparr>fl_patch := (fl_patch s)\<lparr>pf_SkippedCells := skipped\<rparr>,
           fl_stats := (fl_stats s)\<lparr>fs_VoidCellsSkipped := fs_VoidCellsSkipped (fl_stats s) + of_int skipped\<rparr>\<rparr>)
      else fill_loop ck vf maxI cs (fill_cell ck vf c s))"

definition fillVoidsLocked :: "clock \<Rightarrow> VoidInfo \<Rightarrow> void_filler \<Rightarrow> (PatchFillResult \<times> void_filler) go" where
  "fillVoidsLocked ck info vf =
     (case vf_grid vf of
        None \<Rightarrow> Inl Panic
      | Some g \<Rightarrow>
          (let vf1 = vf\<lparr>vf_lastPatchID := vf_lastPatchID vf + 1\<rparr>;
               voidCells = GetVoidCells g;
               maxI = (if fc_MaxInterpolatePerTick (vf_config vf) \<le> 0 then int (length voidCells)
                       else fc_MaxInterpolatePerTick (vf_config vf));
               s = fill_loop ck vf1 maxI voidCells
                     \<lparr>fl_grid = g, fl_stats = vf_stats vf1,
                      fl_patch = empty_patch\<lparr>pf_PatchID := vf_lastPatchID vf1,
                                             pf_VoidCellsInPatch := int (vi_VoidCells info)\<rparr>,
                      fl_totalFilled = 0, fl_totalInterpolated = 0\<rparr>
           in Inr ((fl_patch s)\<lparr>pf_ElapsedUs := ck_total ck\<rparr>,
                   vf1\<lparr>vf_grid := Some (fl_grid s),
                       vf_stats := (fl_stats s)\<lparr>fs_VoidCellsFilled :=
                         fs_VoidCellsFilled (fl_stats s) + of_nat (fl_totalFilled s)\<rparr>\<rparr>)))"

section \<open>Processing points\<close>

fun bounds_loop :: "Point3D list \<Rightarrow> real \<times> real \<times> real \<times> real \<Rightarrow> real \<times> real \<times> real \<times> real" where
  "bounds_loop [] b = b"
| "bounds_loop (p # ps) (minX, minY, maxX, maxY) =
     bounds_loop ps (if q_X p < minX then q_X p else minX, if q_Y p < minY then q_Y p else minY,
                     if q_X p > maxX then q_X p else maxX, if q_Y p > maxY then q_Y p else maxY)"

text \<open>\<open>points[0]\<close> of an empty slice would panic; the caller has checked the length.\<close>

definition defaultBounds :: "Point3D list \<Rightarrow> real \<times> real \<times> real \<times> real" where
  "defaultBounds points =
     (let p = hd points in bounds_loop (tl points) (q_X p, q_Y p, q_X p, q_Y p))"

definition outOfBounds :: "SpatialGrid \<Rightarrow> real \<Rightarrow> real \<Rightarrow> real \<Rightarrow> real \<Rightarrow> bool" where
  "outOfBounds g minX minY maxX maxY =
     (case Bounds g of (gMinX, gMinY, gMaxX, gMaxY) \<Rightarrow>
        minX < gMinX \<or> minY < gMinY \<or> maxX > gMaxX \<or> maxY > gMaxY)"

definition gridConfig :: "FillerConfig \<Rightarrow> real \<Rightarrow> real \<Rightarrow> real \<Rightarrow> real \<Rightarrow> GridConfig" where
  "gridConfig cfg minX minY maxX maxY =
     \<lparr>g_CellSize = fc_CellSize cfg, g_MinX = minX, g_MinY = minY, g_MaxX = maxX, g_MaxY = maxY,
      g_DepthThreshold = 1 / 10, g_EdgeDepthDiff = 1, g_MinPointsPerCell = 1\<rparr>"

text \<open>Whether a new grid for these points would be one that \<open>make\<close> accepts.\<close>

definition fill_fits :: "FillerConfig \<Rightarrow> Point3D list \<Rightarrow> bool" where
  "fill_fits cfg points \<longleftrightarrow>
     points = [] \<or>
     (case defaultBounds points of (minX, minY, maxX, maxY) \<Rightarrow>
        let padding = fc_CellSize cfg * real_of_int (fc_SearchRadius cfg + 1)
        in grid_fits (gridConfig cfg (minX - padding) (minY - padding) (maxX + padding) (maxY + padding)))"

text \<open>The grid that \<open>ProcessAndFill\<close> puts the points into, with their statistics.\<close>

definition prepare_grid :: "void_filler \<Rightarrow> Point3D list \<Rightarrow> real \<times> real \<times> real \<times> real \<Rightarrow> SpatialGrid" where
  "prepare_grid vf points = (\<lambda>(minX, minY, maxX, maxY).
     (let cfg = vf_config vf;
          fresh = (let padding = fc_CellSize cfg * real_of_int (fc_SearchRadius cfg + 1)
                   in NewSpatialGrid (gridConfig cfg (minX - padding) (minY - padding) (maxX + padding) (maxY + padding)));
          g = (case vf_grid vf of
                 None \<Rightarrow> fresh
               | Some g0 \<Rightarrow> if outOfBounds g0 minX minY maxX maxY then fresh else grid_Reset g0)
      in ComputeStatistics (fst (AddPoints g points))))"

definition count_grid :: "VoidInfo \<Rightarrow> FillerStats \<Rightarrow> FillerStats" where
  "count_grid info st =
     st\<lparr>fs_GridsProcessed := fs_GridsProcessed st + 1,
        fs_GridCellsTotal := fs_GridCellsTotal st + of_nat (vi_TotalCells info),
        fs_GridCellsWithData := fs_GridCellsWithData st + of_nat (vi_DataCells info),
        fs_VoidCellsDetected := fs_VoidCellsDetected st + of_nat (vi_VoidCells info)\<rparr>"

datatype filler_error = NoPoints

definition ProcessAndFill ::
    "clock \<Rightarrow> Point3D list \<Rightarrow> (Point3D list \<Rightarrow> real \<times> real \<times> real \<times> real) option \<Rightarrow> void_filler \<Rightarrow>
     ((filler_error + (PatchFillResult \<times> Point3D list)) \<times> void_filler) go" where
  "ProcessAndFill ck points computeBounds vf =
     (case vf_lock vf of
        Inl s \<Rightarrow> Inl s
      | Inr vf1 \<Rightarrow>
          if points = [] then Inr (Inl NoPoints, vf_unlock vf1)
          else
            (let bounds = (case computeBounds of None \<Rightarrow> defaultBounds | Some f \<Rightarrow> f) points;
                 g = prepare_grid vf1 points bounds;
                 info = AnalyzeVoids g;
                 vf2 = vf1\<lparr>vf_grid := Some g, vf_stats := count_grid info (vf_stats vf1)\<rparr>
             in if vi_VoidCells info = 0 then
                  (let result = InterpolatedPoints g
                   in Inr (Inr (empty_patch\<lparr>pf_FilledPoints := result\<rparr>, result), vf_unlock vf2))
                else
                  (case (if fc_AutoFitVariogram (vf_config vf2) then UpdateVariogramFromGrid vf2
                         else Inr (False, vf2)) of
                     Inl s \<Rightarrow> Inl s
                   | Inr (_, vf3) \<Rightarrow>
                       (case fillVoidsLocked ck info vf3 of
                          Inl s \<Rightarrow> Inl s
                        | Inr (result, vf4) \<Rightarrow>
                            Inr (Inr (result, (case vf_grid vf4 of None \<Rightarrow> [] | Some g' \<Rightarrow> InterpolatedPoints g')),
                                 vf_unlock vf4)))))"

definition FillFrames ::
    "clock \<Rightarrow> PointCloudFrame list \<Rightarrow> void_filler \<Rightarrow>
     ((filler_error + (Point3D list \<times> PatchFillResult list)) \<times> void_filler) go" where
  "FillFrames ck frames vf =
     (let allPoints = concat (map f_Points frames) in
      if allPoints = [] then Inr (Inl NoPoints, vf)
      else
        (case ProcessAndFill ck allPoints None vf of
           Inl s \<Rightarrow> Inl s
         | Inr (Inl e, vf1) \<Rightarrow> Inr (Inl e, vf1)
         | Inr (Inr (_, filled), vf1) \<Rightarrow>
             (case vf_grid vf1 of
                None \<Rightarrow> Inl Panic
              | Some g \<Rightarrow>
                  Inr (Inr (filled, [empty_patch\<lparr>pf_VoidCellsInPatch := int (vi_VoidCells (AnalyzeVoids g)),
                                                 pf_FilledCells := int (length filled) - int (length allPoints),
                                                 pf_FilledPoints := filled\<rparr>]), vf1))))"

end
