(* ===== verification/Grid_Correct.thy ===== *)
theory Grid_Correct
  imports Spatial_Grid
begin

text \<open>
  Properties of the spatial grid: each point of the rectangle falls into the one cell that
  contains it, and the statistics mark a cell void or edge exactly as its points and its
  neighbours say.
\<close>

section \<open>Locating points\<close>

definition in_cell :: "GridCell \<Rightarrow> Point3D \<Rightarrow> bool" where
  "in_cell c p \<longleftrightarrow> gc_MinX c \<le> q_X p \<and> q_X p < gc_MaxX c \<and> gc_MinY c \<le> q_Y p \<and> q_Y p < gc_MaxY c"

text \<open>A coordinate is in the interval of its truncated quotient, and in no other.\<close>

lemma interval_index:
  fixes x m s :: real
  assumes "0 < s" and "m \<le> x"
  shows "m + real k * s \<le> x \<and> x < m + real (k + 1) * s \<longleftrightarrow> nat (go_trunc ((x - m) / s)) = k"
proof -
  have "0 \<le> (x - m) / s" using assms by simp
  then have "nat (go_trunc ((x - m) / s)) = k \<longleftrightarrow> \<lfloor>(x - m) / s\<rfloor> = int k"
    by (auto simp: go_trunc_nonneg)
  also have "\<dots> \<longleftrightarrow> real k \<le> (x - m) / s \<and> (x - m) / s < real k + 1"
    by (simp add: floor_eq_iff)
  finally show ?thesis
    using assms(1) by (simp add: field_simps)
qed

lemma index_bound:
  fixes x m M s :: real
  assumes "0 < s" and "m \<le> x" and "x < M"
  shows "nat (go_trunc ((x - m) / s)) < nat \<lceil>(M - m) / s\<rceil> + 1"
proof -
  have "(x - m) / s < (M - m) / s" and "0 \<le> (x - m) / s"
    using assms by (simp_all add: divide_strict_right_mono)
  then have "\<lfloor>(x - m) / s\<rfloor> \<le> \<lceil>(M - m) / s\<rceil>"
    by linarith
  with \<open>0 \<le> (x - m) / s\<close> show ?thesis
    by (simp add: go_trunc_nonneg nat_mono le_imp_less_Suc)
qed

text \<open>The cells of a grid keep their place; \<open>placed\<close> is all that locating a point relies on.\<close>

definition placed :: "SpatialGrid \<Rightarrow> bool" where
  "placed g \<longleftrightarrow>
     0 < g_CellSize (sg_config g) \<and> 0 < sg_numRowsY g
   \<and> length (sg_cells g) = sg_numColsX g * sg_numRowsY g
   \<and> (g_MinX (sg_config g) < g_MaxX (sg_config g) \<longrightarrow>
        nat \<lceil>(g_MaxX (sg_config g) - g_MinX (sg_config g)) / g_CellSize (sg_config g)\<rceil> + 1 \<le> sg_numColsX g)
   \<and> (g_MinY (sg_config g) < g_MaxY (sg_config g) \<longrightarrow>
        nat \<lceil>(g_MaxY (sg_config g) - g_MinY (sg_config g)) / g_CellSize (sg_config g)\<rceil> + 1 \<le> sg_numRowsY g)
   \<and> (\<forall>i < length (sg_cells g). \<forall>p. in_cell (sg_cells g ! i) p = in_cell (new_cell (sg_config g) (sg_numRowsY g) i) p)"

lemma new_grid_cells:
  "sg_cells (NewSpatialGrid cfg) = map (new_cell cfg (sg_numRowsY (NewSpatialGrid cfg)))
     [0..<sg_numColsX (NewSpatialGrid cfg) * sg_numRowsY (NewSpatialGrid cfg)]"
  "sg_config (NewSpatialGrid cfg) = cfg"
  by (simp_all add: NewSpatialGrid_def Let_def)

lemma placed_new:
  assumes "0 < g_CellSize cfg"
  shows "placed (NewSpatialGrid cfg)"
proof -
  have "0 < sg_numRowsY (NewSpatialGrid cfg)"
    by (simp add: NewSpatialGrid_def Let_def)
  moreover have "g_MinX cfg < g_MaxX cfg \<Longrightarrow>
      nat \<lceil>(g_MaxX cfg - g_MinX cfg) / g_CellSize cfg\<rceil> + 1 = sg_numColsX (NewSpatialGrid cfg)"
    "g_MinY cfg < g_MaxY cfg \<Longrightarrow>
      nat \<lceil>(g_MaxY cfg - g_MinY cfg) / g_CellSize cfg\<rceil> + 1 = sg_numRowsY (NewSpatialGrid cfg)"
    by (simp_all add: NewSpatialGrid_def Let_def)
  ultimately show ?thesis
    using assms by (simp add: placed_def new_grid_cells)
qed

lemma in_new_cell:
  assumes "0 < g_CellSize cfg" and "g_MinX cfg \<le> q_X p" and "g_MinY cfg \<le> q_Y p"
  shows "in_cell (new_cell cfg rows i) p \<longleftrightarrow>
           nat (go_trunc ((q_X p - g_MinX cfg) / g_CellSize cfg)) = i div rows
         \<and> nat (go_trunc ((q_Y p - g_MinY cfg) / g_CellSize cfg)) = i mod rows"
  using interval_index [OF assms(1,2), of "i div rows"] interval_index [OF assms(1,3), of "i mod rows"]
  by (auto simp: in_cell_def new_cell_def Let_def)

lemma cellIndex_iff:
  assumes "placed g"
  shows "cellIndex g (q_X p) (q_Y p) = Some i \<longleftrightarrow>
           i < length (sg_cells g) \<and> in_bounds (sg_config g) (q_X p) (q_Y p) \<and> in_cell (sg_cells g ! i) p"
proof (cases "in_bounds (sg_config g) (q_X p) (q_Y p)")
  case False
  then show ?thesis by (simp add: cellIndex_def Let_def)
next
  case True
  let ?cfg = "sg_config g" and ?rows = "sg_numRowsY g"
  let ?cx = "nat (go_trunc ((q_X p - g_MinX ?cfg) / g_CellSize ?cfg))"
    and ?cy = "nat (go_trunc ((q_Y p - g_MinY ?cfg) / g_CellSize ?cfg))"
  have b: "g_MinX ?cfg \<le> q_X p" "q_X p < g_MaxX ?cfg" "g_MinY ?cfg \<le> q_Y p" "q_Y p < g_MaxY ?cfg"
    using True by (auto simp: in_bounds_def)
  have rows: "0 < ?rows" "0 < g_CellSize ?cfg"
    using assms by (simp_all add: placed_def)
  have "?cx < nat \<lceil>(g_MaxX ?cfg - g_MinX ?cfg) / g_CellSize ?cfg\<rceil> + 1"
    and "?cy < nat \<lceil>(g_MaxY ?cfg - g_MinY ?cfg) / g_CellSize ?cfg\<rceil> + 1"
    by (rule index_bound [OF rows(2) b(1,2)], rule index_bound [OF rows(2) b(3,4)])
  then have range: "?cx < sg_numColsX g" "?cy < ?rows"
    using assms b by (auto simp: placed_def)
  have "cellIndex g (q_X p) (q_Y p) = Some i \<longleftrightarrow> ?cx * ?rows + ?cy = i"
    using True range by (simp add: cellIndex_def Let_def)
  also have "\<dots> \<longleftrightarrow> i < sg_numColsX g * ?rows \<and> ?cx = i div ?rows \<and> ?cy = i mod ?rows"
  proof
    assume "?cx * ?rows + ?cy = i"
    then show "i < sg_numColsX g * ?rows \<and> ?cx = i div ?rows \<and> ?cy = i mod ?rows"
      using range mult_le_mono1 [of "Suc ?cx" "sg_numColsX g" ?rows] by (auto simp: div_mult_self3)
  next
    assume "i < sg_numColsX g * ?rows \<and> ?cx = i div ?rows \<and> ?cy = i mod ?rows"
    then show "?cx * ?rows + ?cy = i" by simp
  qed
  also have "\<dots> \<longleftrightarrow> i < length (sg_cells g) \<and> in_cell (sg_cells g ! i) p"
    using assms in_new_cell [OF rows(2) b(1,3), of ?rows i] by (auto simp: placed_def)
  finally show ?thesis using True by simp
qed

lemma in_bounds_located:
  assumes "placed g" and "in_bounds (sg_config g) (q_X p) (q_Y p)"
  shows "cellIndex g (q_X p) (q_Y p) \<noteq> None"
proof -
  let ?cfg = "sg_config g"
  have b: "g_MinX ?cfg \<le> q_X p" "q_X p < g_MaxX ?cfg" "g_MinY ?cfg \<le> q_Y p" "q_Y p < g_MaxY ?cfg"
    using assms(2) by (auto simp: in_bounds_def)
  with assms(1) index_bound [of "g_CellSize ?cfg" "g_MinX ?cfg" "q_X p" "g_MaxX ?cfg"]
    index_bound [of "g_CellSize ?cfg" "g_MinY ?cfg" "q_Y p" "g_MaxY ?cfg"] assms(2)
  show ?thesis by (auto simp: cellIndex_def placed_def Let_def)
qed

section \<open>Adding points\<close>

lemma add_keeps_places:
  assumes "placed g"
  shows "placed (fst (grid_AddPoint g p)) \<and> sg_config (fst (grid_AddPoint g p)) = sg_config g
       \<and> cellIndex (fst (grid_AddPoint g p)) = cellIndex g
       \<and> length (sg_cells (fst (grid_AddPoint g p))) = length (sg_cells g)"
proof (cases "cellIndex g (q_X p) (q_Y p)")
  case (Some i)
  have "in_cell (cell_add p c) = in_cell c" for c
    by (auto simp: in_cell_def cell_add_def)
  then have "in_cell ((sg_cells g)[i := cell_add p (sg_cells g ! i)] ! k) = in_cell (sg_cells g ! k)" for k
    by (cases "i < length (sg_cells g)") (auto simp: nth_list_update list_update_beyond)
  moreover have "cellIndex (g\<lparr>sg_cells := cs\<rparr>) = cellIndex g" for cs
    by (simp add: fun_eq_iff cellIndex_def Let_def)
  ultimately show ?thesis
    using assms by (simp add: grid_AddPoint_def Some placed_def)
qed (use assms in \<open>simp add: grid_AddPoint_def\<close>)

lemma AddPoints_step:
  assumes "placed g"
  shows "placed (fst (AddPoints g ps)) \<and> sg_config (fst (AddPoints g ps)) = sg_config g
       \<and> length (sg_cells (fst (AddPoints g ps))) = length (sg_cells g)
       \<and> snd (AddPoints g ps) = length (filter (\<lambda>p. in_bounds (sg_config g) (q_X p) (q_Y p)) ps)
       \<and> (\<forall>i < length (sg_cells g). gc_Points (sg_cells (fst (AddPoints g ps)) ! i)
             = gc_Points (sg_cells g ! i) @ filter (\<lambda>p. cellIndex g (q_X p) (q_Y p) = Some i) ps)
       \<and> cellIndex (fst (AddPoints g ps)) = cellIndex g"
proof (induction ps rule: rev_induct)
  case (snoc p ps)
  obtain g' n where g': "AddPoints g ps = (g', n)"
    by (cases "AddPoints g ps")
  obtain g'' ok where add: "grid_AddPoint g' p = (g'', ok)"
    by (cases "grid_AddPoint g' p")
  have all: "AddPoints g (ps @ [p]) = (g'', if ok then n + 1 else n)"
    using g' add by (simp add: AddPoints_def)
  note IH = snoc.IH [unfolded g' fst_conv snd_conv]
  note keep = add_keeps_places [of g' p, unfolded add fst_conv]
  have loc: "cellIndex g (q_X p) (q_Y p) \<noteq> None \<longleftrightarrow> in_bounds (sg_config g) (q_X p) (q_Y p)"
    using in_bounds_located [OF assms, of p] by (auto simp: cellIndex_def Let_def)
  have ok: "ok \<longleftrightarrow> cellIndex g (q_X p) (q_Y p) \<noteq> None"
    using add IH by (auto simp: grid_AddPoint_def split: option.splits)
  have "gc_Points (sg_cells g'' ! i) = gc_Points (sg_cells g' ! i)
      @ (if cellIndex g (q_X p) (q_Y p) = Some i then [p] else [])" if "i < length (sg_cells g)" for i
    using add IH that by (auto simp: grid_AddPoint_def nth_list_update cell_add_def split: option.splits)
  with IH keep all loc ok show ?case by auto
qed (use assms in \<open>simp add: AddPoints_def\<close>)

text \<open>Points added to a new grid: each point inside the rectangle goes into the cell that contains
  it and into no other, in the order of arrival; the others are refused, and the count returned
  is the number of points inside.\<close>

theorem grid_holds_points:
  assumes "0 < g_CellSize cfg" and "AddPoints (NewSpatialGrid cfg) ps = (g, n)"
  shows "n = length (filter (\<lambda>p. in_bounds cfg (q_X p) (q_Y p)) ps)
       \<and> (\<forall>i < length (sg_cells g). gc_Points (sg_cells g ! i)
             = filter (\<lambda>p. in_bounds cfg (q_X p) (q_Y p) \<and> in_cell (sg_cells g ! i) p) ps)
       \<and> (\<forall>p \<in> set ps. in_bounds cfg (q_X p) (q_Y p) \<longrightarrow> (\<exists>i < length (sg_cells g). p \<in> set (gc_Points (sg_cells g ! i))))"
proof -
  let ?g0 = "NewSpatialGrid cfg"
  have cfg: "sg_config ?g0 = cfg" and empty: "i < length (sg_cells ?g0) \<Longrightarrow> gc_Points (sg_cells ?g0 ! i) = []" for i
    by (simp_all add: new_grid_cells new_cell_def Let_def)
  note add = AddPoints_step [OF placed_new [OF assms(1)], of ps, unfolded assms(2) fst_conv snd_conv cfg]
  have cells: "gc_Points (sg_cells g ! i)
      = filter (\<lambda>p. in_bounds cfg (q_X p) (q_Y p) \<and> in_cell (sg_cells g ! i) p) ps" if "i < length (sg_cells g)" for i
    using add that empty cellIndex_iff [of g _ i] by auto
  moreover have "\<exists>i < length (sg_cells g). p \<in> set (gc_Points (sg_cells g ! i))"
    if p: "p \<in> set ps" "in_bounds cfg (q_X p) (q_Y p)" for p
  proof -
    obtain i where "cellIndex g (q_X p) (q_Y p) = Some i"
      using in_bounds_located [of g p] add p(2) by auto
    with p cells cellIndex_iff [of g p i] add show ?thesis by (intro exI [of _ i]) auto
  qed
  ultimately show ?thesis using add by simp
qed

section \<open>Statistics\<close>

lemma around_iff:
  "(nx, ny) \<in> set (around cols rows r cx cy) \<longleftrightarrow>
     nx < cols \<and> ny < rows \<and> \<bar>int nx - int cx\<bar> \<le> r \<and> \<bar>int ny - int cy\<bar> \<le> r"
proof
  assume "(nx, ny) \<in> set (around cols rows r cx cy)"
  then show "nx < cols \<and> ny < rows \<and> \<bar>int nx - int cx\<bar> \<le> r \<and> \<bar>int ny - int cy\<bar> \<le> r"
    by (auto simp: around_def)
next
  assume *: "nx < cols \<and> ny < rows \<and> \<bar>int nx - int cx\<bar> \<le> r \<and> \<bar>int ny - int cy\<bar> \<le> r"
  then have "(int nx - int cx, int ny - int cy) \<in> set (List.product [- r..r] [- r..r])"
    by auto
  then have "(int nx, int ny) \<in> set (map (\<lambda>(dx, dy). (int cx + dx, int cy + dy)) (List.product [- r..r] [- r..r]))"
    by (force simp: image_iff)
  with * show "(nx, ny) \<in> set (around cols rows r cx cy)"
    by (force simp: around_def image_iff)
qed

lemma mark_void_id: "mark_void cols rows cells xy = cells"
proof (cases xy)
  case (Pair cx cy)
  have "c\<lparr>gc_IsVoid := True\<rparr> = c" if "gc_IsVoid c" for c
    using that by (cases c) simp
  then have "gc_IsVoid (cells ! k) \<Longrightarrow> cells[k := (cells ! k)\<lparr>gc_IsVoid := True\<rparr>] = cells" for k
    by (metis list_update_id)
  with Pair show ?thesis by (simp add: mark_void_def Let_def)
qed

lemma cell_coords: "cy < rows \<Longrightarrow> ny < rows \<Longrightarrow> cx * rows + cy = nx * rows + ny \<longleftrightarrow> cx = nx \<and> cy = (ny :: nat)"
proof
  assume less: "cy < rows" "ny < rows" and eq: "cx * rows + cy = nx * rows + ny"
  have "(a * rows + b) div rows = a" if "b < rows" for a b
    using that by simp
  with less eq have "cx = nx" by metis
  with eq show "cx = nx \<and> cy = ny" by simp
qed simp

text \<open>Everything of a cell but its edge flag.\<close>

definition no_edge :: "GridCell \<Rightarrow> GridCell" where
  "no_edge c = c\<lparr>gc_IsEdge := False\<rparr>"

lemma has_void_cong:
  assumes "map no_edge cells' = map no_edge cells" and "length cells = cols * rows"
  shows "has_neighbor gc_IsVoid cols rows cells' cx cy = has_neighbor gc_IsVoid cols rows cells cx cy"
proof -
  have len: "length cells' = length cells"
    using assms(1) by (metis length_map)
  have "gc_IsVoid (cells' ! k) = gc_IsVoid (cells ! k)" if "k < length cells" for k
    using arg_cong [OF assms(1), of "\<lambda>cs. gc_IsVoid (cs ! k)"] that len by (simp add: no_edge_def)
  moreover have "nx * rows + ny < length cells" if "nx < cols" "ny < rows" for nx ny
    using that mult_le_mono1 [of "Suc nx" cols rows] assms(2) by simp
  ultimately show ?thesis
    unfolding has_neighbor_def list_ex_iff
    by (intro bex_cong [OF refl]) (auto simp: around_iff)
qed

lemma mark_edges:
  assumes "length cells = cols * rows" and "\<forall>(cx, cy) \<in> set xys. cx < cols \<and> cy < rows"
  shows "map no_edge (foldl (mark_edge cols rows) cells xys) = map no_edge cells
       \<and> (\<forall>cx < cols. \<forall>cy < rows. gc_IsEdge (foldl (mark_edge cols rows) cells xys ! (cx * rows + cy))
            = (if (cx, cy) \<in> set xys \<and> gc_HasData (cells ! (cx * rows + cy))
               then has_neighbor gc_IsVoid cols rows cells cx cy else gc_IsEdge (cells ! (cx * rows + cy))))"
  using assms(2)
proof (induction xys rule: rev_induct)
  case (snoc xy xys)
  obtain x y where xy: "xy = (x, y)" "x < cols" "y < rows"
    using snoc.prems by (cases xy) auto
  let ?m = "foldl (mark_edge cols rows) cells xys" and ?k = "x * rows + y"
  have IH: "map no_edge ?m = map no_edge cells"
    "\<And>cx cy. cx < cols \<Longrightarrow> cy < rows \<Longrightarrow> gc_IsEdge (?m ! (cx * rows + cy))
            = (if (cx, cy) \<in> set xys \<and> gc_HasData (cells ! (cx * rows + cy))
               then has_neighbor gc_IsVoid cols rows cells cx cy else gc_IsEdge (cells ! (cx * rows + cy)))"
    using snoc by auto
  have len: "length ?m = length cells"
    using IH(1) by (metis length_map)
  have bound: "cx * rows + cy < length cells" if "cx < cols" "cy < rows" for cx cy
    using that mult_le_mono1 [of "Suc cx" cols rows] assms(1) by simp
  have data: "gc_HasData (?m ! ?k) = gc_HasData (cells ! ?k)"
    using arg_cong [OF IH(1), of "\<lambda>cs. gc_HasData (cs ! ?k)"] bound [OF xy(2,3)] len by (simp add: no_edge_def)
  show ?case
  proof (cases "gc_HasData (cells ! ?k)")
    case True
    then have step: "foldl (mark_edge cols rows) cells (xys @ [xy])
        = ?m[?k := (?m ! ?k)\<lparr>gc_IsEdge := has_neighbor gc_IsVoid cols rows cells x y\<rparr>]"
      using data xy has_void_cong [OF IH(1) assms(1)] by (simp add: mark_edge_def Let_def)
    have "map no_edge (?m[?k := (?m ! ?k)\<lparr>gc_IsEdge := has_neighbor gc_IsVoid cols rows cells x y\<rparr>]) = map no_edge ?m"
      by (simp add: map_update no_edge_def) (metis list_update_id map_update no_edge_def)
    with IH step True bound len xy show ?thesis
      by (auto simp: nth_list_update cell_coords)
  next
    case False
    with data xy have "foldl (mark_edge cols rows) cells (xys @ [xy]) = ?m"
      by (simp add: mark_edge_def Let_def)
    with IH False xy show ?thesis by auto
  qed
qed simp

lemma has_neighbor_iff:
  "has_neighbor P cols rows cells cx cy \<longleftrightarrow>
     (\<exists>nx < cols. \<exists>ny < rows. (nx, ny) \<noteq> (cx, cy) \<and> \<bar>int nx - int cx\<bar> \<le> 1 \<and> \<bar>int ny - int cy\<bar> \<le> 1
        \<and> P (cells ! (nx * rows + ny)))"
  unfolding has_neighbor_def list_ex_iff Bex_def split_paired_Ex by (simp add: around_iff) blast

lemma ComputeStatistics_cells:
  assumes "length (sg_cells g) = sg_numColsX g * sg_numRowsY g" and "cx < sg_numColsX g" and "cy < sg_numRowsY g"
  defines "data \<equiv> \<lambda>c. gc_Points c \<noteq> [] \<and> g_MinPointsPerCell (sg_config g) \<le> int (length (gc_Points c))"
    and "c \<equiv> sg_cells g ! (cx * sg_numRowsY g + cy)"
    and "c' \<equiv> sg_cells (ComputeStatistics g) ! (cx * sg_numRowsY g + cy)"
  shows "gc_Points c' = gc_Points c \<and> gc_HasData c' = data c \<and> gc_IsVoid c' = (\<not> data c)
       \<and> (gc_Points c \<noteq> [] \<longrightarrow>
            gc_AvgDepth c' = sum_list (map q_Depth (gc_Points c)) / real (length (gc_Points c)))
       \<and> (data c \<longrightarrow> gc_IsEdge c' =
            (\<exists>nx < sg_numColsX g. \<exists>ny < sg_numRowsY g. (nx, ny) \<noteq> (cx, cy)
               \<and> \<bar>int nx - int cx\<bar> \<le> 1 \<and> \<bar>int ny - int cy\<bar> \<le> 1
               \<and> \<not> data (sg_cells g ! (nx * sg_numRowsY g + ny))))"
proof -
  let ?cols = "sg_numColsX g" and ?rows = "sg_numRowsY g"
  let ?xys = "List.product [0..<?cols] [0..<?rows]"
  let ?s = "cell_statistics (g_MinPointsPerCell (sg_config g))"
  let ?cells1 = "map ?s (sg_cells g)"
  have "foldl (mark_void ?cols ?rows) cs xys = cs" for cs xys
    by (induction xys) (simp_all add: mark_void_id)
  then have result: "sg_cells (ComputeStatistics g) = foldl (mark_edge ?cols ?rows) ?cells1 ?xys"
    by (simp add: ComputeStatistics_def Let_def)
  have bound: "x * ?rows + y < length (sg_cells g)" if "x < ?cols" "y < ?rows" for x y
    using that mult_le_mono1 [of "Suc x" ?cols ?rows] assms(1) by simp
  have sums: "foldl (\<lambda>acc p. acc + q_Depth p) a ps = a + sum_list (map q_Depth ps)" for a ps
    by (induction ps arbitrary: a) auto
  have stat: "gc_Points (?s k) = gc_Points k" "gc_HasData (?s k) = data k" "gc_IsVoid (?s k) = (\<not> data k)"
    "gc_Points k \<noteq> [] \<Longrightarrow> gc_AvgDepth (?s k) = sum_list (map q_Depth (gc_Points k)) / real (length (gc_Points k))" for k
    by (auto simp: cell_statistics_def data_def Let_def sums)
  note edges = mark_edges [of ?cells1 ?cols ?rows ?xys]
  have keep: "map no_edge (sg_cells (ComputeStatistics g)) = map no_edge ?cells1"
    using edges assms(1) by (simp add: result)
  have "no_edge c' = no_edge (?s c)"
    using arg_cong [OF keep, of "\<lambda>cs. cs ! (cx * ?rows + cy)"] arg_cong [OF keep, of length] bound [OF assms(2,3)]
    by (simp add: c_def c'_def)
  then have fields: "gc_Points c' = gc_Points (?s c)" "gc_HasData c' = gc_HasData (?s c)"
    "gc_IsVoid c' = gc_IsVoid (?s c)" "gc_AvgDepth c' = gc_AvgDepth (?s c)"
    by (simp_all add: no_edge_def) (metis GridCell.select_convs GridCell.surjective GridCell.update_convs)+
  have "gc_IsEdge c' = has_neighbor gc_IsVoid ?cols ?rows ?cells1 cx cy" if "data c"
    using edges assms(1-3) that bound [OF assms(2,3)] stat(2) by (simp add: result c_def c'_def)
  moreover have "gc_IsVoid (?cells1 ! (x * ?rows + y)) = (\<not> data (sg_cells g ! (x * ?rows + y)))"
    if "x < ?cols" "y < ?rows" for x y
    using bound [OF that] stat(3) by simp
  ultimately have "gc_IsEdge c' = (\<exists>nx < ?cols. \<exists>ny < ?rows. (nx, ny) \<noteq> (cx, cy)
      \<and> \<bar>int nx - int cx\<bar> \<le> 1 \<and> \<bar>int ny - int cy\<bar> \<le> 1 \<and> \<not> data (sg_cells g ! (nx * ?rows + ny)))" if "data c"
    using that by (simp add: has_neighbor_iff cong: conj_cong)
  with stat show ?thesis
    unfolding fields by blast
qed

text \<open>After \<open>ComputeStatistics\<close> a cell has data exactly when it holds a point and at least the
  configured number of them, it is void exactly when it has no data, its average is the mean
  depth of its points, and a cell with data is an edge exactly when one of the up to eight
  cells around it has no data. The pass that was to treat void cells next to data changes
  nothing.\<close>

theorem statistics_classify_cells:
  assumes "length (sg_cells g) = sg_numColsX g * sg_numRowsY g" and "cx < sg_numColsX g" and "cy < sg_numRowsY g"
  defines "data \<equiv> \<lambda>c. gc_Points c \<noteq> [] \<and> g_MinPointsPerCell (sg_config g) \<le> int (length (gc_Points c))"
    and "c \<equiv> sg_cells g ! (cx * sg_numRowsY g + cy)"
    and "c' \<equiv> sg_cells (ComputeStatistics g) ! (cx * sg_numRowsY g + cy)"
  shows "gc_Points c' = gc_Points c \<and> gc_HasData c' = data c \<and> gc_IsVoid c' = (\<not> data c)
       \<and> (gc_Points c \<noteq> [] \<longrightarrow>
            gc_AvgDepth c' = sum_list (map q_Depth (gc_Points c)) / real (length (gc_Points c)))
       \<and> (data c \<longrightarrow> gc_IsEdge c' =
            (\<exists>nx < sg_numColsX g. \<exists>ny < sg_numRowsY g. (nx, ny) \<noteq> (cx, cy)
               \<and> \<bar>int nx - int cx\<bar> \<le> 1 \<and> \<bar>int ny - int cy\<bar> \<le> 1
               \<and> \<not> data (sg_cells g ! (nx * sg_numRowsY g + ny))))"
  unfolding data_def c_def c'_def using assms(1-3) by (rule ComputeStatistics_cells)

section \<open>A small grid\<close>

definition unit_config :: GridConfig where
  "unit_config = (DefaultGridConfig 1)\<lparr>g_MaxX := 2, g_MaxY := 2\<rparr>"

definition depth_point :: "real \<Rightarrow> real \<Rightarrow> real \<Rightarrow> Point3D" where
  "depth_point x y d =
     \<lparr>q_Latitude = 0, q_Longitude = 0, q_Depth = d, q_X = x, q_Y = y, q_Z = 0, q_Intensity = 0,
      q_TimestampUS = 0, q_PingIndex = 0, q_BeamIndex = 0\<rparr>"

lemma grid_holds_points_witness:
  "snd (AddPoints (NewSpatialGrid unit_config) [depth_point 1 1 5, depth_point 9 9 7]) = 1
   \<and> (\<exists>i < length (sg_cells (fst (AddPoints (NewSpatialGrid unit_config) [depth_point 1 1 5, depth_point 9 9 7]))).
        depth_point 1 1 5 \<in> set (gc_Points (sg_cells (fst (AddPoints (NewSpatialGrid unit_config)
          [depth_point 1 1 5, depth_point 9 9 7])) ! i)))"
  using grid_holds_points [of unit_config "[depth_point 1 1 5, depth_point 9 9 7]"
      "fst (AddPoints (NewSpatialGrid unit_config) [depth_point 1 1 5, depth_point 9 9 7])"
      "snd (AddPoints (NewSpatialGrid unit_config) [depth_point 1 1 5, depth_point 9 9 7])"]
  by (simp add: unit_config_def DefaultGridConfig_def in_bounds_def depth_point_def)

lemma statistics_classify_cells_witness:
  "gc_IsVoid (sg_cells (ComputeStatistics (NewSpatialGrid unit_config)) ! 0)"
proof -
  have g: "sg_numColsX (NewSpatialGrid unit_config) = 3" "sg_numRowsY (NewSpatialGrid unit_config) = 3"
    by (simp_all add: NewSpatialGrid_def unit_config_def DefaultGridConfig_def Let_def)
  moreover have "gc_Points (sg_cells (NewSpatialGrid unit_config) ! 0) = []"
    by (simp add: new_grid_cells g new_cell_def Let_def upt_conv_Cons)
  ultimately show ?thesis
    using statistics_classify_cells [of "NewSpatialGrid unit_config" 0 0]
    by (simp add: new_grid_cells)
qed

end
