(* ===== verification/Filler_Correct.thy ===== *)
theory Filler_Correct
  imports Void_Filler Grid_Correct
begin

text \<open>
  Properties of the void filler: with the variogram fitted to the grid, as the default
  configuration asks, a call that builds a grid blocks on its own mutex; without it, any call
  fills exactly the void cells it reports, each at its center, leaves the others alone, and
  misses none that has enough points around it unless the limit per call is reached.
\<close>

section \<open>Bounds\<close>

lemma bounds_loop_bounds:
  assumes "bounds_loop ps (a, b, c, d) = (a', b', c', d')"
  shows "a' \<le> a \<and> b' \<le> b \<and> (\<forall>p \<in> set ps. a' \<le> q_X p \<and> b' \<le> q_Y p)"
  using assms
proof (induction ps arbitrary: a b c d)
  case (Cons p ps)
  from Cons.IH [OF Cons.prems [unfolded bounds_loop.simps]] show ?case
    by (auto split: if_splits)
qed simp

lemma defaultBounds_lower:
  assumes "points \<noteq> []" and "defaultBounds points = (a, b, c, d)" and "p \<in> set points"
  shows "a \<le> q_X p \<and> b \<le> q_Y p"
proof -
  obtain p0 ps where "points = p0 # ps" using assms(1) by (cases points) auto
  with assms(2,3) bounds_loop_bounds [of ps "q_X p0" "q_Y p0" "q_X p0" "q_Y p0" a b c d] show ?thesis
    by (auto simp: defaultBounds_def)
qed

section \<open>A fresh grid has void cells\<close>

lemma ComputeStatistics_dims:
  "length (sg_cells (ComputeStatistics g)) = length (sg_cells g)"
  "sg_config (ComputeStatistics g) = sg_config g" "sg_numColsX (ComputeStatistics g) = sg_numColsX g"
  "sg_numRowsY (ComputeStatistics g) = sg_numRowsY g"
proof -
  have "length (foldl (mark_edge cols rows) cs xys) = length cs" for cols rows cs xys
    by (rule foldl_invar [where P = "\<lambda>cs'. length cs' = length cs"]) (auto simp: mark_edge_def Let_def)
  moreover have "length (foldl (mark_void cols rows) cs xys) = length cs" for cols rows cs xys
    by (rule foldl_invar [where P = "\<lambda>cs'. length cs' = length cs"]) (auto simp: mark_void_def Let_def)
  ultimately show "length (sg_cells (ComputeStatistics g)) = length (sg_cells g)"
    by (simp add: ComputeStatistics_def Let_def)
qed (simp_all add: ComputeStatistics_def Let_def)

lemma AddPoints_dims:
  "sg_numColsX (fst (AddPoints g ps)) = sg_numColsX g" "sg_numRowsY (fst (AddPoints g ps)) = sg_numRowsY g"
proof -
  have "sg_numColsX (fst (AddPoints g ps)) = sg_numColsX g \<and> sg_numRowsY (fst (AddPoints g ps)) = sg_numRowsY g"
    unfolding AddPoints_def
    by (rule foldl_invar [where P = "\<lambda>p. sg_numColsX (fst p) = sg_numColsX g \<and> sg_numRowsY (fst p) = sg_numRowsY g"])
      (auto simp: grid_AddPoint_def split: prod.splits option.splits)
  then show "sg_numColsX (fst (AddPoints g ps)) = sg_numColsX g" "sg_numRowsY (fst (AddPoints g ps)) = sg_numRowsY g"
    by simp_all
qed

text \<open>The padding is at least a cell wide, so the cell in the corner stays empty.\<close>

lemma fresh_grid_has_voids:
  assumes "0 < g_CellSize cfg" and "g_MinPointsPerCell cfg = 1"
    and "\<forall>p \<in> set ps. g_MinX cfg + g_CellSize cfg \<le> q_X p"
  shows "vi_VoidCells (AnalyzeVoids (ComputeStatistics (fst (AddPoints (NewSpatialGrid cfg) ps)))) \<noteq> 0"
proof -
  let ?empty = "NewSpatialGrid cfg" let ?g = "fst (AddPoints ?empty ps)"
  have add: "placed ?g" "sg_config ?g = cfg" "length (sg_cells ?g) = length (sg_cells ?empty)"
    "\<forall>i < length (sg_cells ?empty). gc_Points (sg_cells ?g ! i)
       = gc_Points (sg_cells ?empty ! i) @ filter (\<lambda>p. cellIndex ?empty (q_X p) (q_Y p) = Some i) ps"
    using AddPoints_step [OF placed_new [OF assms(1)], of ps] unfolding new_grid_cells(2)
    by simp_all
  have pos: "0 < sg_numColsX ?g" "0 < sg_numRowsY ?g"
    by (simp_all add: AddPoints_dims) (simp_all add: NewSpatialGrid_def Let_def)
  then have len: "0 < length (sg_cells ?empty)"
    by (simp add: AddPoints_dims new_grid_cells)
  have "cellIndex ?empty (q_X p) (q_Y p) \<noteq> Some 0" if "p \<in> set ps" for p
    using cellIndex_iff [OF placed_new [OF assms(1)], of p 0] assms(3) that pos
    by (auto simp: in_cell_def new_grid_cells AddPoints_dims new_cell_def Let_def)
  then have "gc_Points (sg_cells ?g ! 0) = []"
    using add(4) len by (simp add: new_grid_cells new_cell_def Let_def filter_empty_conv)
  moreover have "length (sg_cells ?g) = sg_numColsX ?g * sg_numRowsY ?g"
    using add(3) by (simp add: new_grid_cells AddPoints_dims)
  ultimately have "gc_IsVoid (sg_cells (ComputeStatistics ?g) ! 0)"
    using ComputeStatistics_cells [of ?g 0 0] pos by simp
  moreover have "0 < length (sg_cells (ComputeStatistics ?g))"
    using len add(3) by (simp add: ComputeStatistics_dims)
  ultimately show ?thesis
    by (auto simp: AnalyzeVoids_def Let_def filter_empty_conv intro!: nth_mem)
qed

lemma prepare_grid_fresh:
  assumes "vf_grid vf = None \<or> (\<exists>g. vf_grid vf = Some g \<and> outOfBounds g a b c d)"
  shows "prepare_grid vf points (a, b, c, d) =
     (let cfg = vf_config vf; padding = fc_CellSize cfg * real_of_int (fc_SearchRadius cfg + 1) in
      ComputeStatistics (fst (AddPoints
        (NewSpatialGrid (gridConfig cfg (a - padding) (b - padding) (c + padding) (d + padding))) points)))"
  using assms by (auto simp: prepare_grid_def Let_def)

lemma prepared_grid_voids:
  assumes "0 < fc_CellSize (vf_config vf)" and "0 \<le> fc_SearchRadius (vf_config vf)" and "points \<noteq> []"
    and "defaultBounds points = (a, b, c, d)"
    and "vf_grid vf = None \<or> (\<exists>g. vf_grid vf = Some g \<and> outOfBounds g a b c d)"
  shows "vi_VoidCells (AnalyzeVoids (prepare_grid vf points (a, b, c, d))) \<noteq> 0"
proof -
  let ?cfg = "vf_config vf"
  let ?pad = "fc_CellSize ?cfg * real_of_int (fc_SearchRadius ?cfg + 1)"
  have "fc_CellSize ?cfg * 1 \<le> ?pad"
    using assms(1,2) by (intro mult_left_mono) auto
  moreover have "a \<le> q_X p" if "p \<in> set points" for p
    using defaultBounds_lower [OF assms(3,4) that] by simp
  ultimately have "\<forall>p \<in> set points. a - ?pad + fc_CellSize ?cfg \<le> q_X p"
    by force
  with assms(1) show ?thesis
    unfolding prepare_grid_fresh [OF assms(5)] Let_def
    by (intro fresh_grid_has_voids) (simp_all add: gridConfig_def)
qed

text \<open>A filler that will not answer: its mutex is held, or it is going to build a grid.\<close>

definition builds_grid :: "void_filler \<Rightarrow> real \<times> real \<times> real \<times> real \<Rightarrow> bool" where
  "builds_grid vf = (\<lambda>(a, b, c, d). vf_grid vf = None \<or> (\<exists>g. vf_grid vf = Some g \<and> outOfBounds g a b c d))"

lemma ProcessAndFill_blocks:
  assumes "fc_AutoFitVariogram (vf_config vf)" and "0 < fc_CellSize (vf_config vf)"
    and "0 \<le> fc_SearchRadius (vf_config vf)" and "points \<noteq> []" and "builds_grid vf (defaultBounds points)"
  shows "ProcessAndFill ck points None vf = Inl Deadlock"
proof (cases "vf_mu vf")
  case True
  then show ?thesis by (simp add: ProcessAndFill_def vf_lock_def)
next
  case False
  obtain a b c d where bounds: "defaultBounds points = (a, b, c, d)"
    by (cases "defaultBounds points")
  have "vi_VoidCells (AnalyzeVoids (prepare_grid (vf\<lparr>vf_mu := True\<rparr>) points (a, b, c, d))) \<noteq> 0"
    using prepared_grid_voids [of "vf\<lparr>vf_mu := True\<rparr>" points a b c d] assms bounds by (simp add: builds_grid_def)
  with False assms(1,4) bounds show ?thesis
    by (simp add: ProcessAndFill_def vf_lock_def Let_def UpdateVariogramFromGrid_def)
qed

lemma FillFrames_blocks:
  assumes "fc_AutoFitVariogram (vf_config vf)" and "0 < fc_CellSize (vf_config vf)"
    and "0 \<le> fc_SearchRadius (vf_config vf)" and "vf_grid vf = None" and "concat (map f_Points frames) \<noteq> []"
  shows "FillFrames ck frames vf = Inl Deadlock"
  using ProcessAndFill_blocks [OF assms(1-3,5)] assms(4,5) by (simp add: FillFrames_def Let_def builds_grid_def)

text \<open>With \<open>AutoFitVariogram\<close>, which is the default, a call that builds a new grid never returns:
  it holds the filler's mutex when it calls \<open>UpdateVariogramFromGrid\<close>, which locks it again,
  and there is always a void cell in the padding that makes it do so.\<close>

theorem void_fill_deadlocks:
  assumes "fc_AutoFitVariogram (vf_config vf)" and "0 < fc_CellSize (vf_config vf)"
    and "0 \<le> fc_SearchRadius (vf_config vf)" and "points \<noteq> []" and "defaultBounds points = (a, b, c, d)"
    and "vf_grid vf = None \<or> (\<exists>g. vf_grid vf = Some g \<and> outOfBounds g a b c d)"
  shows "ProcessAndFill ck points None vf = Inl Deadlock"
  using ProcessAndFill_blocks [OF assms(1-4)] assms(5,6) by (simp add: builds_grid_def)

lemma new_filler_facts:
  "vf_config (NewVoidFiller cfg) = cfg" "vf_grid (NewVoidFiller cfg) = None" "vf_mu (NewVoidFiller cfg) = False"
  by (simp_all add: NewVoidFiller_def Let_def)

lemma default_filler_facts:
  "fc_AutoFitVariogram DefaultFillerConfig" "fc_CellSize DefaultFillerConfig = 1 / 2"
  "fc_SearchRadius DefaultFillerConfig = 4"
  by (simp_all add: DefaultFillerConfig_def)

definition still_clock :: clock where
  "still_clock = \<lparr>ck_elapsed = \<lambda>n. 1, ck_stamp = \<lambda>n. 0, ck_total = 0\<rparr>"

lemma void_fill_deadlocks_witness:
  "ProcessAndFill still_clock [depth_point 3 4 20] None (NewVoidFiller DefaultFillerConfig) = Inl Deadlock"
  using void_fill_deadlocks [of "NewVoidFiller DefaultFillerConfig" "[depth_point 3 4 20]" 3 4 3 4 still_clock]
  by (simp add: new_filler_facts default_filler_facts defaultBounds_def depth_point_def)

section \<open>Filling\<close>

text \<open>The centers of the cells, which no operation moves.\<close>

definition cell_center :: "GridCell \<Rightarrow> real \<times> real" where
  "cell_center c = (gc_CenterX c, gc_CenterY c)"

definition centered :: "SpatialGrid \<Rightarrow> bool" where
  "centered g \<longleftrightarrow>
     0 < g_CellSize (sg_config g) \<and> length (sg_cells g) = sg_numColsX g * sg_numRowsY g
   \<and> (\<forall>i < length (sg_cells g). cell_center (sg_cells g ! i) = cell_center (new_cell (sg_config g) (sg_numRowsY g) i))"

lemma centered_new: "0 < g_CellSize cfg \<Longrightarrow> centered (NewSpatialGrid cfg)"
  by (simp add: centered_def new_grid_cells)

lemma map_update_same: "f c = f (cs ! k) \<Longrightarrow> map f (cs[k := c]) = map f cs"
  by (metis list_update_id map_update)

lemma grid_AddPoint_centers:
  "map cell_center (sg_cells (fst (grid_AddPoint g p))) = map cell_center (sg_cells g)"
  "sg_config (fst (grid_AddPoint g p)) = sg_config g"
  by (auto simp: grid_AddPoint_def cell_center_def cell_add_def map_update_same split: option.splits)

lemma AddPoints_centers:
  "map cell_center (sg_cells (fst (AddPoints g ps))) = map cell_center (sg_cells g)
   \<and> sg_config (fst (AddPoints g ps)) = sg_config g"
  unfolding AddPoints_def
  by (rule foldl_invar [where P = "\<lambda>a. map cell_center (sg_cells (fst a)) = map cell_center (sg_cells g)
      \<and> sg_config (fst a) = sg_config g"]) (simp_all add: case_prod_unfold grid_AddPoint_centers)

lemma ComputeStatistics_centers:
  "map cell_center (sg_cells (ComputeStatistics g)) = map cell_center (sg_cells g)"
proof -
  have "map cell_center (cs[k := (cs ! k)\<lparr>gc_IsEdge := b\<rparr>]) = map cell_center cs" for cs k b
    by (rule map_update_same) (simp add: cell_center_def)
  then have "map cell_center (foldl (mark_edge cols rows) cs xys) = map cell_center cs" for cols rows cs xys
    by (intro foldl_invar [where P = "\<lambda>cs'. map cell_center cs' = map cell_center cs"])
      (auto simp: mark_edge_def Let_def)
  moreover have "foldl (mark_void cols rows) cs xys = cs" for cols rows cs xys
    by (induction xys) (simp_all add: mark_void_id)
  moreover have "cell_center (cell_statistics n c) = cell_center c" for n c
    by (simp add: cell_center_def cell_statistics_def Let_def)
  ultimately show ?thesis
    by (simp add: ComputeStatistics_def Let_def comp_def)
qed

lemma centered_cong:
  assumes "centered g" and "map cell_center (sg_cells g') = map cell_center (sg_cells g)"
    and "sg_config g' = sg_config g" "sg_numColsX g' = sg_numColsX g" "sg_numRowsY g' = sg_numRowsY g"
  shows "centered g'"
proof -
  have len: "length (sg_cells g') = length (sg_cells g)"
    using assms(2) by (metis length_map)
  have "cell_center (sg_cells g' ! i) = cell_center (sg_cells g ! i)" if "i < length (sg_cells g)" for i
    using arg_cong [OF assms(2), of "\<lambda>cs. cs ! i"] that len by simp
  with assms len show ?thesis by (simp add: centered_def)
qed

text \<open>The position of a cell, recomputed from its center.\<close>

lemma center_index:
  assumes "centered g" and "i < length (sg_cells g)"
  shows "clamp_index (sg_numColsX g)
      (go_trunc ((gc_CenterX (sg_cells g ! i) - g_MinX (sg_config g)) * (1 / g_CellSize (sg_config g)))) = i div sg_numRowsY g"
    and "clamp_index (sg_numRowsY g)
      (go_trunc ((gc_CenterY (sg_cells g ! i) - g_MinY (sg_config g)) * (1 / g_CellSize (sg_config g)))) = i mod sg_numRowsY g"
    and "i div sg_numRowsY g < sg_numColsX g" and "i mod sg_numRowsY g < sg_numRowsY g"
proof -
  let ?cfg = "sg_config g" and ?rows = "sg_numRowsY g"
  have rows: "0 < ?rows" "i < sg_numColsX g * ?rows" "0 < g_CellSize ?cfg"
    using assms by (cases "?rows = 0"; simp add: centered_def)+
  show bounds: "i div ?rows < sg_numColsX g" "i mod ?rows < ?rows"
    using rows by (simp_all add: less_mult_imp_div_less)
  have trunc: "clamp_index n (go_trunc (real k + 1 / 2)) = k" if "k < n" for k n
  proof -
    have "go_trunc (real k + 1 / 2) = int k"
      by (simp add: go_trunc_nonneg floor_eq_iff)
    with that show ?thesis by (simp add: clamp_index_def)
  qed
  have mid: "((m + real k * s + (m + real (k + 1) * s)) / 2 - m) * (1 / s) = real k + 1 / 2"
    if "0 < s" for m s :: real and k
    using that by (simp add: field_simps)
  have "cell_center (sg_cells g ! i) = cell_center (new_cell ?cfg ?rows i)"
    using assms by (simp add: centered_def)
  then have "gc_CenterX (sg_cells g ! i) = (g_MinX ?cfg + real (i div ?rows) * g_CellSize ?cfg
        + (g_MinX ?cfg + real (i div ?rows + 1) * g_CellSize ?cfg)) / 2"
    and "gc_CenterY (sg_cells g ! i) = (g_MinY ?cfg + real (i mod ?rows) * g_CellSize ?cfg
        + (g_MinY ?cfg + real (i mod ?rows + 1) * g_CellSize ?cfg)) / 2"
    by (simp_all add: cell_center_def new_cell_def Let_def)
  then show "clamp_index (sg_numColsX g)
      (go_trunc ((gc_CenterX (sg_cells g ! i) - g_MinX ?cfg) * (1 / g_CellSize ?cfg))) = i div ?rows"
    and "clamp_index ?rows
      (go_trunc ((gc_CenterY (sg_cells g ! i) - g_MinY ?cfg) * (1 / g_CellSize ?cfg))) = i mod ?rows"
    unfolding \<open>gc_CenterX (sg_cells g ! i) = _\<close> \<open>gc_CenterY (sg_cells g ! i) = _\<close> mid [OF rows(3)]
    using trunc bounds by simp_all
qed

text \<open>Filling a cell takes it off the void cells and leaves the others alone.\<close>

definition void_at :: "SpatialGrid \<Rightarrow> nat \<Rightarrow> bool" where
  "void_at g i \<longleftrightarrow> i < length (sg_cells g) \<and> gc_IsVoid (sg_cells g ! i)"

definition filled_cell :: "GridCell \<Rightarrow> Point3D \<Rightarrow> GridCell" where
  "filled_cell c p =
     c\<lparr>gc_Points := gc_Points c @ [p], gc_HasData := True, gc_IsVoid := False,
       gc_AvgDepth := q_Depth p, gc_MinDepth := Some (q_Depth p), gc_MaxDepth := Some (q_Depth p)\<rparr>"

lemma cell_center_filled [simp]: "cell_center (filled_cell c p) = cell_center c"
  by (simp add: cell_center_def filled_cell_def)

lemma SetCellFilled_at:
  assumes "centered g" and "i < length (sg_cells g)"
  shows "fst (SetCellFilled g (i div sg_numRowsY g) (i mod sg_numRowsY g) p)
           = g\<lparr>sg_cells := (sg_cells g)[i := filled_cell (sg_cells g ! i) p]\<rparr>"
  using center_index(3,4) [OF assms] by (simp add: SetCellFilled_def GetCell_def filled_cell_def)

lemma centered_filled:
  "centered g \<Longrightarrow> centered (g\<lparr>sg_cells := (sg_cells g)[i := filled_cell (sg_cells g ! i) p]\<rparr>)"
  by (rule centered_cong) (simp_all add: map_update_same)

text \<open>
  The grid \<open>g\<close> is \<open>g0\<close> with the void cells \<open>ks\<close> filled: each has its point, at its center, and the
  others are as they were.
\<close>

definition filled_from :: "SpatialGrid \<Rightarrow> SpatialGrid \<Rightarrow> Point3D list \<Rightarrow> nat list \<Rightarrow> bool" where
  "filled_from g0 g ps ks \<longleftrightarrow>
     distinct ks \<and> (\<forall>k \<in> set ks. void_at g0 k) \<and> length (sg_cells g) = length (sg_cells g0)
   \<and> (\<forall>k < length (sg_cells g0). k \<notin> set ks \<longrightarrow> sg_cells g ! k = sg_cells g0 ! k)
   \<and> list_all2 (\<lambda>p k. (q_X p, q_Y p) = cell_center (sg_cells g0 ! k)
                  \<and> sg_cells g ! k = filled_cell (sg_cells g0 ! k) p) ps ks"

lemma filled_from_voids:
  assumes "filled_from g0 g ps ks"
  shows "void_at g k \<longleftrightarrow> void_at g0 k \<and> k \<notin> set ks"
proof (cases "k \<in> set ks")
  case True
  then obtain p where "sg_cells g ! k = filled_cell (sg_cells g0 ! k) p"
    using assms by (auto simp: filled_from_def list_all2_conv_all_nth in_set_conv_nth)
  with True show ?thesis by (simp add: void_at_def filled_cell_def)
next
  case False
  with assms show ?thesis by (auto simp: filled_from_def void_at_def)
qed

lemma filled_from_step:
  assumes "filled_from g0 g ps ks" and "void_at g0 i" and "i \<notin> set ks"
    and "(q_X p, q_Y p) = cell_center (sg_cells g0 ! i)"
  shows "filled_from g0 (g\<lparr>sg_cells := (sg_cells g)[i := filled_cell (sg_cells g ! i) p]\<rparr>) (ps @ [p]) (ks @ [i])"
proof -
  have i: "i < length (sg_cells g)" "sg_cells g ! i = sg_cells g0 ! i"
    using assms(1-3) by (auto simp: filled_from_def void_at_def)
  have "list_all2 (\<lambda>p k. (q_X p, q_Y p) = cell_center (sg_cells g0 ! k)
          \<and> (sg_cells g)[i := filled_cell (sg_cells g ! i) p'] ! k = filled_cell (sg_cells g0 ! k) p) ps ks" for p'
    using assms(1,3) unfolding filled_from_def
    by (auto elim!: list.rel_mono_strong) (metis nth_list_update_neq)
  with assms i show ?thesis
    by (auto simp: filled_from_def intro: list_all2_appendI)
qed

text \<open>Filling cells takes no neighbour away from any cell.\<close>

definition enough :: "void_filler \<Rightarrow> SpatialGrid \<Rightarrow> nat \<Rightarrow> bool" where
  "enough vf g k \<longleftrightarrow>
     fc_MinPointsForKriging (vf_config vf)
       \<le> int (length (GetNeighbors g (k div sg_numRowsY g) (k mod sg_numRowsY g) (fc_SearchRadius (vf_config vf))))"

lemma around_index:
  assumes "(nx, ny) \<in> set (around cols rows radius cx cy)"
  shows "nx * rows + ny < cols * rows"
proof -
  have "nx < cols" "ny < rows"
    using assms by (auto simp: around_def)
  then have "nx * rows + ny < Suc nx * rows" "Suc nx * rows \<le> cols * rows"
    by (simp, intro mult_le_mono1) simp
  then show ?thesis by linarith
qed

lemma neighbors_grow:
  assumes "filled_from g0 g ps ks" and "centered g0" and "sg_numColsX g = sg_numColsX g0" "sg_numRowsY g = sg_numRowsY g0"
  shows "length (GetNeighbors g0 cx cy radius) \<le> length (GetNeighbors g cx cy radius)"
proof -
  have "length (if gc_HasData (sg_cells g0 ! k) then cell_samples (sg_cells g0 ! k) else [])
      \<le> length (if gc_HasData (sg_cells g ! k) then cell_samples (sg_cells g ! k) else [])"
    if "k < sg_numColsX g0 * sg_numRowsY g0" for k
  proof (cases "k \<in> set ks")
    case True
    then obtain p where "sg_cells g ! k = filled_cell (sg_cells g0 ! k) p"
      using assms(1) by (auto simp: filled_from_def list_all2_conv_all_nth in_set_conv_nth)
    then show ?thesis by (simp add: filled_cell_def cell_samples_def)
  next
    case False
    with that assms(1,2) have "sg_cells g ! k = sg_cells g0 ! k"
      by (auto simp: filled_from_def centered_def)
    then show ?thesis by simp
  qed
  then show ?thesis
    unfolding GetNeighbors_def length_concat map_map comp_def assms(3,4)
    by (intro sum_list_mono) (auto simp: Let_def dest: around_index)
qed

text \<open>One step of the loop: an interpolation fills or skips.\<close>

lemma interpolate_cell_effect:
  assumes "interpolate_cell vf c ns s = (res, s')"
  shows "fl_grid s' = fl_grid s \<and> fl_totalFilled s' = fl_totalFilled s \<and> fl_totalInterpolated s' = fl_totalInterpolated s
       \<and> pf_VoidCellsInPatch (fl_patch s') = pf_VoidCellsInPatch (fl_patch s)
       \<and> pf_FilledPoints (fl_patch s') = pf_FilledPoints (fl_patch s) \<and> pf_FilledCells (fl_patch s') = pf_FilledCells (fl_patch s)
       \<and> pf_SkippedCells (fl_patch s') = pf_SkippedCells (fl_patch s) + (if res = None then 1 else 0)
       \<and> pf_KrigingCount (fl_patch s') + pf_IDWCount (fl_patch s')
           = pf_KrigingCount (fl_patch s) + pf_IDWCount (fl_patch s) + (if res = None then 0 else 1)"
  using assms by (auto simp: interpolate_cell_def Let_def split: sum.splits if_splits)

text \<open>With as many neighbours as kriging asks for, the interpolation does not fail.\<close>

lemma interpolate_cell_succeeds:
  "MinKrigingNeighbors \<le> length ns \<Longrightarrow> fst (interpolate_cell vf c ns s) \<noteq> None"
  by (auto simp: interpolate_cell_def kriging_Interpolate_def Let_def split: sum.split)

text \<open>What the loop keeps: the void cells \<open>ts\<close> have been tried, of which \<open>ks\<close> were filled.\<close>

definition kriging_min :: "void_filler \<Rightarrow> bool" where
  "kriging_min vf \<longleftrightarrow> int MinKrigingNeighbors \<le> fc_MinPointsForKriging (vf_config vf)"

definition fill_inv :: "void_filler \<Rightarrow> SpatialGrid \<Rightarrow> nat list \<Rightarrow> nat list \<Rightarrow> fill_state \<Rightarrow> bool" where
  "fill_inv vf g0 ts ks s \<longleftrightarrow>
     centered g0 \<and> centered (fl_grid s) \<and> g_CellSize (sg_config (fl_grid s)) = fc_CellSize (vf_config vf)
   \<and> sg_numColsX (fl_grid s) = sg_numColsX g0 \<and> sg_numRowsY (fl_grid s) = sg_numRowsY g0
   \<and> filled_from g0 (fl_grid s) (pf_FilledPoints (fl_patch s)) ks
   \<and> pf_VoidCellsInPatch (fl_patch s) = int (card {k. void_at g0 k})
   \<and> pf_FilledCells (fl_patch s) = int (length ks) \<and> fl_totalFilled s = length ks
   \<and> pf_KrigingCount (fl_patch s) + pf_IDWCount (fl_patch s) = int (length ks)
   \<and> length ks \<le> fl_totalInterpolated s
   \<and> pf_SkippedCells (fl_patch s) + int (length ks) = int (length ts)
   \<and> (kriging_min vf \<longrightarrow>
        fl_totalInterpolated s = length ks \<and> (\<forall>k \<in> set ts. enough vf g0 k \<longrightarrow> k \<in> set ks))"

lemma fill_cell_inv:
  assumes "fill_inv vf g0 ts ks s" and "void_at g0 i" and "i \<notin> set ks"
  obtains ks' where "fill_inv vf g0 (ts @ [i]) ks' (fill_cell ck vf (sg_cells g0 ! i) s)"
    and "set ks' \<subseteq> insert i (set ks)"
    and "fl_totalInterpolated (fill_cell ck vf (sg_cells g0 ! i) s) \<le> fl_totalInterpolated s + 1"
proof -
  let ?g = "fl_grid s" and ?c = "sg_cells g0 ! i" let ?s' = "fill_cell ck vf ?c s"
  have cen: "centered g0" "centered ?g" and cs: "g_CellSize (sg_config ?g) = fc_CellSize (vf_config vf)"
    and dims: "sg_numColsX ?g = sg_numColsX g0" "sg_numRowsY ?g = sg_numRowsY g0"
    and held: "filled_from g0 ?g (pf_FilledPoints (fl_patch s)) ks"
    using assms(1) by (simp_all add: fill_inv_def)
  have i: "i < length (sg_cells ?g)" "sg_cells ?g ! i = ?c"
    using held assms(2,3) by (auto simp: filled_from_def void_at_def)
  note index = center_index(1,2) [OF cen(2) i(1), unfolded cs i(2)]
  let ?ns = "GetNeighbors ?g (i div sg_numRowsY ?g) (i mod sg_numRowsY ?g) (fc_SearchRadius (vf_config vf))"
  let ?n = "fl_totalInterpolated s + 1"
  let ?s1 = "s\<lparr>fl_totalInterpolated := ?n\<rparr>"
  show ?thesis
  proof (cases "int (length ?ns) < fc_MinPointsForKriging (vf_config vf)")
    case True
    then have few: "\<not> enough vf g0 i"
      using neighbors_grow [OF held cen(1) dims] by (auto simp: enough_def dims not_le elim!: le_less_trans [rotated])
    have "?s' = s\<lparr>fl_patch := (fl_patch s)\<lparr>pf_SkippedCells := pf_SkippedCells (fl_patch s) + 1\<rparr>\<rparr>"
      using True unfolding fill_cell_def Let_def index by simp
    with assms(1) few show ?thesis by (intro that [of ks]) (auto simp: fill_inv_def)
  next
    case False
    obtain res s2 where int: "interpolate_cell vf ?c ?ns ?s1 = (res, s2)"
      by (cases "interpolate_cell vf ?c ?ns ?s1")
    note effect = interpolate_cell_effect [OF int]
    show ?thesis
    proof (cases res)
      case None
      have "\<not> kriging_min vf"
        using interpolate_cell_succeeds [of ?ns vf ?c ?s1] False int None by (auto simp: kriging_min_def)
      moreover have "?s' = s2"
        using False int None unfolding fill_cell_def Let_def index by simp
      ultimately show ?thesis
        using assms(1) effect None by (intro that [of ks]) (auto simp: fill_inv_def)
    next
      case (Some r)
      let ?p = "filled_point ck ?n ?c r ?ns"
      let ?g' = "?g\<lparr>sg_cells := (sg_cells ?g)[i := filled_cell (sg_cells ?g ! i) ?p]\<rparr>"
      have s': "?s' = s2\<lparr>fl_stats := time_stats (ck_elapsed ck ?n) ?n (fl_stats s2), fl_grid := ?g',
          fl_patch := (fl_patch s2)\<lparr>pf_FilledPoints := pf_FilledPoints (fl_patch s2) @ [?p],
            pf_FilledCells := pf_FilledCells (fl_patch s2) + 1\<rparr>, fl_totalFilled := fl_totalFilled s2 + 1\<rparr>"
        using False int Some effect SetCellFilled_at [OF cen(2) i(1)] unfolding fill_cell_def Let_def index by simp
      have "(q_X ?p, q_Y ?p) = cell_center ?c"
        by (simp add: filled_point_def cell_center_def)
      note held' = filled_from_step [OF held assms(2,3) this]
      have "fill_inv vf g0 (ts @ [i]) (ks @ [i]) ?s'"
        using assms(1) effect Some held' centered_filled [OF cen(2), of i ?p] cs
        by (simp add: s' fill_inv_def)
      moreover have "fl_totalInterpolated ?s' \<le> fl_totalInterpolated s + 1"
        using effect by (simp add: s')
      ultimately show ?thesis by (intro that [of "ks @ [i]"]) auto
    qed
  qed
qed

text \<open>What holds when the loop is left, whether all the cells were tried or the limit was reached.\<close>

definition fill_done :: "void_filler \<Rightarrow> SpatialGrid \<Rightarrow> int \<Rightarrow> nat list \<Rightarrow> fill_state \<Rightarrow> bool" where
  "fill_done vf g0 maxI ks s \<longleftrightarrow>
     centered (fl_grid s) \<and> g_CellSize (sg_config (fl_grid s)) = fc_CellSize (vf_config vf)
   \<and> filled_from g0 (fl_grid s) (pf_FilledPoints (fl_patch s)) ks
   \<and> pf_VoidCellsInPatch (fl_patch s) = int (card {k. void_at g0 k})
   \<and> pf_FilledCells (fl_patch s) = int (length ks)
   \<and> pf_FilledCells (fl_patch s) + pf_SkippedCells (fl_patch s) = int (card {k. void_at g0 k})
   \<and> pf_KrigingCount (fl_patch s) + pf_IDWCount (fl_patch s) = int (length ks)
   \<and> int (length ks) \<le> maxI
   \<and> (kriging_min vf \<longrightarrow> int (length ks) = maxI \<or> (\<forall>k. void_at g0 k \<and> enough vf g0 k \<longrightarrow> k \<in> set ks))"

lemma fill_loop_done:
  assumes "fill_inv vf g0 ts ks s" and "set ts \<union> set js = {k. void_at g0 k}" and "distinct (ts @ js)"
    and "int (fl_totalInterpolated s) \<le> maxI" and "set ks \<subseteq> set ts"
  shows "\<exists>ks'. fill_done vf g0 maxI ks' (fill_loop ck vf maxI (map ((!) (sg_cells g0)) js) s)"
  using assms
proof (induction js arbitrary: ts ks s)
  case Nil
  then have "length ts = card {k. void_at g0 k}"
    by (metis append_Nil2 distinct_card list.set(1) sup_bot.right_neutral)
  with Nil.prems show ?case by (intro exI [of _ ks]) (auto simp: fill_done_def fill_inv_def)
next
  case (Cons j js)
  show ?case
  proof (cases "int (fl_totalInterpolated s) \<ge> maxI")
    case True
    with Cons.prems(1,4) show ?thesis by (intro exI [of _ ks]) (auto simp: fill_done_def fill_inv_def)
  next
    case False
    obtain ks' where step: "fill_inv vf g0 (ts @ [j]) ks' (fill_cell ck vf (sg_cells g0 ! j) s)"
      "set ks' \<subseteq> insert j (set ks)"
      "fl_totalInterpolated (fill_cell ck vf (sg_cells g0 ! j) s) \<le> fl_totalInterpolated s + 1"
      using fill_cell_inv [OF Cons.prems(1), of j ck] Cons.prems(2,3,5) by auto
    have "\<exists>ks''. fill_done vf g0 maxI ks''
        (fill_loop ck vf maxI (map ((!) (sg_cells g0)) js) (fill_cell ck vf (sg_cells g0 ! j) s))"
      by (rule Cons.IH [OF step(1)]) (use Cons.prems(2,3,5) step(2,3) False in auto)
    with False show ?thesis by simp
  qed
qed

lemma void_indices:
  "filter gc_IsVoid (sg_cells g)
     = map ((!) (sg_cells g)) (filter (\<lambda>i. gc_IsVoid (sg_cells g ! i)) [0..<length (sg_cells g)])"
  by (metis (mono_tags, lifting) comp_apply filter_cong filter_map map_nth)

lemma void_count: "length (filter gc_IsVoid (sg_cells g)) = card {k. void_at g k}"
  by (simp add: length_filter_conv_card void_at_def)

lemma fillVoidsLocked_done:
  assumes "vf_grid vf = Some g" and "centered g" and "g_CellSize (sg_config g) = fc_CellSize (vf_config vf)"
    and "info = AnalyzeVoids g"
  obtains s ks where "fillVoidsLocked ck info vf = Inr ((fl_patch s)\<lparr>pf_ElapsedUs := ck_total ck\<rparr>,
       vf\<lparr>vf_lastPatchID := vf_lastPatchID vf + 1, vf_grid := Some (fl_grid s),
          vf_stats := (fl_stats s)\<lparr>fs_VoidCellsFilled := fs_VoidCellsFilled (fl_stats s) + of_nat (fl_totalFilled s)\<rparr>\<rparr>)"
    and "fill_done vf g (if fc_MaxInterpolatePerTick (vf_config vf) \<le> 0 then int (vi_VoidCells info)
           else fc_MaxInterpolatePerTick (vf_config vf)) ks s"
proof -
  let ?maxI = "if fc_MaxInterpolatePerTick (vf_config vf) \<le> 0 then int (vi_VoidCells info)
           else fc_MaxInterpolatePerTick (vf_config vf)"
  let ?vf1 = "vf\<lparr>vf_lastPatchID := vf_lastPatchID vf + 1\<rparr>"
  let ?js = "filter (\<lambda>i. gc_IsVoid (sg_cells g ! i)) [0..<length (sg_cells g)]"
  let ?s0 = "\<lparr>fl_grid = g, fl_stats = vf_stats vf, fl_patch = empty_patch\<lparr>pf_PatchID := vf_lastPatchID vf + 1,
       pf_VoidCellsInPatch := int (vi_VoidCells info)\<rparr>, fl_totalFilled = 0, fl_totalInterpolated = 0\<rparr>"
  have m: "vi_VoidCells info = card {k. void_at g k}" "vi_VoidCells info = length (GetVoidCells g)"
    using void_count [of g] by (simp_all add: assms(4) AnalyzeVoids_def Let_def GetVoidCells_def)
  have cells: "GetVoidCells g = map ((!) (sg_cells g)) ?js"
    by (simp add: GetVoidCells_def void_indices)
  have "fill_inv ?vf1 g [] [] ?s0"
    using assms(2,3) by (simp add: fill_inv_def filled_from_def empty_patch_def m(1))
  then have "\<exists>ks. fill_done ?vf1 g ?maxI ks (fill_loop ck ?vf1 ?maxI (map ((!) (sg_cells g)) ?js) ?s0)"
    by (rule fill_loop_done) (use m cells in \<open>auto simp: void_at_def\<close>)
  then obtain ks where "fill_done vf g ?maxI ks (fill_loop ck ?vf1 ?maxI (GetVoidCells g) ?s0)"
    by (auto simp: cells fill_done_def kriging_min_def enough_def)
  then show ?thesis
    by (rule that [rotated]) (simp add: fillVoidsLocked_def assms(1) Let_def flip: m(2))
qed

lemma finite_voids: "finite {k. void_at g k}"
  by (rule finite_subset [of _ "{..<length (sg_cells g)}"]) (auto simp: void_at_def)

section \<open>Calls of the filler\<close>

text \<open>The domain of the model, and what the filler's grid keeps from call to call.\<close>

definition filler_ok :: "void_filler \<Rightarrow> bool" where
  "filler_ok vf \<longleftrightarrow>
     0 < fc_CellSize (vf_config vf) \<and> v_AnisoRatio (ok_Params (vf_kriging vf)) \<noteq> 0
   \<and> pred_option (\<lambda>g. centered g \<and> g_CellSize (sg_config g) = fc_CellSize (vf_config vf)) (vf_grid vf)"

lemma new_filler_ok:
  "0 < fc_CellSize cfg \<Longrightarrow> fc_VariogramAnisoRatio cfg \<noteq> 0 \<Longrightarrow> filler_ok (NewVoidFiller cfg)"
  by (simp add: filler_ok_def NewVoidFiller_def NewOrdinaryKriging_def Let_def)

lemma grid_Reset_centers: "map cell_center (sg_cells (grid_Reset g)) = map cell_center (sg_cells g)"
  by (simp add: grid_Reset_def cell_center_def)

lemma prepare_grid_centered:
  assumes "filler_ok vf"
  shows "centered (prepare_grid vf points b) \<and> g_CellSize (sg_config (prepare_grid vf points b)) = fc_CellSize (vf_config vf)"
proof -
  let ?ok = "\<lambda>g. centered g \<and> g_CellSize (sg_config g) = fc_CellSize (vf_config vf)"
  have stats: "?ok (ComputeStatistics (fst (AddPoints g points)))" if "?ok g" for g
    using that by (auto simp: ComputeStatistics_centers ComputeStatistics_dims AddPoints_centers AddPoints_dims
        intro: centered_cong [of g])
  have fresh: "?ok (NewSpatialGrid (gridConfig (vf_config vf) minX minY maxX maxY))" for minX minY maxX maxY
    using assms by (simp add: filler_ok_def centered_new gridConfig_def new_grid_cells)
  have reset: "?ok (grid_Reset g)" if "vf_grid vf = Some g" for g
    using that assms grid_Reset_centers [of g]
    by (auto simp: filler_ok_def intro!: centered_cong [of g]) (simp_all add: grid_Reset_def)
  show ?thesis
    by (cases b) (auto simp: prepare_grid_def Let_def stats fresh reset split: option.split)
qed

text \<open>The limit of a call, and what is filled when it is not reached.\<close>

lemma fill_done_limit:
  assumes "fill_done vf g0 (if limit \<le> 0 then int (card {k. void_at g0 k}) else limit) ks s"
  shows "0 < limit \<longrightarrow> int (length ks) \<le> limit"
    and "kriging_min vf \<longrightarrow>
      0 < limit \<and> int (length ks) = limit \<or> (\<forall>k. void_at g0 k \<and> enough vf g0 k \<longrightarrow> k \<in> set ks)"
proof -
  let ?max = "if limit \<le> 0 then int (card {k. void_at g0 k}) else limit"
  have max: "int (length ks) \<le> ?max" and filled: "filled_from g0 (fl_grid s) (pf_FilledPoints (fl_patch s)) ks"
    and all: "kriging_min vf \<Longrightarrow> int (length ks) \<noteq> ?max \<Longrightarrow> \<forall>k. void_at g0 k \<and> enough vf g0 k \<longrightarrow> k \<in> set ks"
    using assms unfolding fill_done_def by blast+
  show "0 < limit \<longrightarrow> int (length ks) \<le> limit"
    using max by (cases "limit \<le> 0") simp_all
  have every: "set ks = {k. void_at g0 k}" if "length ks = card {k. void_at g0 k}"
    using filled that by (intro card_subset_eq finite_voids) (auto simp: filled_from_def distinct_card)
  show "kriging_min vf \<longrightarrow>
      0 < limit \<and> int (length ks) = limit \<or> (\<forall>k. void_at g0 k \<and> enough vf g0 k \<longrightarrow> k \<in> set ks)"
  proof (cases "limit \<le> 0 \<and> length ks = card {k. void_at g0 k}")
    case True
    with every have "set ks = {k. void_at g0 k}" by blast
    then show ?thesis by blast
  next
    case False
    with all show ?thesis by (cases "limit \<le> 0") auto
  qed
qed

text \<open>A call whose grid has no void cell changes no cell.\<close>

lemma ProcessAndFill_no_voids:
  assumes "\<not> vf_mu vf" and "\<not> fc_AutoFitVariogram (vf_config vf)" and "points \<noteq> []"
    and "g0 = prepare_grid vf points (defaultBounds points)" and "{k. void_at g0 k} = {}"
  shows "ProcessAndFill ck points None vf
       = Inr (Inr (empty_patch\<lparr>pf_FilledPoints := InterpolatedPoints g0\<rparr>, InterpolatedPoints g0),
              vf\<lparr>vf_grid := Some g0, vf_stats := count_grid (AnalyzeVoids g0) (vf_stats vf)\<rparr>)"
proof -
  have same: "prepare_grid (vf\<lparr>vf_mu := True\<rparr>) points (defaultBounds points) = g0"
    by (simp add: prepare_grid_def assms(4))
  have zero: "vi_VoidCells (AnalyzeVoids g0) = 0"
    by (simp add: AnalyzeVoids_def Let_def void_count assms(5))
  from assms(1-3) same zero show ?thesis
    by (simp add: ProcessAndFill_def vf_lock_def vf_unlock_def Let_def)
qed

text \<open>C25. When the variogram is not fitted, a call of a filler, the first or a later one, returns with
  its mutex released and the filler fit for the next call. Let \<open>g0\<close> be the grid prepared for the
  points, and \<open>ks\<close> the cells the call fills. They are void cells of \<open>g0\<close>; each gets its point, at
  the center of the cell, and every other cell is left as it was, so that the void cells
  afterwards are those of \<open>g0\<close> without the filled ones. The cells reported as filled and as
  skipped add up to the void cells of \<open>g0\<close>, and each filled one was interpolated, by kriging or
  by the fallback. No more cells are filled than the limit per call allows; when that is not
  reached and at least the four points that kriging needs are asked for, every void cell that had
  enough points around it is filled. The premises keep the call in the domain of the model: a grid
  that \<open>make\<close> accepts, a positive cell size, and an anisotropy ratio other than 0.\<close>

theorem void_fill_accounts:
  assumes "filler_ok vf" and "\<not> fc_AutoFitVariogram (vf_config vf)" and "\<not> vf_mu vf" and "points \<noteq> []"
    and "fill_fits (vf_config vf) points"
    and limit: "limit = fc_MaxInterpolatePerTick (vf_config vf)"
    and g0: "g0 = prepare_grid vf points (defaultBounds points)"
  shows "\<exists>r filled vf' g ks. ProcessAndFill ck points None vf = Inr (Inr (r, filled), vf')
       \<and> \<not> vf_mu vf' \<and> filler_ok vf' \<and> vf_grid vf' = Some g \<and> filled = InterpolatedPoints g
       \<and> (if {k. void_at g0 k} = {} then g = g0 \<and> ks = [] else filled_from g0 g (pf_FilledPoints r) ks)
       \<and> {k. void_at g k} = {k. void_at g0 k} - set ks
       \<and> pf_VoidCellsInPatch r = int (card {k. void_at g0 k})
       \<and> pf_FilledCells r + pf_SkippedCells r = pf_VoidCellsInPatch r
       \<and> pf_FilledCells r = int (length ks) \<and> pf_KrigingCount r + pf_IDWCount r = pf_FilledCells r
       \<and> (0 < limit \<longrightarrow> pf_FilledCells r \<le> limit)
       \<and> (kriging_min vf \<longrightarrow>
            0 < limit \<and> pf_FilledCells r = limit \<or> (\<forall>k. void_at g0 k \<and> enough vf g0 k \<longrightarrow> k \<in> set ks))"
proof -
  let ?info = "AnalyzeVoids g0"
  let ?vf2 = "vf\<lparr>vf_mu := True, vf_grid := Some g0, vf_stats := count_grid ?info (vf_stats vf)\<rparr>"
  have cen: "centered g0" "g_CellSize (sg_config g0) = fc_CellSize (vf_config vf)"
    using prepare_grid_centered [OF assms(1)] by (simp_all add: g0)
  have voids: "vi_VoidCells ?info = card {k. void_at g0 k}"
    by (simp add: AnalyzeVoids_def Let_def void_count)
  show ?thesis
  proof (cases "{k. void_at g0 k} = {}")
    case True
    then show ?thesis
      using ProcessAndFill_no_voids [OF assms(3,2,4) g0 True] assms(1,3) cen
      by (simp add: filler_ok_def empty_patch_def)
  next
    case False
    obtain s ks where run: "fillVoidsLocked ck ?info ?vf2 = Inr ((fl_patch s)\<lparr>pf_ElapsedUs := ck_total ck\<rparr>,
         ?vf2\<lparr>vf_lastPatchID := vf_lastPatchID ?vf2 + 1, vf_grid := Some (fl_grid s),
            vf_stats := (fl_stats s)\<lparr>fs_VoidCellsFilled := fs_VoidCellsFilled (fl_stats s) + of_nat (fl_totalFilled s)\<rparr>\<rparr>)"
      and done_s: "fill_done ?vf2 g0 (if fc_MaxInterpolatePerTick (vf_config ?vf2) \<le> 0
           then int (vi_VoidCells ?info) else fc_MaxInterpolatePerTick (vf_config ?vf2)) ks s"
      by (rule fillVoidsLocked_done [of ?vf2 g0 ?info ck]) (use cen in simp_all)
    have same_vf: "fill_done ?vf2 = fill_done vf" and conf: "vf_config ?vf2 = vf_config vf"
      by (simp_all add: fill_done_def kriging_min_def enough_def fun_eq_iff)
    have res: "fill_done vf g0 (if limit \<le> 0 then int (card {k. void_at g0 k}) else limit) ks s"
      using done_s unfolding same_vf conf voids limit .
    define vf' where "vf' = vf_unlock (?vf2\<lparr>vf_lastPatchID := vf_lastPatchID ?vf2 + 1, vf_grid := Some (fl_grid s),
      vf_stats := (fl_stats s)\<lparr>fs_VoidCellsFilled := fs_VoidCellsFilled (fl_stats s) + of_nat (fl_totalFilled s)\<rparr>\<rparr>)"
    have same: "prepare_grid (vf\<lparr>vf_mu := True\<rparr>) points (defaultBounds points) = g0"
      by (simp add: prepare_grid_def g0)
    have "vi_VoidCells ?info \<noteq> 0"
      using False finite_voids [of g0] by (simp add: voids)
    with run assms(2-4) same have "ProcessAndFill ck points None vf
        = Inr (Inr ((fl_patch s)\<lparr>pf_ElapsedUs := ck_total ck\<rparr>, InterpolatedPoints (fl_grid s)), vf')"
      by (simp add: ProcessAndFill_def vf_lock_def vf_unlock_def vf'_def Let_def)
    moreover have "\<not> vf_mu vf'" "filler_ok vf'" "vf_grid vf' = Some (fl_grid s)"
      using assms(1) res by (simp_all add: vf'_def vf_unlock_def filler_ok_def fill_done_def)
    moreover have "{k. void_at (fl_grid s) k} = {k. void_at g0 k} - set ks"
      using res filled_from_voids by (auto simp: fill_done_def)
    ultimately show ?thesis
      using False fill_done_limit [OF res] res unfolding fill_done_def
      by (intro exI [of _ "(fl_patch s)\<lparr>pf_ElapsedUs := ck_total ck\<rparr>"] exI [of _ "InterpolatedPoints (fl_grid s)"]
          exI [of _ vf'] exI [of _ "fl_grid s"] exI [of _ ks]) auto
  qed
qed

text \<open>Four points at one place, one cell around them searched, and a cell next to theirs, which gets filled.\<close>

definition small_config :: FillerConfig where
  "small_config = DefaultFillerConfig\<lparr>fc_AutoFitVariogram := False, fc_CellSize := 1, fc_SearchRadius := 1\<rparr>"

definition four_points :: "Point3D list" where
  "four_points = replicate 4 (depth_point 0 0 20)"

lemma four_points_length: "four_points \<noteq> []" "length four_points = 4"
  by (simp_all add: four_points_def)

definition small_grid :: SpatialGrid where
  "small_grid = NewSpatialGrid (gridConfig small_config (- 2) (- 2) 2 2)"

lemma small_config_facts:
  "\<not> fc_AutoFitVariogram small_config" "fc_CellSize small_config = 1" "fc_SearchRadius small_config = 1"
  "fc_VariogramAnisoRatio small_config = 1" "fc_MinPointsForKriging small_config = int MinKrigingNeighbors"
  "fc_MaxInterpolatePerTick small_config = 256" "g_CellSize (gridConfig small_config a b c d) = 1"
  by (simp_all add: small_config_def DefaultFillerConfig_def gridConfig_def)

lemma small_grid_facts:
  "sg_numColsX small_grid = 5" "sg_numRowsY small_grid = 5" "length (sg_cells small_grid) = 25"
  "cellIndex small_grid 0 0 = Some 12" "g_MinPointsPerCell (sg_config small_grid) = 1"
  by (simp_all add: small_grid_def NewSpatialGrid_def gridConfig_def small_config_facts Let_def
      cellIndex_def in_bounds_def go_trunc_nonneg)

lemma small_grid_empty: "i < 25 \<Longrightarrow> gc_Points (sg_cells small_grid ! i) = []"
  using small_grid_facts(1,2)
  by (simp add: small_grid_def new_grid_cells new_cell_def Let_def del: upt_rec_numeral)

lemma four_points_bounds: "defaultBounds four_points = (0, 0, 0, 0)"
  by (simp add: four_points_def defaultBounds_def depth_point_def numeral_eq_Suc)

lemma small_prepared:
  "prepare_grid (NewVoidFiller small_config) four_points (0, 0, 0, 0)
     = ComputeStatistics (fst (AddPoints small_grid four_points))"
  using prepare_grid_fresh [of "NewVoidFiller small_config" 0 0 0 0 four_points]
  by (simp add: new_filler_facts small_grid_def small_config_facts Let_def)

lemma small_cells:
  defines "g \<equiv> ComputeStatistics (fst (AddPoints small_grid four_points))"
  shows "void_at g 6" and "enough (NewVoidFiller small_config) g 6"
proof -
  let ?a = "fst (AddPoints small_grid four_points)"
  have placed: "placed small_grid"
    unfolding small_grid_def by (rule placed_new) (simp add: small_config_facts)
  note added = AddPoints_step [OF placed, of four_points]
  have dims: "length (sg_cells ?a) = sg_numColsX ?a * sg_numRowsY ?a" "sg_numColsX ?a = 5" "sg_numRowsY ?a = 5"
    using added by (simp_all add: AddPoints_dims small_grid_facts)
  have points: "gc_Points (sg_cells ?a ! i) = (if i = 12 then four_points else [])" if "i < 25" for i
  proof -
    have "filter (\<lambda>p. cellIndex small_grid (q_X p) (q_Y p) = Some i) four_points = (if i = 12 then four_points else [])"
      by (auto simp: four_points_def depth_point_def small_grid_facts)
    with added that show ?thesis by (simp add: small_grid_facts small_grid_empty)
  qed
  have min: "g_MinPointsPerCell (sg_config ?a) = 1"
    using added by (simp add: small_grid_facts)
  have gdims: "length (sg_cells g) = 25" "sg_numColsX g = 5" "sg_numRowsY g = 5"
    using dims by (simp_all add: g_def ComputeStatistics_dims)
  show "void_at g 6"
    using ComputeStatistics_cells [OF dims(1), of 1 1] points [of 6] gdims
    by (simp add: dims void_at_def g_def)
  have data: "gc_HasData (sg_cells g ! 12)" "gc_Points (sg_cells g ! 12) = four_points"
    using ComputeStatistics_cells [OF dims(1), of 2 2] points [of 12] min
    by (simp_all add: dims g_def four_points_length)
  have "(2, 2) \<in> set (around 5 5 1 1 1)"
    by (simp add: around_def upto_rec1)
  then have "length (cell_samples (sg_cells g ! 12)) \<le> length (GetNeighbors g 1 1 1)"
    unfolding GetNeighbors_def length_concat map_map gdims
    by (intro member_le_sum_list) (force simp: data(1) Let_def, simp)
  then show "enough (NewVoidFiller small_config) g 6"
    by (simp add: enough_def gdims new_filler_facts small_config_facts MinKrigingNeighbors_def cell_samples_def
        data(2) four_points_length)
qed

lemma void_fill_accounts_witness:
  "\<exists>r filled vf'. ProcessAndFill still_clock four_points None (NewVoidFiller small_config) = Inr (Inr (r, filled), vf')
     \<and> 0 < pf_FilledCells r \<and> pf_FilledCells r + pf_SkippedCells r = pf_VoidCellsInPatch r"
proof -
  let ?vf = "NewVoidFiller small_config"
  have ok: "filler_ok ?vf" "\<not> fc_AutoFitVariogram (vf_config ?vf)" "\<not> vf_mu ?vf" "four_points \<noteq> []"
    by (auto simp: new_filler_facts small_config_facts four_points_length intro: new_filler_ok)
  have fits: "fill_fits (vf_config ?vf) four_points"
    using small_grid_facts
    by (simp add: fill_fits_def four_points_bounds grid_fits_def new_filler_facts small_config_facts
        small_grid_def [symmetric] Let_def)
  have min: "kriging_min ?vf"
    by (simp add: kriging_min_def new_filler_facts small_config_facts)
  from void_fill_accounts [OF ok fits refl refl, of still_clock] min obtain r filled vf' ks where
    call: "ProcessAndFill still_clock four_points None ?vf = Inr (Inr (r, filled), vf')"
      "pf_FilledCells r + pf_SkippedCells r = pf_VoidCellsInPatch r" "pf_FilledCells r = int (length ks)"
    and limit: "0 < fc_MaxInterpolatePerTick (vf_config ?vf) \<and> pf_FilledCells r = fc_MaxInterpolatePerTick (vf_config ?vf)
      \<or> (\<forall>k. void_at (prepare_grid ?vf four_points (defaultBounds four_points)) k
            \<and> enough ?vf (prepare_grid ?vf four_points (defaultBounds four_points)) k \<longrightarrow> k \<in> set ks)"
    by blast
  have "0 < fc_MaxInterpolatePerTick (vf_config ?vf) \<and> pf_FilledCells r = fc_MaxInterpolatePerTick (vf_config ?vf)
      \<or> 6 \<in> set ks"
    using limit small_cells unfolding four_points_bounds small_prepared by blast
  then have "0 < pf_FilledCells r"
    using call(3) by (auto simp: length_pos_if_in_set)
  with call show ?thesis by blast
qed

end
