(* ===== verification/Reorganizer.thy ===== *)
theory Reorganizer
  imports Go_Heap Sonar_Model "HOL-Library.AList"
begin

text \<open>
  \<open>Reorganizer\<close> of \<open>internal/pointcloud/reorganizer.go\<close>: a cache of the latest frames by ping
  counter, a heap of the same frames by timestamp, the order of arrival for eviction, and the
  filling of voids on request, on a flush and every few frames in a goroutine.

  Frames are shared by pointer: a \<open>frame_ref\<close> is an address with the frame it points to, and
  \<open>hf == f\<close> compares addresses. A Go map is an association list with distinct keys. A
  goroutine that was started and has not run yet is an entry of \<open>rz_started\<close>.
\<close>

section \<open>State\<close>

record frame_ref =
  fr_addr :: nat
  fr_frame :: PointCloudFrame

definition ref_ts :: "frame_ref \<Rightarrow> u64" where
  "ref_ts f = f_TimestampUS (fr_frame f)"

definition ref_ping :: "frame_ref \<Rightarrow> u16" where
  "ref_ping f = f_PingCounter (fr_frame f)"

record 'r reorganizer =
  rz_maxCacheFrames :: int
  rz_frameHeap :: "frame_ref list"
  rz_cache :: "(u16 \<times> frame_ref) list"
  rz_mu :: bool
  rz_frameOrder :: "u16 list"
  rz_fillEveryNFrames :: int
  rz_framesSinceFill :: int
  rz_autoFillEnabled :: bool
  rz_filledPoints :: "Point3D list"
  rz_fillResults :: "'r list"
  rz_fillMu :: bool
  rz_started :: "frame_ref list list"

text \<open>
  The functions the reorganizer is given: the void filling, which may fail, and the handler of
  ready frames.
\<close>

type_synonym ('w, 'r) fill = "PointCloudFrame list \<Rightarrow> 'w \<Rightarrow> ((Point3D list \<times> 'r list) option \<times> 'w) go"

record ('w, 'r) reorg_hooks =
  onVoidFill :: "('w, 'r) fill option"
  onReadyFrames :: "(PointCloudFrame list \<Rightarrow> 'w \<Rightarrow> 'w go) option"

text \<open>\<open>make\<close> panics on a negative capacity.\<close>

definition NewReorganizer :: "int \<Rightarrow> 'r reorganizer go" where
  "NewReorganizer maxCacheFrames =
     (if maxCacheFrames < 0 then Inl Panic
      else Inr \<lparr>rz_maxCacheFrames = maxCacheFrames, rz_frameHeap = heap_Init ref_ts [], rz_cache = [],
        rz_mu = False, rz_frameOrder = [], rz_fillEveryNFrames = 16, rz_framesSinceFill = 0,
        rz_autoFillEnabled = False, rz_filledPoints = [], rz_fillResults = [], rz_fillMu = False,
        rz_started = []\<rparr>)"

definition rz_lock :: "'r reorganizer \<Rightarrow> 'r reorganizer go" where
  "rz_lock r = (if rz_mu r then Inl Deadlock else Inr (r\<lparr>rz_mu := True\<rparr>))"

definition rz_unlock :: "'r reorganizer \<Rightarrow> 'r reorganizer" where
  "rz_unlock r = r\<lparr>rz_mu := False\<rparr>"

section \<open>Configuration\<close>

text \<open>The filler is nil or an object whose \<open>FillFrames\<close> the callback calls.\<close>

definition EnableVoidFill ::
    "('w, 'r) fill option \<Rightarrow> int \<Rightarrow> 'r reorganizer \<Rightarrow> ('w, 'r) reorg_hooks \<Rightarrow>
     ('r reorganizer \<times> ('w, 'r) reorg_hooks) go" where
  "EnableVoidFill filler everyNFrames r hooks =
     (case rz_lock r of
        Inl s \<Rightarrow> Inl s
      | Inr r1 \<Rightarrow>
          (let r2 = r1\<lparr>rz_autoFillEnabled := (filler \<noteq> None)\<rparr>;
               r3 = (if everyNFrames > 0 then r2\<lparr>rz_fillEveryNFrames := everyNFrames\<rparr> else r2)
           in Inr (rz_unlock r3,
                   hooks\<lparr>onVoidFill := Some (\<lambda>frames w. case filler of None \<Rightarrow> Inl Panic | Some f \<Rightarrow> f frames w)\<rparr>)))"

definition SetReadyHandler ::
    "(PointCloudFrame list \<Rightarrow> 'w \<Rightarrow> 'w go) \<Rightarrow> ('w, 'r) reorg_hooks \<Rightarrow> ('w, 'r) reorg_hooks" where
  "SetReadyHandler handler hooks = hooks\<lparr>onReadyFrames := Some handler\<rparr>"

definition SetVoidFillCallback :: "('w, 'r) fill \<Rightarrow> ('w, 'r) reorg_hooks \<Rightarrow> ('w, 'r) reorg_hooks" where
  "SetVoidFillCallback f hooks = hooks\<lparr>onVoidFill := Some f\<rparr>"

section \<open>Eviction\<close>

text \<open>The loop over the heap that looks for a pointer.\<close>

fun find_ref :: "nat \<Rightarrow> frame_ref list \<Rightarrow> nat option" where
  "find_ref a [] = None"
| "find_ref a (f # fs) = (if fr_addr f = a then Some 0 else map_option Suc (find_ref a fs))"

definition evictOldestLocked :: "'r reorganizer \<Rightarrow> 'r reorganizer go" where
  "evictOldestLocked r =
     (case rz_frameOrder r of
        [] \<Rightarrow> Inr r
      | oldestPing # rest \<Rightarrow>
          (let r1 = r\<lparr>rz_frameOrder := rest\<rparr> in
           case map_of (rz_cache r1) oldestPing of
             None \<Rightarrow> Inr r1
           | Some f \<Rightarrow>
               (let r2 = r1\<lparr>rz_cache := AList.delete oldestPing (rz_cache r1)\<rparr> in
                case find_ref (fr_addr f) (rz_frameHeap r2) of
                  None \<Rightarrow> Inr r2
                | Some i \<Rightarrow>
                    (case heap_Remove ref_ts (rz_frameHeap r2) i of
                       Inl s \<Rightarrow> Inl s
                     | Inr (_, h) \<Rightarrow> Inr (r2\<lparr>rz_frameHeap := h\<rparr>)))))"

partial_function (option) evict_loop :: "'r reorganizer \<Rightarrow> 'r reorganizer go option" where
  "evict_loop r =
     (if int (length (rz_cache r)) > rz_maxCacheFrames r then
        (case evictOldestLocked r of
           Inl s \<Rightarrow> Some (Inl s)
         | Inr r' \<Rightarrow> evict_loop r')
      else Some (Inr r))"

section \<open>Submitting frames\<close>

text \<open>\<open>triggerFillLocked\<close>: start a goroutine on the frames in order of time.\<close>

definition triggerFillLocked :: "('w, 'r) reorg_hooks \<Rightarrow> 'r reorganizer \<Rightarrow> 'r reorganizer go" where
  "triggerFillLocked hooks r =
     (if \<not> rz_autoFillEnabled r \<or> onVoidFill hooks = None then Inr r
      else
        (case heap_drain ref_ts (rz_frameHeap r) of
           Inl s \<Rightarrow> Inl s
         | Inr frames \<Rightarrow>
             if length frames < 2 then Inr r
             else Inr (r\<lparr>rz_started := rz_started r @ [frames]\<rparr>)))"

definition count_fill :: "('w, 'r) reorg_hooks \<Rightarrow> 'r reorganizer \<Rightarrow> 'r reorganizer go" where
  "count_fill hooks r =
     (if rz_autoFillEnabled r \<and> onVoidFill hooks \<noteq> None then
        (let r1 = r\<lparr>rz_framesSinceFill := rz_framesSinceFill r + 1\<rparr> in
         if rz_framesSinceFill r1 \<ge> rz_fillEveryNFrames r1 then
           triggerFillLocked hooks (r1\<lparr>rz_framesSinceFill := 0\<rparr>)
         else Inr r1)
      else Inr r)"

definition SubmitFrame ::
    "('w, 'r) reorg_hooks \<Rightarrow> frame_ref option \<Rightarrow> 'r reorganizer \<Rightarrow> 'r reorganizer go option" where
  "SubmitFrame hooks frame r =
     (case rz_lock r of
        Inl s \<Rightarrow> Some (Inl s)
      | Inr r1 \<Rightarrow>
          (case frame of
             None \<Rightarrow> Some (Inr (rz_unlock r1))
           | Some f \<Rightarrow>
               if f_NumPoints (fr_frame f) = 0 then Some (Inr (rz_unlock r1))
               else
                 (let r2 = r1\<lparr>rz_cache := AList.update (ref_ping f) f (rz_cache r1),
                              rz_frameHeap := heap_Push ref_ts (rz_frameHeap r1) f,
                              rz_frameOrder := rz_frameOrder r1 @ [ref_ping f]\<rparr>
                  in case evict_loop r2 of
                       None \<Rightarrow> None
                     | Some (Inl s) \<Rightarrow> Some (Inl s)
                     | Some (Inr r3) \<Rightarrow>
                         Some (case count_fill hooks r3 of
                                 Inl s \<Rightarrow> Inl s
                               | Inr r4 \<Rightarrow> Inr (rz_unlock r4)))))"

section \<open>Reading\<close>

definition GetFrame :: "u16 \<Rightarrow> 'r reorganizer \<Rightarrow> frame_ref option go" where
  "GetFrame pingCounter r =
     (case rz_lock r of Inl s \<Rightarrow> Inl s | Inr r1 \<Rightarrow> Inr (map_of (rz_cache r1) pingCounter))"

definition Size :: "'r reorganizer \<Rightarrow> nat go" where
  "Size r = (case rz_lock r of Inl s \<Rightarrow> Inl s | Inr r1 \<Rightarrow> Inr (length (rz_cache r1)))"

definition GetOrderedFrames :: "'r reorganizer \<Rightarrow> frame_ref list go" where
  "GetOrderedFrames r =
     (case rz_lock r of Inl s \<Rightarrow> Inl s | Inr r1 \<Rightarrow> heap_drain ref_ts (rz_frameHeap r1))"

definition GetFilledPoints :: "'r reorganizer \<Rightarrow> Point3D list go" where
  "GetFilledPoints r = (if rz_fillMu r then Inl Deadlock else Inr (rz_filledPoints r))"

definition GetFillResults :: "'r reorganizer \<Rightarrow> 'r list go" where
  "GetFillResults r = (if rz_fillMu r then Inl Deadlock else Inr (rz_fillResults r))"

section \<open>Filling\<close>

text \<open>Store the result of a filling under \<open>fillMu\<close>.\<close>

definition store_fill :: "Point3D list \<Rightarrow> 'r list \<Rightarrow> 'r reorganizer \<Rightarrow> 'r reorganizer go" where
  "store_fill filled results r =
     (if rz_fillMu r then Inl Deadlock
      else Inr (r\<lparr>rz_filledPoints := filled, rz_fillResults := results\<rparr>))"

definition filled_frame :: "frame_ref list \<Rightarrow> Point3D list \<Rightarrow> PointCloudFrame" where
  "filled_frame frames filled =
     \<lparr>f_TimestampUS = ref_ts (last frames), f_PingCounter = ref_ping (last frames),
      f_Points = filled, f_NumPoints = length filled\<rparr>"

text \<open>The goroutine that \<open>triggerFillLocked\<close> started with \<open>frames\<close>; it does not take \<open>mu\<close>.\<close>

definition fill_goroutine ::
    "('w, 'r) reorg_hooks \<Rightarrow> frame_ref list \<Rightarrow> 'r reorganizer \<Rightarrow> 'w \<Rightarrow> ('r reorganizer \<times> 'w) go" where
  "fill_goroutine hooks frames r w =
     (case onVoidFill hooks of
        None \<Rightarrow> Inl Panic
      | Some f \<Rightarrow>
          (case f (map fr_frame frames) w of
             Inl s \<Rightarrow> Inl s
           | Inr (None, w1) \<Rightarrow> Inr (r, w1)
           | Inr (Some (filled, results), w1) \<Rightarrow>
               (case store_fill filled results r of
                  Inl s \<Rightarrow> Inl s
                | Inr r1 \<Rightarrow>
                    (case onReadyFrames hooks of
                       None \<Rightarrow> Inr (r1, w1)
                     | Some ready \<Rightarrow>
                         (case ready [filled_frame frames filled] w1 of
                            Inl s \<Rightarrow> Inl s
                          | Inr w2 \<Rightarrow> Inr (r1, w2))))))"

text \<open>\<open>ForceFill\<close>: the frames are taken under the mutex, the filling runs without it.\<close>

definition ForceFill ::
    "('w, 'r) reorg_hooks \<Rightarrow> 'r reorganizer \<Rightarrow> 'w \<Rightarrow>
     ((Point3D list \<times> 'r list) option \<times> 'r reorganizer \<times> 'w) go" where
  "ForceFill hooks r w =
     (case rz_lock r of
        Inl s \<Rightarrow> Inl s
      | Inr r1 \<Rightarrow>
          (case onVoidFill hooks of
             None \<Rightarrow> Inr (Some ([], []), rz_unlock r1, w)
           | Some f \<Rightarrow>
               if \<not> rz_autoFillEnabled r1 then Inr (Some ([], []), rz_unlock r1, w)
               else
                 (case heap_drain ref_ts (rz_frameHeap r1) of
                    Inl s \<Rightarrow> Inl s
                  | Inr frames \<Rightarrow>
                      (let r2 = rz_unlock r1 in
                       if frames = [] then Inr (Some ([], []), r2, w)
                       else
                         (case f (map fr_frame frames) w of
                            Inl s \<Rightarrow> Inl s
                          | Inr (None, w1) \<Rightarrow> Inr (None, r2, w1)
                          | Inr (Some (filled, results), w1) \<Rightarrow>
                              (case store_fill filled results r2 of
                                 Inl s \<Rightarrow> Inl s
                               | Inr r3 \<Rightarrow> Inr (Some (filled, results), r3, w1)))))))"

text \<open>The filling inside \<open>Flush\<close>: a frame of the filled points goes behind the result.\<close>

definition flush_fill ::
    "('w, 'r) reorg_hooks \<Rightarrow> frame_ref list \<Rightarrow> 'r reorganizer \<Rightarrow> 'w \<Rightarrow>
     (PointCloudFrame list \<times> 'r reorganizer \<times> 'w) go" where
  "flush_fill hooks frames r w =
     (case onVoidFill hooks of
        None \<Rightarrow> Inr (map fr_frame frames, r, w)
      | Some f \<Rightarrow>
          if \<not> rz_autoFillEnabled r \<or> length frames < 2 then Inr (map fr_frame frames, r, w)
          else
            (case f (map fr_frame frames) w of
               Inl s \<Rightarrow> Inl s
             | Inr (None, w1) \<Rightarrow> Inr (map fr_frame frames, r, w1)
             | Inr (Some (filled, results), w1) \<Rightarrow>
                 if filled = [] then Inr (map fr_frame frames, r, w1)
                 else
                   (case store_fill filled results r of
                      Inl s \<Rightarrow> Inl s
                    | Inr r1 \<Rightarrow> Inr (map fr_frame frames @ [filled_frame frames filled], r1, w1))))"

definition Flush ::
    "('w, 'r) reorg_hooks \<Rightarrow> 'r reorganizer \<Rightarrow> 'w \<Rightarrow> (PointCloudFrame list \<times> 'r reorganizer \<times> 'w) go" where
  "Flush hooks r w =
     (case rz_lock r of
        Inl s \<Rightarrow> Inl s
      | Inr r1 \<Rightarrow>
          (case heap_drain ref_ts (rz_frameHeap r1) of
             Inl s \<Rightarrow> Inl s
           | Inr frames \<Rightarrow>
               (let r2 = r1\<lparr>rz_cache := [], rz_frameHeap := heap_Init ref_ts [], rz_frameOrder := []\<rparr> in
                case flush_fill hooks frames r2 w of
                  Inl s \<Rightarrow> Inl s
                | Inr (result, r3, w1) \<Rightarrow>
                    (case onReadyFrames hooks of
                       None \<Rightarrow> Inr (result, rz_unlock r3, w1)
                     | Some ready \<Rightarrow>
                         if result = [] then Inr (result, rz_unlock r3, w1)
                         else
                           (case ready result w1 of
                              Inl s \<Rightarrow> Inl s
                            | Inr w2 \<Rightarrow> Inr (result, rz_unlock r3, w2))))))"

section \<open>Voxels\<close>

definition voxel_key :: "real \<Rightarrow> Point3D \<Rightarrow> int \<times> int \<times> int" where
  "voxel_key invSize p = (go_trunc (q_X p * invSize), go_trunc (q_Y p * invSize), go_trunc (q_Z p * invSize))"

text \<open>A voxel keeps its first point of the greatest intensity.\<close>

definition voxel_add ::
    "real \<Rightarrow> ((int \<times> int \<times> int) \<times> Point3D) list \<Rightarrow> Point3D \<Rightarrow> ((int \<times> int \<times> int) \<times> Point3D) list" where
  "voxel_add invSize m p =
     (let key = voxel_key invSize p in
      case map_of m key of
        Some existing \<Rightarrow> if q_Intensity p > q_Intensity existing then AList.update key p m else m
      | None \<Rightarrow> AList.update key p m)"

definition voxel_map :: "PointCloudFrame list \<Rightarrow> real \<Rightarrow> ((int \<times> int \<times> int) \<times> Point3D) list" where
  "voxel_map frames voxelSize = foldl (voxel_add (1 / voxelSize)) [] (concat (map f_Points frames))"

definition point_less :: "Point3D \<Rightarrow> Point3D \<Rightarrow> bool" where
  "point_less a b =
     (if q_Latitude a \<noteq> q_Latitude b then q_Latitude a < q_Latitude b
      else if q_Longitude a \<noteq> q_Longitude b then q_Longitude a < q_Longitude b
      else q_Depth a < q_Depth b)"

text \<open>
  The order in which a Go map is iterated and the order \<open>sort.Slice\<close> gives to equal elements
  are not fixed by the language: both are parameters.
\<close>

definition SpatialVoxelGrid ::
    "(Point3D list \<Rightarrow> Point3D list) \<Rightarrow> ((Point3D \<Rightarrow> Point3D \<Rightarrow> bool) \<Rightarrow> Point3D list \<Rightarrow> Point3D list) \<Rightarrow>
     PointCloudFrame list \<Rightarrow> real \<Rightarrow> Point3D list" where
  "SpatialVoxelGrid iterate sort_slice frames voxelSize =
     sort_slice point_less (iterate (map snd (voxel_map frames voxelSize)))"

end
