(* ===== verification/Reorganizer_Correct.thy ===== *)
theory Reorganizer_Correct
  imports Reorganizer
begin

text \<open>
  Correctness of \<open>Reorganizer\<close>: the invariant that every operation keeps, the refinement to the
  list of the latest frames when ping counters differ, the order of what is handed out, and
  what repeated ping counters do.
\<close>

section \<open>The invariant\<close>

definition reorg_inv :: "'r reorganizer \<Rightarrow> bool" where
  "reorg_inv r \<longleftrightarrow>
     0 \<le> rz_maxCacheFrames r \<and> heap_ord ref_ts (rz_frameHeap r) (length (rz_frameHeap r))
   \<and> distinct (map fst (rz_cache r)) \<and> fst ` set (rz_cache r) \<subseteq> set (rz_frameOrder r)"

lemma find_ref_bound: "find_ref a h = Some i \<Longrightarrow> i < length h \<and> fr_addr (h ! i) = a"
  by (induction h arbitrary: i) (auto split: if_splits)

lemma find_ref_None: "find_ref a h = None \<longleftrightarrow> a \<notin> fr_addr ` set h"
  by (induction h) auto

lemma delete_dom: "fst ` set (AList.delete p c) = fst ` set c - {p}"
  using arg_cong [OF AList.delete_keys [of p c], of set] by simp

text \<open>One eviction: it never panics, keeps the invariant and shortens the order.\<close>

lemma evict_ok:
  assumes inv: "reorg_inv r" and order: "rz_frameOrder r = p # ps"
  shows "\<exists>r'. evictOldestLocked r = Inr r' \<and> reorg_inv r' \<and> rz_frameOrder r' = ps
           \<and> rz_cache r' = AList.delete p (rz_cache r) \<and> rz_maxCacheFrames r' = rz_maxCacheFrames r
           \<and> rz_mu r' = rz_mu r \<and> rz_autoFillEnabled r' = rz_autoFillEnabled r
           \<and> (case map_of (rz_cache r) p of
                None \<Rightarrow> rz_frameHeap r' = rz_frameHeap r
              | Some f \<Rightarrow>
                  (case find_ref (fr_addr f) (rz_frameHeap r) of
                     None \<Rightarrow> rz_frameHeap r' = rz_frameHeap r
                   | Some i \<Rightarrow> mset (rz_frameHeap r) = add_mset (rz_frameHeap r ! i) (mset (rz_frameHeap r'))))"
proof -
  have keys: "distinct (map fst (AList.delete p (rz_cache r)))"
    "fst ` set (AList.delete p (rz_cache r)) \<subseteq> set ps"
    using inv order delete_dom [of p "rz_cache r"] by (auto simp: reorg_inv_def AList.distinct_delete)
  show ?thesis
  proof (cases "map_of (rz_cache r) p")
    case None
    then have "AList.delete p (rz_cache r) = rz_cache r"
      by (simp add: AList.delete_id map_of_eq_None_iff)
    with None keys inv order show ?thesis
      by (simp add: evictOldestLocked_def reorg_inv_def)
  next
    case (Some f)
    show ?thesis
    proof (cases "find_ref (fr_addr f) (rz_frameHeap r)")
      case None
      with Some keys inv order show ?thesis
        by (simp add: evictOldestLocked_def reorg_inv_def)
    next
      case (Some i)
      then have "i < length (rz_frameHeap r)" using find_ref_bound by blast
      from heap_Remove_ok [OF _ this, of ref_ts] inv obtain t where
        "heap_Remove ref_ts (rz_frameHeap r) i = Inr (rz_frameHeap r ! i, t)" "heap_ord ref_ts t (length t)"
        "mset (rz_frameHeap r) = add_mset (rz_frameHeap r ! i) (mset t)"
        by (auto simp: reorg_inv_def)
      with Some \<open>map_of (rz_cache r) p = Some f\<close> keys inv order show ?thesis
        by (simp add: evictOldestLocked_def reorg_inv_def)
    qed
  qed
qed

lemma evict_loop_ok:
  assumes "reorg_inv r"
  shows "\<exists>r'. evict_loop r = Some (Inr r') \<and> reorg_inv r' \<and> rz_maxCacheFrames r' = rz_maxCacheFrames r
           \<and> int (length (rz_cache r')) \<le> rz_maxCacheFrames r \<and> rz_mu r' = rz_mu r
           \<and> rz_autoFillEnabled r' = rz_autoFillEnabled r"
  using assms
proof (induction "length (rz_frameOrder r)" arbitrary: r rule: less_induct)
  case less
  show ?case
  proof (cases "int (length (rz_cache r)) > rz_maxCacheFrames r")
    case False
    with less.prems show ?thesis by (simp add: evict_loop.simps)
  next
    case True
    then have "rz_cache r \<noteq> []" using less.prems by (auto simp: reorg_inv_def)
    then have "rz_frameOrder r \<noteq> []"
      using less.prems by (cases "rz_cache r") (auto simp: reorg_inv_def)
    then obtain p ps where order: "rz_frameOrder r = p # ps"
      by (cases "rz_frameOrder r") auto
    obtain r1 where r1: "evictOldestLocked r = Inr r1" "reorg_inv r1" "rz_frameOrder r1 = ps"
      "rz_maxCacheFrames r1 = rz_maxCacheFrames r" "rz_mu r1 = rz_mu r"
      "rz_autoFillEnabled r1 = rz_autoFillEnabled r"
      using evict_ok [OF less.prems order] by blast
    have "length (rz_frameOrder r1) < length (rz_frameOrder r)"
      using r1(3) order by simp
    from less.hyps [OF this r1(2)] r1 True show ?thesis
      by (simp add: evict_loop.simps [of r])
  qed
qed

lemma count_fill_ok:
  assumes "heap_ord ref_ts (rz_frameHeap r) (length (rz_frameHeap r))"
  shows "\<exists>r'. count_fill hooks r = Inr r' \<and> rz_frameHeap r' = rz_frameHeap r \<and> rz_cache r' = rz_cache r
           \<and> rz_frameOrder r' = rz_frameOrder r \<and> rz_maxCacheFrames r' = rz_maxCacheFrames r
           \<and> rz_mu r' = rz_mu r \<and> rz_autoFillEnabled r' = rz_autoFillEnabled r"
  using heap_drain_sorted [OF assms]
  by (auto simp: count_fill_def triggerFillLocked_def Let_def)

lemma update_keys:
  "distinct (map fst c) \<Longrightarrow> distinct (map fst (AList.update k v c))
     \<and> fst ` set (AList.update k v c) = insert k (fst ` set c)"
  using AList.dom_update [of k v c] by (simp add: AList.distinct_update)

lemma SubmitFrame_ok:
  assumes "reorg_inv r" and "\<not> rz_mu r"
  shows "\<exists>r'. SubmitFrame hooks f r = Some (Inr r') \<and> reorg_inv r' \<and> \<not> rz_mu r'
           \<and> rz_maxCacheFrames r' = rz_maxCacheFrames r \<and> rz_autoFillEnabled r' = rz_autoFillEnabled r
           \<and> (int (length (rz_cache r)) \<le> rz_maxCacheFrames r
                \<longrightarrow> int (length (rz_cache r')) \<le> rz_maxCacheFrames r)"
proof (cases "f = None \<or> f_NumPoints (fr_frame (the f)) = 0")
  case True
  then have "SubmitFrame hooks f r = Some (Inr (rz_unlock (r\<lparr>rz_mu := True\<rparr>)))"
    using assms(2) by (cases f) (auto simp: SubmitFrame_def rz_lock_def)
  with assms show ?thesis by (simp add: rz_unlock_def reorg_inv_def)
next
  case False
  then obtain g where f: "f = Some g" "f_NumPoints (fr_frame g) \<noteq> 0" by (cases f) auto
  let ?r = "r\<lparr>rz_mu := True, rz_cache := AList.update (ref_ping g) g (rz_cache r),
      rz_frameHeap := heap_Push ref_ts (rz_frameHeap r) g, rz_frameOrder := rz_frameOrder r @ [ref_ping g]\<rparr>"
  have "reorg_inv ?r"
    using assms(1) heap_Push_ok [of ref_ts "rz_frameHeap r" g] update_keys [of "rz_cache r" "ref_ping g" g]
    by (auto simp: reorg_inv_def)
  from evict_loop_ok [OF this] obtain r3 where r3: "evict_loop ?r = Some (Inr r3)" "reorg_inv r3"
    "rz_maxCacheFrames r3 = rz_maxCacheFrames r" "int (length (rz_cache r3)) \<le> rz_maxCacheFrames r"
    "rz_autoFillEnabled r3 = rz_autoFillEnabled r"
    by auto
  obtain r4 where r4: "count_fill hooks r3 = Inr r4" "rz_frameHeap r4 = rz_frameHeap r3"
    "rz_cache r4 = rz_cache r3" "rz_frameOrder r4 = rz_frameOrder r3"
    "rz_maxCacheFrames r4 = rz_maxCacheFrames r3" "rz_autoFillEnabled r4 = rz_autoFillEnabled r3"
    using count_fill_ok [of r3 hooks] r3(2) by (auto simp: reorg_inv_def)
  have "SubmitFrame hooks f r = Some (Inr (rz_unlock r4))"
    using f assms(2) r3(1) r4(1) by (simp add: SubmitFrame_def rz_lock_def)
  with r3 r4 show ?thesis
    by (simp add: rz_unlock_def reorg_inv_def)
qed

text \<open>C20. Submitting a frame always returns: the eviction loop ends, the heap operations stay in
  bounds, the mutex is released, the invariant holds, and the cache holds no more frames than
  its limit.\<close>

theorem SubmitFrame_bounded:
  assumes "reorg_inv r" and "\<not> rz_mu r" and "int (length (rz_cache r)) \<le> rz_maxCacheFrames r"
  shows "\<exists>r'. SubmitFrame hooks f r = Some (Inr r') \<and> reorg_inv r' \<and> \<not> rz_mu r'
           \<and> int (length (rz_cache r')) \<le> rz_maxCacheFrames r"
  using SubmitFrame_ok [OF assms(1,2), of hooks f] assms(3) by blast

definition no_hooks :: "(unit, unit) reorg_hooks" where
  "no_hooks = \<lparr>onVoidFill = None, onReadyFrames = None\<rparr>"

definition empty_reorg :: "int \<Rightarrow> 'r reorganizer" where
  "empty_reorg n = \<lparr>rz_maxCacheFrames = n, rz_frameHeap = [], rz_cache = [], rz_mu = False,
     rz_frameOrder = [], rz_fillEveryNFrames = 16, rz_framesSinceFill = 0, rz_autoFillEnabled = False,
     rz_filledPoints = [], rz_fillResults = [], rz_fillMu = False, rz_started = []\<rparr>"

lemma NewReorganizer_empty: "0 \<le> n \<Longrightarrow> NewReorganizer n = Inr (empty_reorg n)"
  by (simp add: NewReorganizer_def empty_reorg_def heap_Init_def)

lemma empty_reorg_inv: "0 \<le> n \<Longrightarrow> reorg_inv (empty_reorg n) \<and> \<not> rz_mu (empty_reorg n)"
  by (simp add: empty_reorg_def reorg_inv_def)

definition sample_ref :: "nat \<Rightarrow> u64 \<Rightarrow> u16 \<Rightarrow> frame_ref" where
  "sample_ref a ts ping = \<lparr>fr_addr = a, fr_frame =
     \<lparr>f_TimestampUS = ts, f_PingCounter = ping, f_Points = [], f_NumPoints = 1\<rparr>\<rparr>"

lemma SubmitFrame_bounded_witness:
  "\<exists>r'. SubmitFrame no_hooks (Some (sample_ref 1 5 7)) (empty_reorg 2) = Some (Inr r') \<and> reorg_inv r'
     \<and> \<not> rz_mu r' \<and> int (length (rz_cache r')) \<le> 2"
  using SubmitFrame_bounded [of "empty_reorg 2" no_hooks "Some (sample_ref 1 5 7)"] empty_reorg_inv [of 2]
  by (simp add: empty_reorg_def)

section \<open>Refinement to the latest frames\<close>

text \<open>
  With ping counters and addresses that differ, the reorganizer stands for a list of frames in
  order of arrival.
\<close>

definition by_ping :: "frame_ref list \<Rightarrow> (u16 \<times> frame_ref) list" where
  "by_ping fs = map (\<lambda>f. (ref_ping f, f)) fs"

definition distinct_frames :: "frame_ref list \<Rightarrow> bool" where
  "distinct_frames fs \<longleftrightarrow> distinct (map ref_ping fs) \<and> distinct (map fr_addr fs)
     \<and> (\<forall>f \<in> set fs. f_NumPoints (fr_frame f) \<noteq> 0)"

definition reorg_holds :: "'r reorganizer \<Rightarrow> frame_ref list \<Rightarrow> bool" where
  "reorg_holds r fs \<longleftrightarrow>
     reorg_inv r \<and> distinct_frames fs \<and> rz_frameOrder r = map ref_ping fs
   \<and> mset (rz_cache r) = mset (by_ping fs) \<and> mset (rz_frameHeap r) = mset fs"

definition lastn :: "nat \<Rightarrow> 'a list \<Rightarrow> 'a list" where
  "lastn n xs = drop (length xs - n) xs"

lemma holds_length: "reorg_holds r fs \<Longrightarrow> length (rz_cache r) = length fs"
  by (metis reorg_holds_def by_ping_def length_map mset_eq_length)

lemma holds_lookup:
  assumes "reorg_holds r fs" and "f \<in> set fs"
  shows "map_of (rz_cache r) (ref_ping f) = Some f"
proof -
  have "set (rz_cache r) = set (by_ping fs)"
    using assms(1) unfolding reorg_holds_def by (metis set_mset_mset)
  then have "(ref_ping f, f) \<in> set (rz_cache r)"
    using assms(2) by (auto simp: by_ping_def)
  moreover have "distinct (map fst (rz_cache r))"
    using assms(1) by (simp add: reorg_holds_def reorg_inv_def)
  ultimately show ?thesis by (simp add: map_of_is_SomeI)
qed

lemma evict_holds:
  assumes holds: "reorg_holds r (f # fs)"
  shows "\<exists>r'. evictOldestLocked r = Inr r' \<and> reorg_holds r' fs
           \<and> rz_maxCacheFrames r' = rz_maxCacheFrames r \<and> rz_mu r' = rz_mu r"
proof -
  have inv: "reorg_inv r" and order: "rz_frameOrder r = ref_ping f # map ref_ping fs"
    and heap: "mset (rz_frameHeap r) = mset (f # fs)" and dist: "distinct_frames (f # fs)"
    and cache: "mset (rz_cache r) = mset (by_ping (f # fs))"
    using holds by (simp_all add: reorg_holds_def)
  have set_heap: "set (rz_frameHeap r) = set (f # fs)"
    using heap by (metis set_mset_mset)
  have lookup: "map_of (rz_cache r) (ref_ping f) = Some f"
    using holds_lookup [OF holds] by simp
  obtain i where i: "find_ref (fr_addr f) (rz_frameHeap r) = Some i"
    using find_ref_None [of "fr_addr f" "rz_frameHeap r"] set_heap by auto
  have "rz_frameHeap r ! i \<in> set (f # fs)" "fr_addr (rz_frameHeap r ! i) = fr_addr f"
    using find_ref_bound [OF i] set_heap by (auto intro: nth_mem)
  moreover have "fr_addr g \<noteq> fr_addr f" if "g \<in> set fs" for g
    using imageI [OF that, of fr_addr] dist by (auto simp: distinct_frames_def)
  ultimately have at_i: "rz_frameHeap r ! i = f" by auto
  obtain r' where r': "evictOldestLocked r = Inr r'" "reorg_inv r'" "rz_frameOrder r' = map ref_ping fs"
    "rz_cache r' = AList.delete (ref_ping f) (rz_cache r)" "rz_maxCacheFrames r' = rz_maxCacheFrames r"
    "rz_mu r' = rz_mu r" "mset (rz_frameHeap r) = add_mset f (mset (rz_frameHeap r'))"
    using evict_ok [OF inv order] lookup i at_i by auto
  have "mset (rz_cache r') = filter_mset (\<lambda>(k, v). ref_ping f \<noteq> k) (mset (by_ping (f # fs)))"
    by (simp only: r'(4) AList.delete_eq mset_filter cache)
  also have "\<dots> = mset (filter (\<lambda>(k, v). ref_ping f \<noteq> k) (by_ping (f # fs)))"
    by (simp only: mset_filter)
  also have "filter (\<lambda>(k, v). ref_ping f \<noteq> k) (by_ping (f # fs)) = by_ping fs"
    using dist by (auto simp: by_ping_def distinct_frames_def filter_map comp_def intro!: map_cong filter_True)
  finally have "mset (rz_cache r') = mset (by_ping fs)" .
  moreover have "distinct_frames fs"
    using dist by (simp add: distinct_frames_def)
  ultimately show ?thesis
    using r' heap by (simp add: reorg_holds_def)
qed

lemma evict_loop_holds:
  assumes "reorg_holds r fs"
  shows "\<exists>r'. evict_loop r = Some (Inr r') \<and> reorg_holds r' (lastn (nat (rz_maxCacheFrames r)) fs)
           \<and> rz_maxCacheFrames r' = rz_maxCacheFrames r \<and> rz_mu r' = rz_mu r"
  using assms
proof (induction fs arbitrary: r)
  case Nil
  then have "0 \<le> rz_maxCacheFrames r" by (simp add: reorg_holds_def reorg_inv_def)
  with Nil holds_length [OF Nil] show ?case
    by (simp add: evict_loop.simps lastn_def)
next
  case (Cons f fs)
  have max: "0 \<le> rz_maxCacheFrames r"
    using Cons.prems by (simp add: reorg_holds_def reorg_inv_def)
  note len = holds_length [OF Cons.prems]
  show ?case
  proof (cases "int (length (rz_cache r)) > rz_maxCacheFrames r")
    case False
    then have "lastn (nat (rz_maxCacheFrames r)) (f # fs) = f # fs"
      using len max by (simp add: lastn_def)
    with False Cons.prems show ?thesis by (simp add: evict_loop.simps)
  next
    case True
    obtain r1 where r1: "evictOldestLocked r = Inr r1" "reorg_holds r1 fs"
      "rz_maxCacheFrames r1 = rz_maxCacheFrames r" "rz_mu r1 = rz_mu r"
      using evict_holds [OF Cons.prems] by blast
    have "nat (rz_maxCacheFrames r) \<le> length fs"
      using True len max by simp
    then have "lastn (nat (rz_maxCacheFrames r)) (f # fs) = lastn (nat (rz_maxCacheFrames r)) fs"
      by (simp add: lastn_def Suc_diff_le)
    with True r1 Cons.IH [OF r1(2)] show ?thesis
      by (simp add: evict_loop.simps [of r])
  qed
qed

lemma update_new: "k \<notin> fst ` set c \<Longrightarrow> AList.update k v c = c @ [(k, v)]"
  by (induction c) auto

lemma reorg_holds_cong:
  assumes "rz_frameHeap r' = rz_frameHeap r" "rz_cache r' = rz_cache r"
    "rz_frameOrder r' = rz_frameOrder r" "rz_maxCacheFrames r' = rz_maxCacheFrames r"
  shows "reorg_holds r' fs = reorg_holds r fs"
  by (simp only: reorg_holds_def reorg_inv_def assms)

lemma SubmitFrame_holds:
  assumes holds: "reorg_holds r fs" and "\<not> rz_mu r" and dist: "distinct_frames (fs @ [g])"
  shows "\<exists>r'. SubmitFrame hooks (Some g) r = Some (Inr r') \<and> \<not> rz_mu r'
           \<and> reorg_holds r' (lastn (nat (rz_maxCacheFrames r)) (fs @ [g]))
           \<and> rz_maxCacheFrames r' = rz_maxCacheFrames r"
proof -
  let ?r = "r\<lparr>rz_mu := True, rz_cache := AList.update (ref_ping g) g (rz_cache r),
      rz_frameHeap := heap_Push ref_ts (rz_frameHeap r) g, rz_frameOrder := rz_frameOrder r @ [ref_ping g]\<rparr>"
  have inv: "reorg_inv r" using holds by (simp add: reorg_holds_def)
  have "fst ` set (rz_cache r) = ref_ping ` set fs"
  proof -
    have "set (rz_cache r) = set (by_ping fs)"
      using holds unfolding reorg_holds_def by (metis set_mset_mset)
    then show ?thesis by (auto simp: by_ping_def image_iff)
  qed
  then have new: "AList.update (ref_ping g) g (rz_cache r) = rz_cache r @ [(ref_ping g, g)]"
    using dist by (intro update_new) (auto simp: distinct_frames_def)
  have "reorg_inv ?r"
    using inv heap_Push_ok [of ref_ts "rz_frameHeap r" g] update_keys [of "rz_cache r" "ref_ping g" g]
    by (auto simp: reorg_inv_def)
  then have "reorg_holds ?r (fs @ [g])"
    using holds dist new heap_Push_ok [of ref_ts "rz_frameHeap r" g] inv
    by (simp add: reorg_holds_def by_ping_def reorg_inv_def)
  from evict_loop_holds [OF this] obtain r3 where r3: "evict_loop ?r = Some (Inr r3)"
    "reorg_holds r3 (lastn (nat (rz_maxCacheFrames r)) (fs @ [g]))" "rz_maxCacheFrames r3 = rz_maxCacheFrames r"
    by auto
  obtain r4 where r4: "count_fill hooks r3 = Inr r4" "rz_frameHeap r4 = rz_frameHeap r3"
    "rz_cache r4 = rz_cache r3" "rz_frameOrder r4 = rz_frameOrder r3"
    "rz_maxCacheFrames r4 = rz_maxCacheFrames r3"
    using count_fill_ok [of r3 hooks] r3(2) by (auto simp: reorg_holds_def reorg_inv_def)
  have "f_NumPoints (fr_frame g) \<noteq> 0" using dist by (simp add: distinct_frames_def)
  then have "SubmitFrame hooks (Some g) r = Some (Inr (rz_unlock r4))"
    using assms(2) r3(1) r4(1) by (simp add: SubmitFrame_def rz_lock_def)
  moreover have "reorg_holds (rz_unlock r4) fs' = reorg_holds r3 fs'" for fs'
    by (rule reorg_holds_cong) (simp_all add: rz_unlock_def r4)
  ultimately show ?thesis
    using r3 r4 by (simp add: rz_unlock_def)
qed

lemma GetOrderedFrames_sorted:
  assumes "reorg_inv r" and "\<not> rz_mu r"
  shows "\<exists>xs. GetOrderedFrames r = Inr xs \<and> mset xs = mset (rz_frameHeap r) \<and> sorted (map ref_ts xs)"
  using heap_drain_sorted [of ref_ts "rz_frameHeap r"] assms
  by (simp add: GetOrderedFrames_def rz_lock_def reorg_inv_def)

fun submit_all ::
    "('w, 'r) reorg_hooks \<Rightarrow> frame_ref list \<Rightarrow> 'r reorganizer \<Rightarrow> 'r reorganizer go option" where
  "submit_all hooks [] r = Some (Inr r)"
| "submit_all hooks (g # gs) r =
     (case SubmitFrame hooks (Some g) r of
        None \<Rightarrow> None
      | Some (Inl s) \<Rightarrow> Some (Inl s)
      | Some (Inr r') \<Rightarrow> submit_all hooks gs r')"

lemma lastn_lastn_append: "lastn n (lastn n xs @ ys) = lastn n (xs @ ys)"
  by (cases "n \<le> length xs") (simp_all add: lastn_def add.commute)

lemma distinct_frames_drop: "distinct_frames (xs @ ys) \<Longrightarrow> distinct_frames (drop k xs @ ys)"
proof -
  have "distinct_frames (as @ bs) \<Longrightarrow> distinct_frames bs" for as bs
    by (simp add: distinct_frames_def)
  from this [of "take k xs" "drop k xs @ ys"]
  show "distinct_frames (xs @ ys) \<Longrightarrow> distinct_frames (drop k xs @ ys)"
    by (simp add: append_assoc [symmetric] del: append_assoc)
qed

lemma submit_all_holds:
  assumes "reorg_holds r fs" and "\<not> rz_mu r" and "distinct_frames (fs @ gs)"
    and "lastn (nat (rz_maxCacheFrames r)) fs = fs"
  shows "\<exists>r'. submit_all hooks gs r = Some (Inr r') \<and> \<not> rz_mu r'
           \<and> reorg_holds r' (lastn (nat (rz_maxCacheFrames r)) (fs @ gs))"
  using assms
proof (induction gs arbitrary: r fs)
  case Nil
  then show ?case by simp
next
  case (Cons g gs)
  let ?n = "nat (rz_maxCacheFrames r)"
  have "distinct_frames (fs @ [g])"
    using Cons.prems(3) by (auto simp: distinct_frames_def)
  from SubmitFrame_holds [OF Cons.prems(1,2) this] obtain r1 where
    r1: "SubmitFrame hooks (Some g) r = Some (Inr r1)" "\<not> rz_mu r1"
      "reorg_holds r1 (lastn ?n (fs @ [g]))" "rz_maxCacheFrames r1 = rz_maxCacheFrames r"
    by auto
  have "distinct_frames (lastn ?n (fs @ [g]) @ gs)"
    using Cons.prems(3) unfolding lastn_def by (intro distinct_frames_drop) simp
  from Cons.IH [OF r1(3,2) this] r1(1,4) show ?case
    using lastn_lastn_append [of ?n "fs @ [g]" "[]"] lastn_lastn_append [of ?n "fs @ [g]" gs]
    by simp
qed

lemma empty_reorg_holds: "0 \<le> n \<Longrightarrow> reorg_holds (empty_reorg n) []"
  using empty_reorg_inv [of n] by (simp add: reorg_holds_def distinct_frames_def by_ping_def)
    (simp add: empty_reorg_def)

lemma submit_all_empty:
  assumes "0 \<le> n" and "distinct_frames gs"
  shows "\<exists>r'. submit_all hooks gs (empty_reorg n) = Some (Inr r') \<and> \<not> rz_mu r' \<and> reorg_holds r' (lastn (nat n) gs)"
  using submit_all_holds [OF empty_reorg_holds [OF assms(1)], of gs hooks] assms(2)
  by (simp add: empty_reorg_def lastn_def)

lemma reorg_holds_reads:
  assumes "reorg_holds r fs" and "\<not> rz_mu r"
  shows "\<exists>xs. GetOrderedFrames r = Inr xs \<and> mset xs = mset fs \<and> sorted (map ref_ts xs)
           \<and> Size r = Inr (length fs) \<and> (\<forall>f \<in> set fs. GetFrame (ref_ping f) r = Inr (Some f))"
proof -
  have inv: "reorg_inv r" and heap: "mset (rz_frameHeap r) = mset fs"
    using assms(1) by (simp_all add: reorg_holds_def)
  obtain xs where "GetOrderedFrames r = Inr xs" "mset xs = mset (rz_frameHeap r)" "sorted (map ref_ts xs)"
    using GetOrderedFrames_sorted [OF inv assms(2)] by blast
  then show ?thesis
    using assms(2) heap holds_length [OF assms(1)] holds_lookup [OF assms(1)]
    by (auto simp: Size_def GetFrame_def rz_lock_def)
qed

text \<open>C19. After any frames with different ping counters, the frames handed out in order are the
  latest ones, as many as the cache holds, sorted by timestamp although they came in any order;
  \<open>GetFrame\<close> finds each of them and \<open>Size\<close> counts them.\<close>

theorem ordered_frames_are_latest:
  assumes "0 \<le> n" and "distinct_frames gs"
  shows "\<exists>r xs. submit_all hooks gs (empty_reorg n) = Some (Inr r)
           \<and> GetOrderedFrames r = Inr xs \<and> mset xs = mset (lastn (nat n) gs) \<and> sorted (map ref_ts xs)
           \<and> Size r = Inr (length (lastn (nat n) gs))
           \<and> (\<forall>f \<in> set (lastn (nat n) gs). GetFrame (ref_ping f) r = Inr (Some f))"
  using submit_all_empty [OF assms, of hooks] reorg_holds_reads by blast

lemma ordered_frames_are_latest_witness:
  "\<exists>r xs. submit_all no_hooks [sample_ref 1 5 7, sample_ref 2 9 8, sample_ref 3 6 9] (empty_reorg 2) = Some (Inr r)
     \<and> GetOrderedFrames r = Inr xs \<and> mset xs = mset [sample_ref 2 9 8, sample_ref 3 6 9]
     \<and> sorted (map ref_ts xs) \<and> Size r = Inr 2
     \<and> (\<forall>f \<in> set [sample_ref 2 9 8, sample_ref 3 6 9]. GetFrame (ref_ping f) r = Inr (Some f))"
  using ordered_frames_are_latest [of 2 "[sample_ref 1 5 7, sample_ref 2 9 8, sample_ref 3 6 9]" no_hooks]
  by (simp add: distinct_frames_def sample_ref_def ref_ping_def lastn_def numeral_2_eq_2)

section \<open>Repeated ping counters\<close>

lemma SubmitFrame_same_counter:
  assumes "reorg_inv r" and "\<not> rz_mu r" and "1 \<le> rz_maxCacheFrames r"
    and "rz_cache r = [] \<or> (\<exists>f. rz_cache r = [(ref_ping g, f)])" and "f_NumPoints (fr_frame g) \<noteq> 0"
  shows "\<exists>r'. SubmitFrame hooks (Some g) r = Some (Inr r') \<and> reorg_inv r' \<and> \<not> rz_mu r'
           \<and> rz_maxCacheFrames r' = rz_maxCacheFrames r \<and> rz_cache r' = [(ref_ping g, g)]
           \<and> length (rz_frameHeap r') = Suc (length (rz_frameHeap r))"
proof -
  let ?r = "r\<lparr>rz_mu := True, rz_cache := AList.update (ref_ping g) g (rz_cache r),
      rz_frameHeap := heap_Push ref_ts (rz_frameHeap r) g, rz_frameOrder := rz_frameOrder r @ [ref_ping g]\<rparr>"
  have cache: "AList.update (ref_ping g) g (rz_cache r) = [(ref_ping g, g)]"
    using assms(4) by auto
  have push: "mset (heap_Push ref_ts (rz_frameHeap r) g) = add_mset g (mset (rz_frameHeap r))"
    "heap_ord ref_ts (heap_Push ref_ts (rz_frameHeap r) g) (length (heap_Push ref_ts (rz_frameHeap r) g))"
    using heap_Push_ok [of ref_ts "rz_frameHeap r" g] assms(1) by (simp_all add: reorg_inv_def)
  have inv: "reorg_inv ?r"
    using assms(1) cache push(2) by (auto simp: reorg_inv_def)
  have "evict_loop ?r = Some (Inr ?r)"
    using assms(3) cache by (simp add: evict_loop.simps)
  moreover obtain r4 where r4: "count_fill hooks ?r = Inr r4" "rz_frameHeap r4 = rz_frameHeap ?r"
    "rz_cache r4 = rz_cache ?r" "rz_frameOrder r4 = rz_frameOrder ?r"
    "rz_maxCacheFrames r4 = rz_maxCacheFrames ?r"
    using count_fill_ok [of ?r hooks] inv by (auto simp: reorg_inv_def)
  ultimately have "SubmitFrame hooks (Some g) r = Some (Inr (rz_unlock r4))"
    using assms(2,5) by (simp add: SubmitFrame_def rz_lock_def)
  moreover have "length (heap_Push ref_ts (rz_frameHeap r) g) = Suc (length (rz_frameHeap r))"
    using arg_cong [OF push(1), of size] by simp
  ultimately show ?thesis
    using inv r4 cache by (simp add: rz_unlock_def reorg_inv_def)
qed

text \<open>C38. Frames that repeat one ping counter replace each other in the cache but not in the heap:
  after any number of them \<open>Size\<close> is at most 1 while \<open>GetOrderedFrames\<close> returns them all, so the
  heap grows without bound although the cache is within its limit.\<close>

theorem repeated_counter_grows_heap:
  assumes "1 \<le> n" and "\<forall>g \<in> set gs. ref_ping g = c \<and> f_NumPoints (fr_frame g) \<noteq> 0"
  shows "\<exists>r xs. submit_all hooks gs (empty_reorg n) = Some (Inr r) \<and> Size r = Inr (min 1 (length gs))
           \<and> GetOrderedFrames r = Inr xs \<and> length xs = length gs"
proof -
  have step: "\<exists>r'. submit_all hooks gs r = Some (Inr r') \<and> reorg_inv r' \<and> \<not> rz_mu r'
      \<and> length (rz_cache r') = (if gs = [] then length (rz_cache r) else 1)
      \<and> length (rz_frameHeap r') = length (rz_frameHeap r) + length gs"
    if "reorg_inv r" "\<not> rz_mu r" "1 \<le> rz_maxCacheFrames r" "rz_cache r = [] \<or> (\<exists>f. rz_cache r = [(c, f)])"
    for r
    using that assms(2)
  proof (induction gs arbitrary: r)
    case Nil
    then show ?case by simp
  next
    case (Cons g gs)
    have g: "ref_ping g = c" "f_NumPoints (fr_frame g) \<noteq> 0" using Cons.prems(5) by simp_all
    obtain r1 where r1: "SubmitFrame hooks (Some g) r = Some (Inr r1)" "reorg_inv r1" "\<not> rz_mu r1"
      "rz_maxCacheFrames r1 = rz_maxCacheFrames r" "rz_cache r1 = [(c, g)]"
      "length (rz_frameHeap r1) = Suc (length (rz_frameHeap r))"
      using SubmitFrame_same_counter [OF Cons.prems(1-3), of g hooks] Cons.prems(4) g by auto
    have "\<exists>r'. submit_all hooks gs r1 = Some (Inr r') \<and> reorg_inv r' \<and> \<not> rz_mu r'
      \<and> length (rz_cache r') = (if gs = [] then length (rz_cache r1) else 1)
      \<and> length (rz_frameHeap r') = length (rz_frameHeap r1) + length gs"
      using Cons.prems(3,5) r1 by (intro Cons.IH) auto
    with r1 show ?case by (auto split: if_splits)
  qed
  obtain r where r: "submit_all hooks gs (empty_reorg n) = Some (Inr r)" "reorg_inv r" "\<not> rz_mu r"
    "length (rz_cache r) = (if gs = [] then 0 else 1)" "length (rz_frameHeap r) = length gs"
    using step [of "empty_reorg n"] assms(1) empty_reorg_inv [of n] by (cases "gs = []") (auto simp: empty_reorg_def)
  obtain xs where "GetOrderedFrames r = Inr xs" "mset xs = mset (rz_frameHeap r)"
    using GetOrderedFrames_sorted [OF r(2,3)] by blast
  then have "GetOrderedFrames r = Inr xs \<and> length xs = length gs"
    using r(5) by (metis mset_eq_length)
  moreover have "Size r = Inr (min 1 (length gs))"
    using r(3,4) by (cases gs) (simp_all add: Size_def rz_lock_def)
  ultimately show ?thesis using r(1) by blast
qed

lemma repeated_counter_grows_heap_witness:
  "\<exists>r xs. submit_all no_hooks [sample_ref 1 5 7, sample_ref 2 9 7, sample_ref 3 6 7] (empty_reorg 1) = Some (Inr r)
     \<and> Size r = Inr 1 \<and> GetOrderedFrames r = Inr xs \<and> length xs = 3"
  using repeated_counter_grows_heap [of 1 "[sample_ref 1 5 7, sample_ref 2 9 7, sample_ref 3 6 7]" 7 no_hooks]
  by (simp add: sample_ref_def ref_ping_def numeral_3_eq_3)

section \<open>Flushing\<close>

text \<open>The frame of filled points that a flush puts behind the others, when the filler returned any.\<close>

definition extra_frames :: "frame_ref list \<Rightarrow> (Point3D list \<times> 'r list) option \<Rightarrow> PointCloudFrame list" where
  "extra_frames frames res =
     (case res of None \<Rightarrow> [] | Some (filled, _) \<Rightarrow> if filled = [] then [] else [filled_frame frames filled])"

text \<open>When a flush of so many frames calls the filler.\<close>

definition flush_fills :: "('w, 'r) reorg_hooks \<Rightarrow> 'r reorganizer \<Rightarrow> nat \<Rightarrow> bool" where
  "flush_fills hooks r n \<longleftrightarrow> onVoidFill hooks \<noteq> None \<and> rz_autoFillEnabled r \<and> 2 \<le> n"

lemma flush_fill_frames:
  assumes "\<not> rz_fillMu r"
    and "\<And>f ps v. onVoidFill hooks = Some f \<Longrightarrow> rz_autoFillEnabled r \<Longrightarrow> \<exists>res. f ps v = Inr res"
  shows "\<exists>extra r' w'. flush_fill hooks frames r w = Inr (map fr_frame frames @ extra, r', w')
           \<and> (if flush_fills hooks r (length frames)
              then \<exists>f res. onVoidFill hooks = Some f \<and> f (map fr_frame frames) w = Inr (res, w') \<and> extra = extra_frames frames res
              else extra = [] \<and> w' = w)
           \<and> rz_cache r' = rz_cache r \<and> rz_frameHeap r' = rz_frameHeap r \<and> rz_frameOrder r' = rz_frameOrder r"
proof (cases "flush_fills hooks r (length frames)")
  case False
  then have "flush_fill hooks frames r w = Inr (map fr_frame frames, r, w)"
    by (auto simp: flush_fill_def flush_fills_def split: option.splits)
  with False show ?thesis by simp
next
  case True
  then obtain f where f: "onVoidFill hooks = Some f" "rz_autoFillEnabled r" "\<not> length frames < 2"
    by (auto simp: flush_fills_def)
  obtain res w1 where res: "f (map fr_frame frames) w = Inr (res, w1)"
    using assms(2) [OF f(1,2), of "map fr_frame frames" w] by auto
  show ?thesis
  proof (cases "extra_frames frames res")
    case Nil
    with True f res show ?thesis
      by (auto simp: flush_fill_def extra_frames_def split: option.splits if_splits)
  next
    case (Cons e es)
    then obtain pts rs where fr: "res = Some (pts, rs)" "pts \<noteq> []"
      by (auto simp: extra_frames_def split: option.splits if_splits)
    with True f res assms(1) show ?thesis
      by (simp add: flush_fill_def store_fill_def extra_frames_def)
  qed
qed

lemma sorted_le_last: "sorted (map k xs) \<Longrightarrow> x \<in> set xs \<Longrightarrow> k x \<le> k (last xs)"
  by (induction xs) auto

text \<open>Without filling, the drained heap is what the ready handler gets.\<close>

lemma Flush_ready:
  assumes "reorg_inv r" and "\<not> rz_mu r" and "\<not> rz_autoFillEnabled r" and "onReadyFrames hooks = Some ready"
    and "\<And>xs. mset xs = mset (rz_frameHeap r) \<Longrightarrow> sorted (map ref_ts xs) \<Longrightarrow> xs \<noteq> [] \<Longrightarrow>
           \<exists>w'. ready (map fr_frame xs) w = Inr w' \<and> P xs w'" and "P [] w"
  shows "\<exists>xs r' w'. Flush hooks r w = Inr (map fr_frame xs, r', w') \<and> GetOrderedFrames r = Inr xs
           \<and> mset xs = mset (rz_frameHeap r) \<and> sorted (map ref_ts xs) \<and> P xs w'
           \<and> rz_cache r' = [] \<and> rz_frameHeap r' = [] \<and> \<not> rz_mu r'"
proof -
  obtain xs where xs: "heap_drain ref_ts (rz_frameHeap r) = Inr xs" "mset xs = mset (rz_frameHeap r)"
    "sorted (map ref_ts xs)"
    using heap_drain_sorted [of ref_ts "rz_frameHeap r"] assms(1) by (auto simp: reorg_inv_def)
  have get: "GetOrderedFrames r = Inr xs"
    using xs(1) assms(2) by (simp add: GetOrderedFrames_def rz_lock_def)
  have fill: "flush_fill hooks xs r1 w = Inr (map fr_frame xs, r1, w)" if "\<not> rz_autoFillEnabled r1" for r1 :: "'a reorganizer"
    using that by (simp add: flush_fill_def split: option.split)
  show ?thesis
  proof (cases "xs = []")
    case True
    with xs get fill assms(2-4,6) show ?thesis
      by (simp add: Flush_def rz_lock_def rz_unlock_def heap_Init_def)
  next
    case False
    then obtain w' where "ready (map fr_frame xs) w = Inr w'" "P xs w'"
      using assms(5) xs(2,3) by blast
    with False xs get fill assms(2-4) show ?thesis
      by (simp add: Flush_def rz_lock_def rz_unlock_def heap_Init_def)
  qed
qed

text \<open>When the filling blocks, so does the flush.\<close>

lemma Flush_fill_blocks:
  assumes "reorg_inv r" and "\<not> rz_mu r" and "rz_autoFillEnabled r" and "onVoidFill hooks = Some f"
    and "2 \<le> length (rz_frameHeap r)"
    and "\<And>xs. mset xs = mset (rz_frameHeap r) \<Longrightarrow> f (map fr_frame xs) w = Inl Deadlock"
  shows "Flush hooks r w = Inl Deadlock"
proof -
  obtain xs where xs: "heap_drain ref_ts (rz_frameHeap r) = Inr xs" "mset xs = mset (rz_frameHeap r)"
    using heap_drain_sorted [of ref_ts "rz_frameHeap r"] assms(1) by (auto simp: reorg_inv_def)
  moreover have "\<not> length xs < 2"
    using assms(5) mset_eq_length [OF xs(2)] by simp
  ultimately show ?thesis
    using assms(2-4,6) by (simp add: Flush_def rz_lock_def flush_fill_def)
qed

text \<open>C21. Under the assumption that the filler, where it is enabled, and the ready handler return,
  \<open>Flush\<close> returns and hands out every frame of the heap once, sorted by timestamp: the filler is
  called once, on exactly these frames and only when there are two of them; its points, if any,
  follow in one frame with the last timestamp; the ready handler is called once, with exactly the
  frames handed out and after the filler; and cache, heap and order of arrival are left empty and
  the mutex released. (The gateway's own filler does not return: \<open>stop_after_traffic_deadlocks\<close>.)\<close>

theorem Flush_hands_out_all:
  assumes "reorg_inv r" and "\<not> rz_mu r" and "\<not> rz_fillMu r"
    and "\<forall>f ps v. onVoidFill hooks = Some f \<and> rz_autoFillEnabled r \<longrightarrow> (\<exists>res. f ps v = Inr res)"
    and "\<forall>h fs v. onReadyFrames hooks = Some h \<longrightarrow> (\<exists>v'. h fs v = Inr v')"
  shows "\<exists>xs extra r' w1 w'. Flush hooks r w = Inr (map fr_frame xs @ extra, r', w')
           \<and> mset xs = mset (rz_frameHeap r) \<and> sorted (map f_TimestampUS (map fr_frame xs @ extra))
           \<and> (if flush_fills hooks r (length xs)
              then \<exists>f res. onVoidFill hooks = Some f \<and> f (map fr_frame xs) w = Inr (res, w1) \<and> extra = extra_frames xs res
              else extra = [] \<and> w1 = w)
           \<and> (case onReadyFrames hooks of None \<Rightarrow> w' = w1
              | Some h \<Rightarrow> if xs = [] then w' = w1 else h (map fr_frame xs @ extra) w1 = Inr w')
           \<and> rz_cache r' = [] \<and> rz_frameHeap r' = [] \<and> rz_frameOrder r' = [] \<and> \<not> rz_mu r'"
proof -
  let ?r2 = "r\<lparr>rz_mu := True, rz_cache := [], rz_frameHeap := [], rz_frameOrder := []\<rparr>"
  obtain xs where xs: "heap_drain ref_ts (rz_frameHeap r) = Inr xs" "mset xs = mset (rz_frameHeap r)"
    "sorted (map ref_ts xs)"
    using heap_drain_sorted [of ref_ts "rz_frameHeap r"] assms(1) by (auto simp: reorg_inv_def)
  obtain extra r3 w1 where fill: "flush_fill hooks xs ?r2 w = Inr (map fr_frame xs @ extra, r3, w1)"
    "if flush_fills hooks r (length xs)
     then \<exists>f res. onVoidFill hooks = Some f \<and> f (map fr_frame xs) w = Inr (res, w1) \<and> extra = extra_frames xs res
     else extra = [] \<and> w1 = w"
    "rz_cache r3 = []" "rz_frameHeap r3 = []" "rz_frameOrder r3 = []"
    using flush_fill_frames [of ?r2 hooks xs w] assms(3,4) by (auto simp: flush_fills_def)
  have extra: "extra = [] \<or> xs \<noteq> [] \<and> (\<exists>pts. extra = [filled_frame xs pts])"
    using fill(2) by (auto simp: extra_frames_def flush_fills_def split: option.splits if_splits)
  have ts: "map f_TimestampUS (map fr_frame xs) = map ref_ts xs"
    by (simp add: ref_ts_def)
  have "f_TimestampUS (fr_frame x) \<le> ref_ts (last xs)" if "x \<in> set xs" for x
    using sorted_le_last [OF xs(3) that] by (simp add: ref_ts_def)
  then have sorted: "sorted (map f_TimestampUS (map fr_frame xs @ extra))"
    using xs(3) extra unfolding map_append ts by (auto simp: sorted_append filled_frame_def ref_ts_def)
  have empty: "map fr_frame xs @ extra = [] \<longleftrightarrow> xs = []"
    using extra by auto
  obtain w' where "Flush hooks r w = Inr (map fr_frame xs @ extra, rz_unlock r3, w')"
    "case onReadyFrames hooks of None \<Rightarrow> w' = w1
     | Some h \<Rightarrow> if xs = [] then w' = w1 else h (map fr_frame xs @ extra) w1 = Inr w'"
  proof (cases "onReadyFrames hooks")
    case None
    then show ?thesis
      using assms(2) xs(1) fill(1) by (intro that [of w1]) (simp_all add: Flush_def rz_lock_def heap_Init_def)
  next
    case (Some h)
    then obtain w2 where h: "h (map fr_frame xs @ extra) w1 = Inr w2"
      using assms(5) by blast
    show ?thesis
      using Some h empty assms(2) xs(1) fill(1)
      by (intro that [of "if xs = [] then w1 else w2"]) (auto simp: Flush_def rz_lock_def heap_Init_def)
  qed
  with xs(2) sorted fill(2-5) show ?thesis
    by (intro exI [of _ xs] exI [of _ extra] exI [of _ "rz_unlock r3"] exI [of _ w1] exI [of _ w'])
      (simp add: rz_unlock_def)
qed

text \<open>Two frames out of order, a filler that returns one point and a ready handler that keeps what it gets.\<close>

definition two_frames :: "unit reorganizer" where
  "two_frames = (empty_reorg 3)\<lparr>rz_frameHeap := [sample_ref 2 5 8, sample_ref 1 9 7],
     rz_cache := [(7, sample_ref 1 9 7), (8, sample_ref 2 5 8)], rz_frameOrder := [7, 8],
     rz_autoFillEnabled := True\<rparr>"

definition lone_point :: Point3D where
  "lone_point = \<lparr>q_Latitude = 0, q_Longitude = 0, q_Depth = 5, q_X = 0, q_Y = 0, q_Z = 0, q_Intensity = 128,
     q_TimestampUS = 0, q_PingIndex = 0, q_BeamIndex = 0\<rparr>"

definition keep_hooks :: "(PointCloudFrame list list, unit) reorg_hooks" where
  "keep_hooks = \<lparr>onVoidFill = Some (\<lambda>fs w. Inr (Some ([lone_point], []), fs # w)),
     onReadyFrames = Some (\<lambda>fs w. Inr (fs # w))\<rparr>"

lemma Flush_hands_out_all_witness:
  "\<exists>xs r'. Flush keep_hooks two_frames [] = Inr (map fr_frame xs @ [filled_frame xs [lone_point]], r',
         [map fr_frame xs @ [filled_frame xs [lone_point]], map fr_frame xs])
     \<and> mset xs = mset (rz_frameHeap two_frames) \<and> sorted (map f_TimestampUS (map fr_frame xs))
     \<and> rz_cache r' = [] \<and> rz_frameHeap r' = [] \<and> rz_frameOrder r' = [] \<and> \<not> rz_mu r'"
proof -
  have inv: "reorg_inv two_frames" "\<not> rz_mu two_frames" "\<not> rz_fillMu two_frames" "rz_autoFillEnabled two_frames"
    by (auto simp: two_frames_def empty_reorg_def reorg_inv_def heap_ord_def edge_def sample_ref_def ref_ts_def less_Suc_eq)
  have hooks: "\<forall>f ps v. onVoidFill keep_hooks = Some f \<and> rz_autoFillEnabled two_frames \<longrightarrow> (\<exists>res. f ps v = Inr res)"
    "\<forall>h fs v. onReadyFrames keep_hooks = Some h \<longrightarrow> (\<exists>v'. h fs v = Inr v')"
    by (auto simp: keep_hooks_def)
  obtain xs extra r' w1 w' where flush: "Flush keep_hooks two_frames [] = Inr (map fr_frame xs @ extra, r', w')"
    "mset xs = mset (rz_frameHeap two_frames)" "sorted (map f_TimestampUS (map fr_frame xs @ extra))"
    "if flush_fills keep_hooks two_frames (length xs)
     then \<exists>f res. onVoidFill keep_hooks = Some f \<and> f (map fr_frame xs) [] = Inr (res, w1) \<and> extra = extra_frames xs res
     else extra = [] \<and> w1 = []"
    "case onReadyFrames keep_hooks of None \<Rightarrow> w' = w1
     | Some h \<Rightarrow> if xs = [] then w' = w1 else h (map fr_frame xs @ extra) w1 = Inr w'"
    "rz_cache r' = []" "rz_frameHeap r' = []" "rz_frameOrder r' = []" "\<not> rz_mu r'"
    using Flush_hands_out_all [OF inv(1-3) hooks, of "[]"] by blast
  have "length xs = 2"
    using mset_eq_length [OF flush(2)] by (simp add: two_frames_def)
  then have "xs \<noteq> []" "flush_fills keep_hooks two_frames (length xs)"
    using inv(4) by (auto simp: flush_fills_def keep_hooks_def)
  with flush show ?thesis
    by (intro exI [of _ xs] exI [of _ r']) (auto simp: keep_hooks_def extra_frames_def sorted_append)
qed

section \<open>Voxels\<close>

definition voxel_inv ::
    "real \<Rightarrow> Point3D list \<Rightarrow> ((int \<times> int \<times> int) \<times> Point3D) list \<Rightarrow> bool" where
  "voxel_inv invSize ps m \<longleftrightarrow>
     distinct (map fst m)
   \<and> (\<forall>k q. map_of m k = Some q \<longrightarrow> voxel_key invSize q = k \<and> q \<in> set ps)
   \<and> (\<forall>p \<in> set ps. \<exists>q. map_of m (voxel_key invSize p) = Some q \<and> q_Intensity p \<le> q_Intensity q)"

lemma voxel_add_inv:
  assumes "voxel_inv c ps m"
  shows "voxel_inv c (ps @ [p]) (voxel_add c m p)"
proof -
  let ?k = "voxel_key c p"
  have d: "distinct (map fst m)" and m: "\<And>k q. map_of m k = Some q \<Longrightarrow> voxel_key c q = k \<and> q \<in> set ps"
    and max: "\<And>x. x \<in> set ps \<Longrightarrow> \<exists>q. map_of m (voxel_key c x) = Some q \<and> q_Intensity x \<le> q_Intensity q"
    using assms by (auto simp: voxel_inv_def)
  consider (keep) e where "map_of m ?k = Some e" "q_Intensity p \<le> q_Intensity e" "voxel_add c m p = m"
    | (put) "voxel_add c m p = AList.update ?k p m"
      "\<And>e. map_of m ?k = Some e \<Longrightarrow> q_Intensity e \<le> q_Intensity p"
  proof (cases "map_of m ?k")
    case None
    then show ?thesis by (intro put) (simp_all add: voxel_add_def Let_def)
  next
    case (Some e)
    show ?thesis
    proof (cases "q_Intensity e < q_Intensity p")
      case True
      with Some show ?thesis by (intro put) (simp_all add: voxel_add_def Let_def)
    next
      case False
      with Some show ?thesis by (intro keep [of e]) (simp_all add: voxel_add_def Let_def)
    qed
  qed
  then show ?thesis
  proof cases
    case keep
    with d m max show ?thesis by (auto simp: voxel_inv_def)
  next
    case put
    have up: "map_of (voxel_add c m p) k = (if k = ?k then Some p else map_of m k)" for k
      by (simp add: put(1) AList.update_conv')
    have "\<exists>q. map_of (voxel_add c m p) (voxel_key c x) = Some q \<and> q_Intensity x \<le> q_Intensity q"
      if "x \<in> set (ps @ [p])" for x
      using that max [of x] put(2) by (auto simp: up intro: order_trans)
    moreover have "distinct (map fst (voxel_add c m p))"
      using d by (simp add: put(1) AList.distinct_update)
    moreover have "voxel_key c q = k \<and> q \<in> set (ps @ [p])" if "map_of (voxel_add c m p) k = Some q" for k q
      using that m by (auto simp: up split: if_splits)
    ultimately show ?thesis
      unfolding voxel_inv_def by blast
  qed
qed

lemma voxel_map_inv:
  "voxel_inv (1 / voxelSize) (concat (map f_Points frames)) (voxel_map frames voxelSize)"
proof -
  have "voxel_inv c ps (foldl (voxel_add c) [] ps)" for c ps
    by (induction ps rule: rev_induct) (simp_all add: voxel_add_inv voxel_inv_def [of _ "[]"])
  then show ?thesis by (simp add: voxel_map_def)
qed

text \<open>\<open>SpatialVoxelGrid\<close> returns one point for each occupied voxel, taken from the frames and of
  the greatest intensity in its voxel, sorted by latitude, longitude and depth, for any order of
  map iteration and any sorting function that permutes and sorts.\<close>

theorem voxel_grid_thins:
  assumes "\<And>ps. mset (iterate ps) = mset ps"
    and "\<And>ps. mset (sort_slice point_less ps) = mset ps"
    and "\<And>ps. sorted_wrt (\<lambda>a b. \<not> point_less b a) (sort_slice point_less ps)"
  shows "distinct (map (voxel_key (1 / voxelSize)) (SpatialVoxelGrid iterate sort_slice frames voxelSize))
       \<and> set (SpatialVoxelGrid iterate sort_slice frames voxelSize) \<subseteq> set (concat (map f_Points frames))
       \<and> (\<forall>p \<in> set (concat (map f_Points frames)).
            \<exists>q \<in> set (SpatialVoxelGrid iterate sort_slice frames voxelSize).
              voxel_key (1 / voxelSize) q = voxel_key (1 / voxelSize) p \<and> q_Intensity p \<le> q_Intensity q)
       \<and> sorted_wrt (\<lambda>a b. \<not> point_less b a) (SpatialVoxelGrid iterate sort_slice frames voxelSize)"
proof -
  let ?m = "voxel_map frames voxelSize" and ?c = "1 / voxelSize"
  let ?out = "SpatialVoxelGrid iterate sort_slice frames voxelSize"
  have d: "distinct (map fst ?m)"
    and m: "\<And>k q. map_of ?m k = Some q \<Longrightarrow> voxel_key ?c q = k \<and> q \<in> set (concat (map f_Points frames))"
    and max: "\<And>p. p \<in> set (concat (map f_Points frames)) \<Longrightarrow>
      \<exists>q. map_of ?m (voxel_key ?c p) = Some q \<and> q_Intensity p \<le> q_Intensity q"
    using voxel_map_inv [of voxelSize frames] unfolding voxel_inv_def by blast+
  have entry: "map_of ?m (fst e) = Some (snd e)" if "e \<in> set ?m" for e
    using map_of_is_SomeI [OF d, of "fst e" "snd e"] that by simp
  have out: "mset ?out = mset (map snd ?m)"
    using assms(1,2) by (simp add: SpatialVoxelGrid_def)
  then have set_out: "set ?out = snd ` set ?m"
    by (metis set_map set_mset_mset)
  have "map (voxel_key ?c) (map snd ?m) = map fst ?m"
    using entry m by (auto intro!: map_cong)
  moreover have "mset (map (voxel_key ?c) ?out) = mset (map (voxel_key ?c) (map snd ?m))"
    using out by (metis mset_map)
  ultimately have dist: "distinct (map (voxel_key ?c) ?out)"
    using d mset_eq_imp_distinct_iff by metis
  have sub: "set ?out \<subseteq> set (concat (map f_Points frames))"
  proof
    fix q
    assume "q \<in> set ?out"
    then obtain e where "e \<in> set ?m" "q = snd e"
      unfolding set_out by (rule imageE)
    with m [OF entry [of e]] show "q \<in> set (concat (map f_Points frames))" by simp
  qed
  have best: "\<exists>q \<in> set ?out. voxel_key ?c q = voxel_key ?c p \<and> q_Intensity p \<le> q_Intensity q"
    if "p \<in> set (concat (map f_Points frames))" for p
  proof -
    note p = that
    obtain q where q: "map_of ?m (voxel_key ?c p) = Some q" "q_Intensity p \<le> q_Intensity q"
      using max [OF p] by blast
    then have "q \<in> set ?out"
      using set_out map_of_SomeD [OF q(1)] by (metis image_eqI snd_conv)
    with m [OF q(1)] q(2) show ?thesis by blast
  qed
  have sorted: "sorted_wrt (\<lambda>a b. \<not> point_less b a) ?out"
    using assms(3) by (simp add: SpatialVoxelGrid_def)
  show ?thesis
    by (intro conjI ballI dist sub best sorted)
qed

text \<open>Insertion sort by any comparison.\<close>

fun insert_by :: "('a \<Rightarrow> 'a \<Rightarrow> bool) \<Rightarrow> 'a \<Rightarrow> 'a list \<Rightarrow> 'a list" where
  "insert_by lt x [] = [x]"
| "insert_by lt x (y # ys) = (if lt y x then y # insert_by lt x ys else x # y # ys)"

definition sort_by :: "('a \<Rightarrow> 'a \<Rightarrow> bool) \<Rightarrow> 'a list \<Rightarrow> 'a list" where
  "sort_by lt xs = foldr (insert_by lt) xs []"

lemma mset_insert_by: "mset (insert_by lt x ys) = add_mset x (mset ys)"
  by (induction ys) auto

lemma point_less_trans: "\<not> point_less y x \<Longrightarrow> \<not> point_less z y \<Longrightarrow> \<not> point_less z x"
  by (auto simp: point_less_def split: if_splits)

lemma point_less_asym: "point_less y x \<Longrightarrow> \<not> point_less x y"
  by (auto simp: point_less_def split: if_splits)

lemma sorted_insert_by:
  "sorted_wrt (\<lambda>a b. \<not> point_less b a) ys \<Longrightarrow> sorted_wrt (\<lambda>a b. \<not> point_less b a) (insert_by point_less x ys)"
proof (induction ys)
  case Nil
  then show ?case by simp
next
  case (Cons y ys)
  have set: "set (insert_by point_less x ys) = insert x (set ys)"
    using arg_cong [OF mset_insert_by [of point_less x ys], of set_mset] by simp
  show ?case
  proof (cases "point_less y x")
    case True
    with Cons set point_less_asym [OF True] show ?thesis by simp
  next
    case False
    moreover from this have "\<forall>z \<in> set ys. \<not> point_less z x"
      using Cons.prems point_less_trans by auto
    ultimately show ?thesis using Cons.prems by simp
  qed
qed

lemma mset_sort_by: "mset (sort_by lt xs) = mset xs"
  by (induction xs) (simp_all add: sort_by_def mset_insert_by)

lemma sorted_sort_by: "sorted_wrt (\<lambda>a b. \<not> point_less b a) (sort_by point_less xs)"
  by (induction xs) (simp_all add: sort_by_def sorted_insert_by)

definition sample_point :: "real \<Rightarrow> byte \<Rightarrow> Point3D" where
  "sample_point x i = \<lparr>q_Latitude = x, q_Longitude = 0, q_Depth = 0, q_X = x, q_Y = 0, q_Z = 0,
     q_Intensity = i, q_TimestampUS = 0, q_PingIndex = 0, q_BeamIndex = 0\<rparr>"

definition sample_cloud :: PointCloudFrame where
  "sample_cloud = \<lparr>f_TimestampUS = 1, f_PingCounter = 1,
     f_Points = [sample_point 1 5, sample_point 3 9, sample_point 0 7], f_NumPoints = 3\<rparr>"

lemma voxel_grid_thins_witness:
  "\<exists>q \<in> set (SpatialVoxelGrid rev sort_by [sample_cloud] 2).
     voxel_key (1 / 2) q = voxel_key (1 / 2) (sample_point 1 5) \<and> 5 \<le> q_Intensity q"
proof -
  have "sample_point 1 5 \<in> set (concat (map f_Points [sample_cloud]))"
    by (simp add: sample_cloud_def)
  with voxel_grid_thins [of rev sort_by 2 "[sample_cloud]", OF mset_rev mset_sort_by sorted_sort_by]
  have "\<exists>q \<in> set (SpatialVoxelGrid rev sort_by [sample_cloud] 2).
      voxel_key (1 / 2) q = voxel_key (1 / 2) (sample_point 1 5) \<and> q_Intensity (sample_point 1 5) \<le> q_Intensity q"
    by blast
  moreover have "q_Intensity (sample_point 1 5) = 5"
    by (simp add: sample_point_def)
  ultimately show ?thesis by simp
qed

end
