(* ===== verification/Json_Payloads.thy ===== *)
theory Json_Payloads
  imports Sonar_Model "HOL-Library.Monad_Syntax"
begin

text \<open>
  What the gateway stores in Redis through \<open>encoding/json\<close>, at the level of JSON values: an object
  has one member per exported field, in the order of the struct, and decoding looks the fields up
  by name without regard to case (ASCII letters), ignores unknown members, keeps the zero value of
  a missing or null one, lets the last duplicate win, and fails when a value does not fit its field.
\<close>

datatype json = JNull | JNum real | JText string | JArr "json list" | JObj "(string \<times> json) list"

section \<open>Decoding\<close>

definition lower_char :: "char \<Rightarrow> char" where
  "lower_char c = (if 65 \<le> (of_char c :: nat) \<and> (of_char c :: nat) \<le> 90 then char_of ((of_char c :: nat) + 32) else c)"

definition same_key :: "string \<Rightarrow> string \<Rightarrow> bool" where
  "same_key k k' \<longleftrightarrow> map lower_char k = map lower_char k'"

fun json_field :: "(json \<Rightarrow> 'a option) \<Rightarrow> string \<Rightarrow> 'a \<Rightarrow> (string \<times> json) list \<Rightarrow> 'a option" where
  "json_field decode k cur [] = Some cur"
| "json_field decode k cur ((k', v) # kvs) =
     (if same_key k k' \<and> v \<noteq> JNull then
        (case decode v of None \<Rightarrow> None | Some a \<Rightarrow> json_field decode k a kvs)
      else json_field decode k cur kvs)"

definition json_real :: "json \<Rightarrow> real option" where
  "json_real v = (case v of JNum x \<Rightarrow> Some x | _ \<Rightarrow> None)"

definition json_unsigned :: "json \<Rightarrow> ('a :: len word) option" where
  "json_unsigned v =
     (case v of
        JNum x \<Rightarrow> if x = real_of_int \<lfloor>x\<rfloor> \<and> 0 \<le> x \<and> x < 2 ^ LENGTH('a) then Some (of_int \<lfloor>x\<rfloor>) else None
      | _ \<Rightarrow> None)"

definition json_signed :: "json \<Rightarrow> ('a :: len word) option" where
  "json_signed v =
     (case v of
        JNum x \<Rightarrow> if x = real_of_int \<lfloor>x\<rfloor> \<and> - (2 ^ (LENGTH('a) - 1)) \<le> x \<and> x < 2 ^ (LENGTH('a) - 1)
                 then Some (of_int \<lfloor>x\<rfloor>) else None
      | _ \<Rightarrow> None)"

definition json_int :: "json \<Rightarrow> nat option" where
  "json_int v = (case v of JNum x \<Rightarrow> if x = real_of_int \<lfloor>x\<rfloor> \<and> 0 \<le> x then Some (nat \<lfloor>x\<rfloor>) else None | _ \<Rightarrow> None)"

fun json_all :: "(json \<Rightarrow> 'a option) \<Rightarrow> json list \<Rightarrow> 'a list option" where
  "json_all decode [] = Some []"
| "json_all decode (v # vs) =
     (case decode v of None \<Rightarrow> None | Some a \<Rightarrow> map_option ((#) a) (json_all decode vs))"

definition json_list :: "(json \<Rightarrow> 'a option) \<Rightarrow> json \<Rightarrow> 'a list option" where
  "json_list decode v = (case v of JArr vs \<Rightarrow> json_all decode vs | _ \<Rightarrow> None)"

section \<open>Numbers\<close>

definition jnum :: "('a :: len) word \<Rightarrow> json" where
  "jnum x = JNum (real (unat x))"

definition jsigned :: "('a :: len) word \<Rightarrow> json" where
  "jsigned x = JNum (real_of_int (sint x))"

lemma json_unsigned_nat:
  assumes "n < 2 ^ LENGTH('a)"
  shows "json_unsigned (JNum (real n)) = Some (of_nat n :: 'a :: len word)"
proof -
  have "real n < 2 ^ LENGTH('a)"
    using assms by (metis of_nat_less_iff of_nat_numeral of_nat_power)
  then show ?thesis
    unfolding json_unsigned_def json.case by simp
qed

lemma json_signed_int:
  assumes "- (2 ^ (LENGTH('a) - 1)) \<le> i" and "i < 2 ^ (LENGTH('a) - 1)"
  shows "json_signed (JNum (real_of_int i)) = Some (of_int i :: 'a :: len word)"
proof -
  have "- (2 ^ (LENGTH('a) - 1)) \<le> real_of_int i" "real_of_int i < 2 ^ (LENGTH('a) - 1)"
    using assms by (metis of_int_le_iff of_int_minus of_int_numeral of_int_power,
        metis of_int_less_iff of_int_numeral of_int_power)
  then show ?thesis
    unfolding json_signed_def json.case floor_of_int by simp
qed

lemma json_unsigned_jnum [simp]: "json_unsigned (jnum x) = Some x"
  unfolding jnum_def by (subst json_unsigned_nat) simp_all

lemma json_signed_jsigned [simp]: "json_signed (jsigned x) = Some x"
  unfolding jsigned_def using sint_ge [of x] sint_lt [of x] by (subst json_signed_int) simp_all

lemma number_not_null [simp]: "jnum x \<noteq> JNull" "jsigned x \<noteq> JNull"
  by (simp_all add: jnum_def jsigned_def)

section \<open>Points and frames\<close>

definition zero_point :: Point3D where
  "zero_point = \<lparr>q_Latitude = 0, q_Longitude = 0, q_Depth = 0, q_X = 0, q_Y = 0, q_Z = 0, q_Intensity = 0,
     q_TimestampUS = 0, q_PingIndex = 0, q_BeamIndex = 0\<rparr>"

definition marshal_point :: "Point3D \<Rightarrow> json" where
  "marshal_point q =
     JObj [(''Latitude'', JNum (q_Latitude q)), (''Longitude'', JNum (q_Longitude q)), (''Depth'', JNum (q_Depth q)),
       (''X'', JNum (q_X q)), (''Y'', JNum (q_Y q)), (''Z'', JNum (q_Z q)), (''Intensity'', jnum (q_Intensity q)),
       (''TimestampUS'', jnum (q_TimestampUS q)), (''PingIndex'', jnum (q_PingIndex q)),
       (''BeamIndex'', jnum (q_BeamIndex q))]"

definition unmarshal_point :: "json \<Rightarrow> Point3D option" where
  "unmarshal_point v =
     (case v of
        JObj kvs \<Rightarrow>
          do {
            lat \<leftarrow> json_field json_real ''Latitude'' 0 kvs;
            lon \<leftarrow> json_field json_real ''Longitude'' 0 kvs;
            depth \<leftarrow> json_field json_real ''Depth'' 0 kvs;
            x \<leftarrow> json_field json_real ''X'' 0 kvs;
            y \<leftarrow> json_field json_real ''Y'' 0 kvs;
            z \<leftarrow> json_field json_real ''Z'' 0 kvs;
            intensity \<leftarrow> json_field json_unsigned ''Intensity'' 0 kvs;
            ts \<leftarrow> json_field json_unsigned ''TimestampUS'' 0 kvs;
            ping \<leftarrow> json_field json_unsigned ''PingIndex'' 0 kvs;
            beam \<leftarrow> json_field json_unsigned ''BeamIndex'' 0 kvs;
            Some \<lparr>q_Latitude = lat, q_Longitude = lon, q_Depth = depth, q_X = x, q_Y = y, q_Z = z,
              q_Intensity = intensity, q_TimestampUS = ts, q_PingIndex = ping, q_BeamIndex = beam\<rparr>
          }
      | JNull \<Rightarrow> Some zero_point
      | _ \<Rightarrow> None)"

definition marshal_frame :: "PointCloudFrame \<Rightarrow> json" where
  "marshal_frame f =
     JObj [(''TimestampUS'', jnum (f_TimestampUS f)), (''PingCounter'', jnum (f_PingCounter f)),
       (''Points'', JArr (map marshal_point (f_Points f))), (''NumPoints'', JNum (real (f_NumPoints f)))]"

definition unmarshal_frame :: "json \<Rightarrow> PointCloudFrame option" where
  "unmarshal_frame v =
     (case v of
        JObj kvs \<Rightarrow>
          do {
            ts \<leftarrow> json_field json_unsigned ''TimestampUS'' 0 kvs;
            ping \<leftarrow> json_field json_unsigned ''PingCounter'' 0 kvs;
            points \<leftarrow> json_field (json_list unmarshal_point) ''Points'' [] kvs;
            n \<leftarrow> json_field json_int ''NumPoints'' 0 kvs;
            Some \<lparr>f_TimestampUS = ts, f_PingCounter = ping, f_Points = points, f_NumPoints = n\<rparr>
          }
      | JNull \<Rightarrow> Some \<lparr>f_TimestampUS = 0, f_PingCounter = 0, f_Points = [], f_NumPoints = 0\<rparr>
      | _ \<Rightarrow> None)"

lemmas key_eval = same_key_def lower_char_def

lemma point_round_trip [simp]: "unmarshal_point (marshal_point q) = Some q"
  by (simp add: unmarshal_point_def marshal_point_def key_eval json_real_def)

lemma points_round_trip [simp]: "json_all unmarshal_point (map marshal_point qs) = Some qs"
  by (induction qs) simp_all

lemma frame_round_trip: "unmarshal_frame (marshal_frame f) = Some f"
  by (simp add: unmarshal_frame_def marshal_frame_def key_eval json_list_def json_int_def)

section \<open>INS records and sound-speed profiles\<close>

definition marshal_ins :: "INSData \<Rightarrow> json" where
  "marshal_ins d =
     JObj [(''TimestampUS'', jnum (i_TimestampUS d)), (''LatDeg7'', jsigned (i_LatDeg7 d)),
       (''LonDeg7'', jsigned (i_LonDeg7 d)), (''DepthMM'', jsigned (i_DepthMM d)),
       (''RollCentidg'', jsigned (i_RollCentidg d)), (''PitchCentidg'', jsigned (i_PitchCentidg d)),
       (''HeadingCentidg'', jsigned (i_HeadingCentidg d)), (''HeaveMM'', jsigned (i_HeaveMM d)),
       (''VelXMM'', jsigned (i_VelXMM d)), (''VelYMM'', jsigned (i_VelYMM d)), (''VelZMM'', jsigned (i_VelZMM d))]"

definition unmarshal_ins :: "json \<Rightarrow> INSData option" where
  "unmarshal_ins v =
     (case v of
        JObj kvs \<Rightarrow>
          do {
            ts \<leftarrow> json_field json_unsigned ''TimestampUS'' 0 kvs;
            lat \<leftarrow> json_field json_signed ''LatDeg7'' 0 kvs;
            lon \<leftarrow> json_field json_signed ''LonDeg7'' 0 kvs;
            depth \<leftarrow> json_field json_signed ''DepthMM'' 0 kvs;
            roll \<leftarrow> json_field json_signed ''RollCentidg'' 0 kvs;
            pitch \<leftarrow> json_field json_signed ''PitchCentidg'' 0 kvs;
            heading \<leftarrow> json_field json_signed ''HeadingCentidg'' 0 kvs;
            heave \<leftarrow> json_field json_signed ''HeaveMM'' 0 kvs;
            vx \<leftarrow> json_field json_signed ''VelXMM'' 0 kvs;
            vy \<leftarrow> json_field json_signed ''VelYMM'' 0 kvs;
            vz \<leftarrow> json_field json_signed ''VelZMM'' 0 kvs;
            Some \<lparr>i_TimestampUS = ts, i_LatDeg7 = lat, i_LonDeg7 = lon, i_DepthMM = depth, i_RollCentidg = roll,
              i_PitchCentidg = pitch, i_HeadingCentidg = heading, i_HeaveMM = heave, i_VelXMM = vx, i_VelYMM = vy,
              i_VelZMM = vz\<rparr>
          }
      | JNull \<Rightarrow> Some zero_INSData
      | _ \<Rightarrow> None)"

definition marshal_entry :: "SSPEntry \<Rightarrow> json" where
  "marshal_entry e = JObj [(''DepthM'', JNum (s_DepthM e)), (''SoundSpeedMs'', JNum (s_SoundSpeedMs e))]"

definition unmarshal_entry :: "json \<Rightarrow> SSPEntry option" where
  "unmarshal_entry v =
     (case v of
        JObj kvs \<Rightarrow>
          do {
            depth \<leftarrow> json_field json_real ''DepthM'' 0 kvs;
            speed \<leftarrow> json_field json_real ''SoundSpeedMs'' 0 kvs;
            Some \<lparr>s_DepthM = depth, s_SoundSpeedMs = speed\<rparr>
          }
      | JNull \<Rightarrow> Some \<lparr>s_DepthM = 0, s_SoundSpeedMs = 0\<rparr>
      | _ \<Rightarrow> None)"

definition marshal_ssp :: "SoundSpeedProfile \<Rightarrow> json" where
  "marshal_ssp p =
     JObj [(''Entries'', JArr (map marshal_entry (s_Entries p))), (''TimestampUS'', jnum (s_TimestampUS p))]"

definition unmarshal_ssp :: "json \<Rightarrow> SoundSpeedProfile option" where
  "unmarshal_ssp v =
     (case v of
        JObj kvs \<Rightarrow>
          do {
            entries \<leftarrow> json_field (json_list unmarshal_entry) ''Entries'' [] kvs;
            ts \<leftarrow> json_field json_unsigned ''TimestampUS'' 0 kvs;
            Some \<lparr>s_Entries = entries, s_TimestampUS = ts\<rparr>
          }
      | JNull \<Rightarrow> Some \<lparr>s_Entries = [], s_TimestampUS = 0\<rparr>
      | _ \<Rightarrow> None)"

lemma ins_round_trip: "unmarshal_ins (marshal_ins d) = Some d"
  by (simp add: unmarshal_ins_def marshal_ins_def key_eval)

lemma entry_round_trip [simp]: "unmarshal_entry (marshal_entry e) = Some e"
  by (simp add: unmarshal_entry_def marshal_entry_def key_eval json_real_def)

lemma entries_round_trip [simp]: "json_all unmarshal_entry (map marshal_entry es) = Some es"
  by (induction es) simp_all

lemma ssp_round_trip: "unmarshal_ssp (marshal_ssp p) = Some p"
  by (simp add: unmarshal_ssp_def marshal_ssp_def key_eval json_list_def)

section \<open>Pings, which are only written\<close>

definition marshal_beam :: "BeamData \<Rightarrow> json" where
  "marshal_beam b =
     JObj [(''BeamIndex'', jnum (b_BeamIndex b)), (''PointingAngle'', jsigned (b_PointingAngle b)),
       (''TravelTimeUS'', jnum (b_TravelTimeUS b)), (''IntensityDB'', jnum (b_IntensityDB b)),
       (''QualityFactor'', jnum (b_QualityFactor b)), (''DetectInfo'', jnum (b_DetectInfo b)),
       (''Reserved'', jnum (b_Reserved b))]"

definition marshal_ping :: "SonarPing \<Rightarrow> json" where
  "marshal_ping p =
     JObj [(''SyncPattern'', jnum (p_SyncPattern p)), (''PacketLength'', jnum (p_PacketLength p)),
       (''PingCounter'', jnum (p_PingCounter p)), (''TimestampUS'', jnum (p_TimestampUS p)),
       (''SoundSpeedDM'', jnum (p_SoundSpeedDM p)), (''NumBeams'', jnum (p_NumBeams p)),
       (''TiltAlongTrack'', jsigned (p_TiltAlongTrack p)), (''TiltAcrossTrack'', jsigned (p_TiltAcrossTrack p)),
       (''SamplingFreqHz'', jnum (p_SamplingFreqHz p)), (''PulseLengthUS'', jnum (p_PulseLengthUS p)),
       (''TransducerDepth'', jnum (p_TransducerDepth p)), (''Beams'', JArr (map marshal_beam (p_Beams p)))]"

end
