(* ===== verification/Redis_Hub.thy ===== *)
theory Redis_Hub
  imports Json_Payloads
begin

text \<open>
  \<open>Hub\<close> of \<open>internal/redis/hub.go\<close>: what the gateway writes to Redis, under which keys, and what it
  reads back. The go-redis client is not part of the repository: its operations are a record of
  functions on a client state \<open>'c\<close>, and \<open>redis_client_ok\<close> states the documented meaning of the
  Redis commands on a view of that state. The time in seconds is a parameter of the operations
  that ask for it. The mutex of the counters is held for their update only and is left out.
\<close>

section \<open>The client\<close>

text \<open>A stored string: the decimal form of a number, or a JSON payload.\<close>

datatype redis_val = RText string | RJson json

datatype redis_cmd =
    ZAdd string real redis_val
  | Expire string nat
  | HSet string "(string \<times> redis_val) list"
  | PublishMsg string redis_val

datatype hget_result = HGetNil | HGetError | HGetValue redis_val

record 'c redis_client =
  rc_connect :: "'c \<times> bool"
  rc_exec :: "redis_cmd list \<Rightarrow> 'c \<Rightarrow> bool \<times> 'c"
  rc_hget :: "string \<Rightarrow> string \<Rightarrow> 'c \<Rightarrow> hget_result"
  rc_zrange :: "string \<Rightarrow> real \<Rightarrow> real \<Rightarrow> 'c \<Rightarrow> redis_val list option"

section \<open>Formatting\<close>

fun show_nat :: "nat \<Rightarrow> string" where
  "show_nat n = (if n < 10 then [char_of (48 + n)] else show_nat (n div 10) @ [char_of (48 + n mod 10)])"

declare show_nat.simps [simp del]

definition show_int :: "int \<Rightarrow> string" where
  "show_int i = (if i < 0 then ''-'' @ show_nat (nat (- i)) else show_nat (nat i))"

definition digit_of :: "char \<Rightarrow> nat option" where
  "digit_of c = (let n = of_char c in if 48 \<le> n \<and> n \<le> 57 then Some (n - 48) else None)"

fun read_digits :: "nat \<Rightarrow> string \<Rightarrow> nat" where
  "read_digits acc [] = acc"
| "read_digits acc (c # cs) = (case digit_of c of None \<Rightarrow> acc | Some d \<Rightarrow> read_digits (acc * 10 + d) cs)"

text \<open>\<open>fmt.Sscanf(s, "%d", &v)\<close> into a zero \<open>uint16\<close>: without digits, or past its range, it stays zero.\<close>

definition scan_u16 :: "redis_val \<Rightarrow> u16" where
  "scan_u16 v = (case v of RJson _ \<Rightarrow> 0 | RText s \<Rightarrow> let n = read_digits 0 s in if n < 2 ^ 16 then of_nat n else 0)"

section \<open>State\<close>

record HubOptions =
  ho_Addr :: string
  ho_Password :: string
  ho_DB :: int
  ho_PoolSize :: int
  ho_KeyPrefix :: string
  ho_SSPChannel :: string
  ho_FrameChannel :: string
  ho_StatsChannel :: string

record HubStats =
  hs_PingsPublished :: u64
  hs_FramesPublished :: u64
  hs_PointsPublished :: u64
  hs_SSPUpdates :: u64
  hs_InspDataUpdates :: u64

record ('c, 'w) hub =
  h_client :: "'c option"
  h_opts :: HubOptions
  h_running :: bool
  h_stats :: HubStats
  h_onSSPUpdate :: "(SoundSpeedProfile \<Rightarrow> 'w \<Rightarrow> 'w go) option"

definition DefaultOptions :: HubOptions where
  "DefaultOptions =
     \<lparr>ho_Addr = ''127.0.0.1:6379'', ho_Password = [], ho_DB = 0, ho_PoolSize = 32, ho_KeyPrefix = ''auv:sonar:'',
      ho_SSPChannel = ''auv:sonar:ssp'', ho_FrameChannel = ''auv:sonar:frames'', ho_StatsChannel = ''auv:sonar:stats''\<rparr>"

definition NewHub :: "HubOptions \<Rightarrow> ('c, 'w) hub" where
  "NewHub opts =
     \<lparr>h_client = None, h_opts = opts, h_running = False,
      h_stats = \<lparr>hs_PingsPublished = 0, hs_FramesPublished = 0, hs_PointsPublished = 0, hs_SSPUpdates = 0,
        hs_InspDataUpdates = 0\<rparr>,
      h_onSSPUpdate = None\<rparr>"

definition SetSSPUpdateHandler ::
    "(SoundSpeedProfile \<Rightarrow> 'w \<Rightarrow> 'w go) \<Rightarrow> ('c, 'w) hub \<Rightarrow> ('c, 'w) hub" where
  "SetSSPUpdateHandler handler h = h\<lparr>h_onSSPUpdate := Some handler\<rparr>"

datatype hub_error = AlreadyConnected | PingFailed | PipelineFailed | GetFailed | BadPayload

text \<open>\<open>Connect\<close> keeps the client even when the first ping fails.\<close>

definition Connect :: "'c redis_client \<Rightarrow> ('c, 'w) hub \<Rightarrow> hub_error option \<times> ('c, 'w) hub" where
  "Connect cl h =
     (if h_running h then (Some AlreadyConnected, h)
      else
        (case rc_connect cl of
           (c, ok) \<Rightarrow>
             if ok then (None, h\<lparr>h_running := True, h_client := Some c\<rparr>)
             else (Some PingFailed, h\<lparr>h_running := False, h_client := Some c\<rparr>)))"

definition Disconnect :: "('c, 'w) hub \<Rightarrow> ('c, 'w) hub" where
  "Disconnect h = (if \<not> h_running h then h else h\<lparr>h_running := False\<rparr>)"

definition hub_key :: "('c, 'w) hub \<Rightarrow> string \<Rightarrow> string" where
  "hub_key h name = ho_KeyPrefix (h_opts h) @ name"

definition hub_GetStats :: "('c, 'w) hub \<Rightarrow> HubStats" where
  "hub_GetStats h = h_stats h"

section \<open>Publishing\<close>

text \<open>Queue the commands and execute them; before \<open>Connect\<close> there is no client to call.\<close>

definition hub_exec ::
    "'c redis_client \<Rightarrow> redis_cmd list \<Rightarrow> ('c, 'w) hub \<Rightarrow> (bool \<times> ('c, 'w) hub) go" where
  "hub_exec cl cmds h =
     (case h_client h of
        None \<Rightarrow> Inl Panic
      | Some c \<Rightarrow> (case rc_exec cl cmds c of (ok, c') \<Rightarrow> Inr (ok, h\<lparr>h_client := Some c'\<rparr>)))"

definition publish ::
    "'c redis_client \<Rightarrow> redis_cmd list \<Rightarrow> (HubStats \<Rightarrow> HubStats) \<Rightarrow> ('c, 'w) hub \<Rightarrow>
     (hub_error option \<times> ('c, 'w) hub) go" where
  "publish cl cmds count h =
     (case hub_exec cl cmds h of
        Inl s \<Rightarrow> Inl s
      | Inr (ok, h1) \<Rightarrow> Inr (if ok then (None, h1\<lparr>h_stats := count (h_stats h1)\<rparr>) else (Some PipelineFailed, h1)))"

definition time_score :: "u64 \<Rightarrow> real" where
  "time_score ts = real (unat ts) / 10 ^ 6"

definition PublishPing ::
    "'c redis_client \<Rightarrow> nat \<Rightarrow> SonarPing option \<Rightarrow> ('c, 'w) hub \<Rightarrow> (hub_error option \<times> ('c, 'w) hub) go" where
  "PublishPing cl now ping h =
     (case ping of
        None \<Rightarrow> Inr (None, h)
      | Some p \<Rightarrow>
          (let key = hub_key h (''pings:'' @ show_nat (now div 3600)) in
           publish cl [ZAdd key (time_score (p_TimestampUS p)) (RJson (marshal_ping p)), Expire key (24 * 3600)]
             (\<lambda>st. st\<lparr>hs_PingsPublished := hs_PingsPublished st + 1\<rparr>) h))"

definition frames_key :: "('c, 'w) hub \<Rightarrow> nat \<Rightarrow> string" where
  "frames_key h hour = hub_key h (''frames:'' @ show_nat hour)"

definition frame_key :: "('c, 'w) hub \<Rightarrow> u16 \<Rightarrow> string" where
  "frame_key h pingCounter = hub_key h (''frame:'' @ show_nat (unat pingCounter))"

definition frame_cmds :: "('c, 'w) hub \<Rightarrow> nat \<Rightarrow> PointCloudFrame \<Rightarrow> redis_cmd list" where
  "frame_cmds h now f =
     (let zsetKey = frames_key h (now div 3600); hashKey = frame_key h (f_PingCounter f);
          counter = RText (show_nat (unat (f_PingCounter f)))
      in [ZAdd zsetKey (time_score (f_TimestampUS f)) counter, Expire zsetKey (48 * 3600),
          HSet hashKey [(''timestamp'', RText (show_nat (unat (f_TimestampUS f)))), (''ping_counter'', counter),
            (''num_points'', RText (show_nat (f_NumPoints f))), (''data'', RJson (marshal_frame f))],
          Expire hashKey (48 * 3600), PublishMsg (ho_FrameChannel (h_opts h)) (RJson (marshal_frame f))])"

definition PublishFrame ::
    "'c redis_client \<Rightarrow> nat \<Rightarrow> PointCloudFrame option \<Rightarrow> ('c, 'w) hub \<Rightarrow> (hub_error option \<times> ('c, 'w) hub) go" where
  "PublishFrame cl now frame h =
     (case frame of
        None \<Rightarrow> Inr (None, h)
      | Some f \<Rightarrow>
          if f_NumPoints f = 0 then Inr (None, h)
          else publish cl (frame_cmds h now f)
                 (\<lambda>st. st\<lparr>hs_FramesPublished := hs_FramesPublished st + 1,
                          hs_PointsPublished := hs_PointsPublished st + of_nat (f_NumPoints f)\<rparr>) h)"

definition ins_cmds :: "('c, 'w) hub \<Rightarrow> nat \<Rightarrow> INSData \<Rightarrow> redis_cmd list" where
  "ins_cmds h now d =
     (let hashKey = hub_key h ''ins:latest''; data = RJson (marshal_ins d);
          histKey = hub_key h (''ins:hist:'' @ show_nat (now div 3600)); signed = (\<lambda>i. RText (show_int i))
      in [HSet hashKey [(''timestamp'', RText (show_nat (unat (i_TimestampUS d)))), (''lat'', signed (sint (i_LatDeg7 d))),
            (''lon'', signed (sint (i_LonDeg7 d))), (''depth'', signed (sint (i_DepthMM d))),
            (''roll'', signed (sint (i_RollCentidg d))), (''pitch'', signed (sint (i_PitchCentidg d))),
            (''heading'', signed (sint (i_HeadingCentidg d))), (''heave'', signed (sint (i_HeaveMM d))), (''data'', data)],
          ZAdd histKey (time_score (i_TimestampUS d)) data, Expire histKey (24 * 3600)])"

definition PublishINS ::
    "'c redis_client \<Rightarrow> nat \<Rightarrow> INSData option \<Rightarrow> ('c, 'w) hub \<Rightarrow> (hub_error option \<times> ('c, 'w) hub) go" where
  "PublishINS cl now ins h =
     (case ins of
        None \<Rightarrow> Inr (None, h)
      | Some d \<Rightarrow> publish cl (ins_cmds h now d) (\<lambda>st. st\<lparr>hs_InspDataUpdates := hs_InspDataUpdates st + 1\<rparr>) h)"

definition PublishSSP ::
    "'c redis_client \<Rightarrow> SoundSpeedProfile option \<Rightarrow> ('c, 'w) hub \<Rightarrow> (hub_error option \<times> ('c, 'w) hub) go" where
  "PublishSSP cl ssp h =
     (case ssp of
        None \<Rightarrow> Inr (None, h)
      | Some p \<Rightarrow>
          (let data = RJson (marshal_ssp p) in
           publish cl [HSet (hub_key h ''ssp:latest'') [(''timestamp'', RText (show_nat (unat (s_TimestampUS p)))),
                (''num_entries'', RText (show_nat (length (s_Entries p)))), (''data'', data)],
              PublishMsg (ho_SSPChannel (h_opts h)) data]
             (\<lambda>st. st\<lparr>hs_SSPUpdates := hs_SSPUpdates st + 1\<rparr>) h))"

definition marshal_stats :: "HubStats \<Rightarrow> json" where
  "marshal_stats st =
     JObj [(''PingsPublished'', jnum (hs_PingsPublished st)), (''FramesPublished'', jnum (hs_FramesPublished st)),
       (''PointsPublished'', jnum (hs_PointsPublished st)), (''SSPUpdates'', jnum (hs_SSPUpdates st)),
       (''InspDataUpdates'', jnum (hs_InspDataUpdates st))]"

text \<open>One tick of \<open>PublishStatsPeriodically\<close>; the result of the command is not looked at.\<close>

definition stats_tick :: "'c redis_client \<Rightarrow> ('c, 'w) hub \<Rightarrow> ('c, 'w) hub go" where
  "stats_tick cl h =
     (if \<not> h_running h then Inr h
      else
        (case hub_exec cl [PublishMsg (ho_StatsChannel (h_opts h)) (RJson (marshal_stats (hub_GetStats h)))] h of
           Inl s \<Rightarrow> Inl s
         | Inr (_, h1) \<Rightarrow> Inr h1))"

section \<open>Reading\<close>

definition unmarshal_val :: "(json \<Rightarrow> 'a option) \<Rightarrow> redis_val \<Rightarrow> 'a option" where
  "unmarshal_val decode v = (case v of RJson j \<Rightarrow> decode j | RText _ \<Rightarrow> None)"

definition get_latest ::
    "(json \<Rightarrow> 'a option) \<Rightarrow> string \<Rightarrow> 'c redis_client \<Rightarrow> ('c, 'w) hub \<Rightarrow> (hub_error + 'a option) go" where
  "get_latest decode name cl h =
     (case h_client h of
        None \<Rightarrow> Inl Panic
      | Some c \<Rightarrow>
          Inr (case rc_hget cl (hub_key h name) ''data'' c of
                 HGetNil \<Rightarrow> Inr None
               | HGetError \<Rightarrow> Inl GetFailed
               | HGetValue v \<Rightarrow> (case unmarshal_val decode v of None \<Rightarrow> Inl BadPayload | Some d \<Rightarrow> Inr (Some d))))"

definition GetLatestINS :: "'c redis_client \<Rightarrow> ('c, 'w) hub \<Rightarrow> (hub_error + INSData option) go" where
  "GetLatestINS = get_latest unmarshal_ins ''ins:latest''"

definition GetLatestSSP :: "'c redis_client \<Rightarrow> ('c, 'w) hub \<Rightarrow> (hub_error + SoundSpeedProfile option) go" where
  "GetLatestSSP = get_latest unmarshal_ssp ''ssp:latest''"

text \<open>The counters found in the sorted sets of the hours; a failed range is skipped.\<close>

definition hour_of_score :: "real \<Rightarrow> nat" where
  "hour_of_score s = nat \<lfloor>s\<rfloor> div 3600"

definition range_pings :: "'c redis_client \<Rightarrow> real \<Rightarrow> real \<Rightarrow> ('c, 'w) hub \<Rightarrow> 'c \<Rightarrow> u16 list" where
  "range_pings cl startScore endScore h c =
     concat (map (\<lambda>h2. case rc_zrange cl (frames_key h h2) startScore endScore c of
                         None \<Rightarrow> []
                       | Some result \<Rightarrow> map scan_u16 result)
       [hour_of_score startScore..<Suc (hour_of_score endScore)])"

definition load_frame :: "'c redis_client \<Rightarrow> ('c, 'w) hub \<Rightarrow> 'c \<Rightarrow> u16 \<Rightarrow> PointCloudFrame list" where
  "load_frame cl h c pingCnt =
     (case rc_hget cl (frame_key h pingCnt) ''data'' c of
        HGetValue v \<Rightarrow> (case unmarshal_val unmarshal_frame v of None \<Rightarrow> [] | Some f \<Rightarrow> [f])
      | _ \<Rightarrow> [])"

text \<open>Without a client the first command panics; an empty range of hours sends none.\<close>

definition GetFramesInRange ::
    "'c redis_client \<Rightarrow> u64 \<Rightarrow> u64 \<Rightarrow> ('c, 'w) hub \<Rightarrow> PointCloudFrame list go" where
  "GetFramesInRange cl startTimeUS endTimeUS h =
     (let startScore = time_score startTimeUS; endScore = time_score endTimeUS in
      case h_client h of
        None \<Rightarrow> if hour_of_score startScore \<le> hour_of_score endScore then Inl Panic else Inr []
      | Some c \<Rightarrow> Inr (concat (map (load_frame cl h c) (range_pings cl startScore endScore h c))))"

text \<open>\<open>listenSSP\<close> on the messages of its channel; what is not a profile is skipped.\<close>

fun listenSSP :: "redis_val list \<Rightarrow> ('c, 'w) hub \<Rightarrow> 'w \<Rightarrow> 'w go" where
  "listenSSP [] h w = Inr w"
| "listenSSP (msg # msgs) h w =
     (case unmarshal_val unmarshal_ssp msg of
        None \<Rightarrow> listenSSP msgs h w
      | Some ssp \<Rightarrow>
          (case h_onSSPUpdate h of
             None \<Rightarrow> listenSSP msgs h w
           | Some handler \<Rightarrow> (case handler ssp w of Inl s \<Rightarrow> Inl s | Inr w1 \<Rightarrow> listenSSP msgs h w1)))"

end
