(* ===== verification/Redis_Correct.thy ===== *)
theory Redis_Correct
  imports Redis_Hub
begin

text \<open>
  Properties of the hub over any client that keeps the documented meaning of the Redis commands:
  what is published can be read back, under which times a frame is found, and what a repeated
  ping counter does to the frame stored before.
\<close>

section \<open>The meaning of the commands\<close>

record redis_db =
  db_zsets :: "string \<Rightarrow> redis_val \<Rightarrow> real option"
  db_hashes :: "string \<Rightarrow> string \<Rightarrow> redis_val option"

definition empty_db :: redis_db where
  "empty_db = \<lparr>db_zsets = \<lambda>_. Map.empty, db_hashes = \<lambda>_. Map.empty\<rparr>"

fun apply_cmd :: "redis_cmd \<Rightarrow> redis_db \<Rightarrow> redis_db" where
  "apply_cmd (ZAdd k s m) db = db\<lparr>db_zsets := (db_zsets db)(k := (db_zsets db k)(m \<mapsto> s))\<rparr>"
| "apply_cmd (HSet k kvs) db = db\<lparr>db_hashes := (db_hashes db)(k := db_hashes db k ++ map_of (rev kvs))\<rparr>"
| "apply_cmd (Expire k t) db = db"
| "apply_cmd (PublishMsg ch v) db = db"

text \<open>
  A pipeline that succeeds has run its commands in order; \<open>HGET\<close> reads a field; \<open>ZRANGEBYSCORE\<close>
  returns the members with a score in the range, each once. No key expires while it is looked at.
\<close>

definition redis_client_ok :: "'c redis_client \<Rightarrow> ('c \<Rightarrow> redis_db) \<Rightarrow> bool" where
  "redis_client_ok cl view \<longleftrightarrow>
     (\<forall>cmds c c'. rc_exec cl cmds c = (True, c') \<longrightarrow> view c' = fold apply_cmd cmds (view c))
   \<and> (\<forall>k f c. rc_hget cl k f c = (case db_hashes (view c) k f of None \<Rightarrow> HGetNil | Some v \<Rightarrow> HGetValue v))
   \<and> (\<forall>k a b c. \<exists>xs. rc_zrange cl k a b c = Some xs \<and> distinct xs
        \<and> set xs = {m. \<exists>s. db_zsets (view c) k m = Some s \<and> a \<le> s \<and> s \<le> b})"

section \<open>Numbers and keys\<close>

lemma read_digits_show: "read_digits acc (show_nat n @ cs) = read_digits (acc * 10 ^ length (show_nat n) + n) cs"
proof (induction n arbitrary: acc cs rule: show_nat.induct)
  case (1 n)
  have digit: "digit_of (char_of (48 + k)) = Some k" if "k < 10" for k :: nat
    using that by (simp add: digit_of_def Let_def)
  show ?case
  proof (cases "n < 10")
    case True
    then show ?thesis by (simp add: show_nat.simps [of n] digit)
  next
    case False
    have "acc * 10 ^ length (show_nat (n div 10)) * 10 + n div 10 * 10 + n mod 10
        = acc * 10 ^ length (show_nat (n div 10)) * 10 + n"
      by simp
    with False 1 [OF False] show ?thesis
      by (simp add: show_nat.simps [of n] digit algebra_simps)
  qed
qed

lemma read_show: "read_digits 0 (show_nat n) = n"
  using read_digits_show [of 0 n "[]"] by simp

lemma show_nat_inj: "show_nat m = show_nat n \<longleftrightarrow> m = n"
  using read_show [of m] read_show [of n] by metis

lemma scan_counter: "scan_u16 (RText (show_nat (unat c))) = (c :: u16)"
  using unsigned_less [of c, where 'a = nat] by (simp add: scan_u16_def read_show)

lemma keys_eq:
  "frames_key h m = frames_key h n \<longleftrightarrow> m = n" "frame_key h c = frame_key h d \<longleftrightarrow> c = d"
  by (auto simp: frames_key_def frame_key_def hub_key_def show_nat_inj word_unat_eq_iff)

section \<open>Latest values\<close>

lemma publish_ok:
  assumes "redis_client_ok cl view" and "publish cl cmds count h = Inr (None, h')"
  obtains c c' where "h_client h = Some c" and "h_client h' = Some c'" and "h_opts h' = h_opts h"
    and "view c' = fold apply_cmd cmds (view c)"
  using assms by (auto simp: publish_def hub_exec_def redis_client_ok_def split: option.splits sum.splits prod.splits if_splits)

text \<open>C33. After a successful publication of an INS record or of a profile, the latest value read back
  is exactly that one, through its JSON form.\<close>

theorem latest_reads_back:
  assumes "redis_client_ok cl view"
  shows "(PublishINS cl now (Some d) h = Inr (None, h') \<longrightarrow> GetLatestINS cl h' = Inr (Inr (Some d)))
       \<and> (PublishSSP cl (Some p) h = Inr (None, h') \<longrightarrow> GetLatestSSP cl h' = Inr (Inr (Some p)))"
proof (intro conjI impI)
  assume "PublishINS cl now (Some d) h = Inr (None, h')"
  then obtain c c' where "h_client h' = Some c'" "h_opts h' = h_opts h" "view c' = fold apply_cmd (ins_cmds h now d) (view c)"
    unfolding PublishINS_def option.case by (elim publish_ok [OF assms]) auto
  then show "GetLatestINS cl h' = Inr (Inr (Some d))"
    using assms by (auto simp: GetLatestINS_def get_latest_def redis_client_ok_def ins_cmds_def Let_def hub_key_def
        unmarshal_val_def ins_round_trip)
next
  assume "PublishSSP cl (Some p) h = Inr (None, h')"
  then obtain c c' where "h_client h' = Some c'" "h_opts h' = h_opts h"
    "db_hashes (view c') (hub_key h ''ssp:latest'') ''data'' = Some (RJson (marshal_ssp p))"
    unfolding PublishSSP_def option.case Let_def by (elim publish_ok [OF assms]) auto
  then show "GetLatestSSP cl h' = Inr (Inr (Some p))"
    using assms by (auto simp: GetLatestSSP_def get_latest_def redis_client_ok_def hub_key_def unmarshal_val_def
        ssp_round_trip)
qed

section \<open>Frames in a range\<close>

definition frame_hour :: "u64 \<Rightarrow> nat" where
  "frame_hour ts = hour_of_score (time_score ts)"

lemma PublishFrame_view:
  assumes "redis_client_ok cl view" and "PublishFrame cl now (Some f) h = Inr (None, h')" and "f_NumPoints f \<noteq> 0"
  obtains c c' where "h_client h = Some c" and "h_client h' = Some c'" and "h_opts h' = h_opts h"
    and "db_zsets (view c') = (db_zsets (view c))(frames_key h (now div 3600) :=
           (db_zsets (view c) (frames_key h (now div 3600)))(RText (show_nat (unat (f_PingCounter f))) \<mapsto> time_score (f_TimestampUS f)))"
    and "db_hashes (view c') (frame_key h k) ''data''
           = (if k = f_PingCounter f then Some (RJson (marshal_frame f)) else db_hashes (view c) (frame_key h k) ''data'')"
proof -
  from assms(2,3) obtain c c' where pub: "h_client h = Some c" "h_client h' = Some c'" "h_opts h' = h_opts h"
    "view c' = fold apply_cmd (frame_cmds h now f) (view c)"
    unfolding PublishFrame_def option.case by (auto elim: publish_ok [OF assms(1)])
  then show ?thesis
    by (intro that [OF pub(1-3)]) (auto simp: frame_cmds_def Let_def keys_eq)
qed

lemma load_stored:
  assumes "redis_client_ok cl view" and "db_hashes (view c) (frame_key h k) ''data'' = Some (RJson (marshal_frame f))"
  shows "load_frame cl h c k = [f]"
  using assms by (simp add: load_frame_def redis_client_ok_def unmarshal_val_def frame_round_trip)

lemma range_members:
  assumes "redis_client_ok cl view"
  shows "\<exists>xs. rc_zrange cl k a b c = Some xs \<and> distinct xs
       \<and> set xs = {m. \<exists>s. db_zsets (view c) k m = Some s \<and> a \<le> s \<and> s \<le> b}"
  using assms by (simp add: redis_client_ok_def)

lemma time_score_le: "time_score a \<le> time_score b \<longleftrightarrow> a \<le> b"
  unfolding time_score_def word_le_nat_alt by (subst divide_le_cancel) (simp only: of_nat_le_iff, simp)

lemma concat_at: "j \<in> set js \<Longrightarrow> distinct js \<Longrightarrow> concat (map (\<lambda>i. if i = j then ys else []) js) = ys"
  by (induction js) (auto simp: concat_eq_Nil_conv)

lemma distinct_single: "distinct xs \<Longrightarrow> set xs = {x} \<Longrightarrow> xs = [x]"
proof (cases xs)
  case (Cons y ys)
  assume "distinct xs" "set xs = {x}"
  with Cons show ?thesis by (cases ys) auto
qed simp

text \<open>The counters found when one of the hours in question holds one frame and the others none.\<close>

lemma range_pings_single:
  assumes "redis_client_ok cl view"
    and zs: "\<And>k. frame_hour a \<le> k \<Longrightarrow> k \<le> frame_hour b \<Longrightarrow> db_zsets (view c) (frames_key h k) =
           (if k = hr then [RText (show_nat (unat cnt)) \<mapsto> time_score ts] else Map.empty)"
  shows "range_pings cl (time_score a) (time_score b) h c
           = (if frame_hour a \<le> hr \<and> hr \<le> frame_hour b \<and> a \<le> ts \<and> ts \<le> b then [cnt] else [])"
proof -
  have each: "(case rc_zrange cl (frames_key h k) (time_score a) (time_score b) c of
                 None \<Rightarrow> [] | Some result \<Rightarrow> map scan_u16 result)
      = (if k = hr then (if a \<le> ts \<and> ts \<le> b then [cnt] else []) else [])"
    if "k \<in> set [frame_hour a..<Suc (frame_hour b)]" for k
  proof -
    have z: "db_zsets (view c) (frames_key h k) =
        (if k = hr then [RText (show_nat (unat cnt)) \<mapsto> time_score ts] else Map.empty)"
      using that by (intro zs) auto
    from range_members [OF assms(1), of "frames_key h k" "time_score a" "time_score b" c] obtain xs where
      xs: "rc_zrange cl (frames_key h k) (time_score a) (time_score b) c = Some xs" "distinct xs"
      "set xs = {m. \<exists>s. db_zsets (view c) (frames_key h k) m = Some s \<and> time_score a \<le> s \<and> s \<le> time_score b}"
      by blast
    show ?thesis
    proof (cases "k = hr \<and> a \<le> ts \<and> ts \<le> b")
      case True
      with xs(3) [unfolded z] have "set xs = {RText (show_nat (unat cnt))}"
        by (auto simp: time_score_le split: if_splits)
      with xs(2) have "xs = [RText (show_nat (unat cnt))]"
        by (rule distinct_single)
      with xs(1) True show ?thesis by (simp add: scan_counter)
    next
      case False
      with xs(3) [unfolded z] have "xs = []"
        by (auto simp: time_score_le split: if_splits)
      with xs(1) False show ?thesis by auto
    qed
  qed
  have "range_pings cl (time_score a) (time_score b) h c
      = concat (map (\<lambda>k. if k = hr then (if a \<le> ts \<and> ts \<le> b then [cnt] else []) else []) [frame_hour a..<Suc (frame_hour b)])"
    unfolding range_pings_def frame_hour_def [symmetric]
    by (rule arg_cong [where f = concat], rule map_cong [OF refl], rule each)
  then show ?thesis
    using concat_at [of hr "[frame_hour a..<Suc (frame_hour b)]"]
    by (cases "hr \<in> set [frame_hour a..<Suc (frame_hour b)]") (auto simp: concat_eq_Nil_conv)
qed

text \<open>C31. A frame published to an empty database is found, unchanged, by exactly those ranges that
  contain its timestamp and whose hours contain the hour of the clock at its publication: the
  sorted sets are named after the wall clock, but looked up by the timestamps asked for.\<close>

theorem published_frame_lookup:
  assumes "redis_client_ok cl view" and "h_client h = Some c" and "view c = empty_db"
    and "PublishFrame cl now (Some f) h = Inr (None, h')" and "f_NumPoints f \<noteq> 0"
  shows "GetFramesInRange cl a b h' =
     Inr (if a \<le> f_TimestampUS f \<and> f_TimestampUS f \<le> b \<and> frame_hour a \<le> now div 3600 \<and> now div 3600 \<le> frame_hour b
          then [f] else [])"
proof -
  obtain c' where pub: "h_client h' = Some c'" "h_opts h' = h_opts h"
    "db_zsets (view c') = (\<lambda>_. Map.empty)(frames_key h (now div 3600) :=
       [RText (show_nat (unat (f_PingCounter f))) \<mapsto> time_score (f_TimestampUS f)])"
    "db_hashes (view c') (frame_key h (f_PingCounter f)) ''data'' = Some (RJson (marshal_frame f))"
    by (rule PublishFrame_view [OF assms(1,4,5), where k = "f_PingCounter f"]) (use assms(2,3) in \<open>auto simp: empty_db_def\<close>)
  have "frames_key h' = frames_key h" "frame_key h' = frame_key h"
    using pub(2) by (simp_all add: frames_key_def frame_key_def hub_key_def fun_eq_iff)
  with pub load_stored [OF assms(1), of c' h' "f_PingCounter f" f]
    range_pings_single [OF assms(1), of a b c' h' "now div 3600" "f_PingCounter f" "f_TimestampUS f"]
  show ?thesis
    by (auto simp: GetFramesInRange_def Let_def keys_eq)
qed

text \<open>C32. The contents of a frame are stored under its ping counter, which has 16 bits. Let a frame be
  published within the hour of its own timestamp, and later another one with the same counter:
  then asking for the first frame's time never returns the first frame. It returns the second
  one when that was published in another hour of the clock (or bears the same timestamp), and
  nothing when it was published in the same hour, where it also overwrites the score.\<close>

theorem reused_counter_replaces_frame:
  assumes "redis_client_ok cl view" and "h_client h = Some c" and "view c = empty_db"
    and "PublishFrame cl now (Some f) h = Inr (None, h1)" and "f_NumPoints f \<noteq> 0"
    and "PublishFrame cl now' (Some g) h1 = Inr (None, h2)" and "f_NumPoints g \<noteq> 0"
    and "f_PingCounter g = f_PingCounter f" and "now div 3600 = frame_hour (f_TimestampUS f)"
  shows "GetFramesInRange cl (f_TimestampUS f) (f_TimestampUS f) h2 =
     Inr (if now' div 3600 \<noteq> now div 3600 \<or> f_TimestampUS g = f_TimestampUS f then [g] else [])"
proof -
  let ?hr = "now div 3600" and ?cnt = "f_PingCounter f"
  obtain c1 where pub1: "h_client h1 = Some c1" "h_opts h1 = h_opts h"
    "db_zsets (view c1) = (\<lambda>_. Map.empty)(frames_key h ?hr :=
       [RText (show_nat (unat ?cnt)) \<mapsto> time_score (f_TimestampUS f)])"
    by (rule PublishFrame_view [OF assms(1,4,5)]) (use assms(2,3) in \<open>auto simp: empty_db_def\<close>)
  have keys1: "frames_key h1 = frames_key h" "frame_key h1 = frame_key h"
    using pub1(2) by (simp_all add: frames_key_def frame_key_def hub_key_def fun_eq_iff)
  let ?ts = "if now' div 3600 = ?hr then f_TimestampUS g else f_TimestampUS f"
  obtain c2 where pub2: "h_client h2 = Some c2" "h_opts h2 = h_opts h1"
    "db_zsets (view c2) (frames_key h ?hr) = [RText (show_nat (unat ?cnt)) \<mapsto> time_score ?ts]"
    "db_hashes (view c2) (frame_key h ?cnt) ''data'' = Some (RJson (marshal_frame g))"
    by (rule PublishFrame_view [OF assms(1,6,7), where k = ?cnt])
      (use pub1(1,3) assms(8) in \<open>auto simp: keys1 keys_eq\<close>)
  have keys2: "frames_key h2 = frames_key h" "frame_key h2 = frame_key h"
    using pub1(2) pub2(2) by (simp_all add: frames_key_def frame_key_def hub_key_def fun_eq_iff)
  have "range_pings cl (time_score (f_TimestampUS f)) (time_score (f_TimestampUS f)) h2 c2
      = (if ?ts = f_TimestampUS f then [?cnt] else [])"
    using range_pings_single [OF assms(1), of "f_TimestampUS f" "f_TimestampUS f" c2 h2 ?hr ?cnt ?ts] pub2(3) assms(9)
    by (auto simp: keys2)
  moreover have "load_frame cl h2 c2 ?cnt = [g]"
    using pub2(4) by (intro load_stored [OF assms(1)]) (simp add: keys2)
  ultimately show ?thesis
    using pub2(1) by (auto simp: GetFramesInRange_def Let_def)
qed

section \<open>A client that keeps its commands\<close>

definition log_view :: "redis_cmd list \<Rightarrow> redis_db" where
  "log_view c = fold apply_cmd c empty_db"

definition log_members :: "redis_cmd list \<Rightarrow> redis_val list" where
  "log_members c = concat (map (\<lambda>cmd. case cmd of ZAdd k s m \<Rightarrow> [m] | _ \<Rightarrow> []) c)"

definition log_client :: "redis_cmd list redis_client" where
  "log_client =
     \<lparr>rc_connect = ([], True), rc_exec = \<lambda>cmds c. (True, c @ cmds),
      rc_hget = \<lambda>k f c. case db_hashes (log_view c) k f of None \<Rightarrow> HGetNil | Some v \<Rightarrow> HGetValue v,
      rc_zrange = \<lambda>k a b c. Some (filter (\<lambda>m. case db_zsets (log_view c) k m of None \<Rightarrow> False | Some s \<Rightarrow> a \<le> s \<and> s \<le> b)
                                   (remdups (log_members c)))\<rparr>"

lemma log_member: "db_zsets (log_view c) k m = Some s \<Longrightarrow> m \<in> set (log_members c)"
proof (induction c rule: rev_induct)
  case Nil
  then show ?case by (simp add: log_view_def empty_db_def)
next
  case (snoc cmd c)
  then show ?case
    by (cases cmd) (auto simp: log_view_def log_members_def split: if_splits)
qed

lemma log_client_ok: "redis_client_ok log_client log_view"
  by (auto simp: redis_client_ok_def log_client_def log_view_def [symmetric] dest: log_member split: option.splits)
    (simp add: log_view_def)

definition log_hub :: "(redis_cmd list, unit) hub" where
  "log_hub = snd (Connect log_client (NewHub DefaultOptions))"

definition one_point_frame :: "u16 \<Rightarrow> u64 \<Rightarrow> PointCloudFrame" where
  "one_point_frame cnt ts = AddPoint (NewPointCloudFrame ts cnt) zero_point"

lemma log_hub_facts: "h_client log_hub = Some []" "log_view [] = empty_db"
  by (simp_all add: log_hub_def Connect_def NewHub_def log_client_def log_view_def)

lemma log_publish:
  "\<exists>h'. PublishFrame log_client now (Some (one_point_frame cnt ts)) h = Inr (None, h')
     \<and> (\<exists>c'. h_client h' = Some c')" if "h_client h = Some c" for h :: "(redis_cmd list, unit) hub"
  using that by (simp add: PublishFrame_def one_point_frame_def AddPoint_def NewPointCloudFrame_def publish_def
      hub_exec_def log_client_def)

lemma one_point_facts:
  "f_NumPoints (one_point_frame cnt ts) \<noteq> 0" "f_PingCounter (one_point_frame cnt ts) = cnt"
  "f_TimestampUS (one_point_frame cnt ts) = ts"
  by (simp_all add: one_point_frame_def AddPoint_def NewPointCloudFrame_def)

lemma published_frame_lookup_witness:
  "\<exists>h'. PublishFrame log_client 7200 (Some (one_point_frame 7 5000000)) log_hub = Inr (None, h')
     \<and> GetFramesInRange log_client 0 9000000 h' = Inr []"
proof -
  obtain h' where "PublishFrame log_client 7200 (Some (one_point_frame 7 5000000)) log_hub = Inr (None, h')"
    using log_publish [OF log_hub_facts(1)] by blast
  then show ?thesis
    using published_frame_lookup [OF log_client_ok log_hub_facts, of 7200 "one_point_frame 7 5000000" h' 0 9000000]
    by (simp add: one_point_facts frame_hour_def hour_of_score_def time_score_def)
qed

lemma reused_counter_replaces_frame_witness:
  "\<exists>h1 h2. PublishFrame log_client 5 (Some (one_point_frame 7 5000000)) log_hub = Inr (None, h1)
     \<and> PublishFrame log_client 7200 (Some (one_point_frame 7 7200000000)) h1 = Inr (None, h2)
     \<and> GetFramesInRange log_client 5000000 5000000 h2 = Inr [one_point_frame 7 7200000000]"
proof -
  obtain h1 where h1: "PublishFrame log_client 5 (Some (one_point_frame 7 5000000)) log_hub = Inr (None, h1)"
    "\<exists>c. h_client h1 = Some c"
    using log_publish [OF log_hub_facts(1)] by blast
  then obtain h2 where "PublishFrame log_client 7200 (Some (one_point_frame 7 7200000000)) h1 = Inr (None, h2)"
    using log_publish by blast
  with h1 show ?thesis
    using reused_counter_replaces_frame [OF log_client_ok log_hub_facts h1(1), of 7200 "one_point_frame 7 7200000000" h2]
    by (auto simp: one_point_facts frame_hour_def hour_of_score_def time_score_def)
qed

lemma latest_reads_back_witness:
  "\<exists>h'. PublishINS log_client 5 (Some zero_INSData) log_hub = Inr (None, h')
     \<and> GetLatestINS log_client h' = Inr (Inr (Some zero_INSData))"
proof -
  obtain h' where "PublishINS log_client 5 (Some zero_INSData) log_hub = Inr (None, h')"
    by (simp add: PublishINS_def publish_def hub_exec_def log_hub_facts) (simp add: log_client_def)
  with latest_reads_back [OF log_client_ok] show ?thesis by blast
qed

end
