(* ===== verification/Gateway.thy ===== *)
theory Gateway
  imports TCP_Server Sonar_Receiver Beam_Processor Filler_Correct Reorganizer_Correct Redis_Correct
begin

text \<open>
  \<open>cmd/gateway/main.go\<close>: how the gateway wires its parts. A ping that a receiver decodes is
  published and handed to the beam processor; the frame it makes is submitted to the reorganizer,
  which evicts, reorders and fills voids; ready frames are published. The handlers work on one
  state that they share. What the network, Redis and the clocks answer are parameters; the
  statistics that are logged are in \<open>Gateway_Metrics\<close>.
\<close>

section \<open>Configuration\<close>

record GatewayConfig =
  cf_SonarBuffer :: int
  cf_SonarEnableTcp :: bool
  cf_RedisAddr :: string
  cf_RedisPassword :: string
  cf_RedisDB :: int
  cf_MaxCacheFrames :: int
  cf_SSPProfile :: "SoundSpeedProfile option"
  cf_DebugLogging :: bool
  cf_VoidFillEnable :: bool
  cf_VoidFillCellSize :: real
  cf_VoidFillEveryNFrames :: int
  cf_VoidFillSearchRadius :: int
  cf_VoidFillVariogramNugget :: real
  cf_VoidFillVariogramSill :: real
  cf_VoidFillVariogramRange :: real
  cf_VoidFillAnisoAngle :: real
  cf_VoidFillAnisoRatio :: real
  cf_VoidFillMaxInterpolateTick :: int

text \<open>The literal of \<open>main\<close>, as far as the model reads it.\<close>

definition main_config :: GatewayConfig where
  "main_config =
     \<lparr>cf_SonarBuffer = 32 * 1024 * 1024, cf_SonarEnableTcp = True, cf_RedisAddr = ''127.0.0.1:6379'',
      cf_RedisPassword = [], cf_RedisDB = 0, cf_MaxCacheFrames = 128, cf_SSPProfile = None, cf_DebugLogging = False,
      cf_VoidFillEnable = True, cf_VoidFillCellSize = 1 / 2, cf_VoidFillEveryNFrames = 16,
      cf_VoidFillSearchRadius = 4, cf_VoidFillVariogramNugget = 1 / 100, cf_VoidFillVariogramSill = 1,
      cf_VoidFillVariogramRange = 50, cf_VoidFillAnisoAngle = 0, cf_VoidFillAnisoRatio = 1,
      cf_VoidFillMaxInterpolateTick = 256\<rparr>"

definition gateway_filler_config :: "GatewayConfig \<Rightarrow> FillerConfig" where
  "gateway_filler_config c =
     (let f0 = DefaultFillerConfig;
          f1 = (if cf_VoidFillCellSize c > 0 then f0\<lparr>fc_CellSize := cf_VoidFillCellSize c\<rparr> else f0);
          f2 = (if cf_VoidFillSearchRadius c > 0 then f1\<lparr>fc_SearchRadius := cf_VoidFillSearchRadius c\<rparr> else f1);
          f3 = (if cf_VoidFillVariogramNugget c > 0 then f2\<lparr>fc_VariogramNugget := cf_VoidFillVariogramNugget c\<rparr> else f2);
          f4 = (if cf_VoidFillVariogramSill c > 0 then f3\<lparr>fc_VariogramSill := cf_VoidFillVariogramSill c\<rparr> else f3);
          f5 = (if cf_VoidFillVariogramRange c > 0 then f4\<lparr>fc_VariogramRange := cf_VoidFillVariogramRange c\<rparr> else f4);
          f6 = f5\<lparr>fc_VariogramAnisoAngle := cf_VoidFillAnisoAngle c, fc_VariogramAnisoRatio := cf_VoidFillAnisoRatio c\<rparr>
      in if cf_VoidFillMaxInterpolateTick c > 0
         then f6\<lparr>fc_MaxInterpolatePerTick := cf_VoidFillMaxInterpolateTick c\<rparr> else f6)"

definition default_speed :: "nat \<Rightarrow> real" where
  "default_speed i =
     (let speed = 1530 - 3 / 2 * real i + 5 / 10000 * real (i * i) in
      if speed < 1450 then 1450 + 1 / 10 * real i else speed)"

definition buildDefaultSSP :: "u64 \<Rightarrow> SoundSpeedProfile" where
  "buildDefaultSSP now =
     \<lparr>s_Entries = map (\<lambda>i. \<lparr>s_DepthM = real i * 100, s_SoundSpeedMs = default_speed i\<rparr>) [0..<20],
      s_TimestampUS = now\<rparr>"

definition modelName :: "VariogramModel \<Rightarrow> string" where
  "modelName m =
     (if m = ModelSpherical then ''Spherical''
      else if m = ModelExponential then ''Exponential''
      else if m = ModelGaussian then ''Gaussian''
      else ''Unknown'')"

section \<open>The shared state of the handlers\<close>

text \<open>
  The environment: the Redis client, the seconds the hub reads from the clock, one per
  publication, and the clock of the filler.
\<close>

record 'c gateway_env =
  ge_client :: "'c redis_client"
  ge_seconds :: "nat \<Rightarrow> nat"
  ge_clock :: clock

text \<open>What ready frames and void filling work on; \<open>go_ticks\<close> counts the readings of the clock.\<close>

record 'c gw_outer =
  go_hub :: "('c, unit) hub"
  go_filler :: "void_filler option"
  go_ticks :: nat

definition publish_frame :: "'c gateway_env \<Rightarrow> PointCloudFrame \<Rightarrow> 'c gw_outer \<Rightarrow> 'c gw_outer go" where
  "publish_frame env f o1 =
     (case PublishFrame (ge_client env) (ge_seconds env (go_ticks o1)) (Some f) (go_hub o1) of
        Inl s \<Rightarrow> Inl s
      | Inr (_, h) \<Rightarrow> Inr (o1\<lparr>go_hub := h, go_ticks := go_ticks o1 + 1\<rparr>))"

text \<open>The ready handler: every frame is published, errors are only logged.\<close>

fun publish_frames :: "'c gateway_env \<Rightarrow> PointCloudFrame list \<Rightarrow> 'c gw_outer \<Rightarrow> 'c gw_outer go" where
  "publish_frames env [] o1 = Inr o1"
| "publish_frames env (f # fs) o1 =
     (case publish_frame env f o1 of Inl s \<Rightarrow> Inl s | Inr o2 \<Rightarrow> publish_frames env fs o2)"

text \<open>The callback that \<open>EnableVoidFill\<close> installs, on the filler in the state.\<close>

definition fill_callback :: "'c gateway_env \<Rightarrow> ('c gw_outer, PatchFillResult) fill" where
  "fill_callback env frames o1 =
     (case go_filler o1 of
        None \<Rightarrow> Inl Panic
      | Some vf \<Rightarrow>
          (case FillFrames (ge_clock env) frames vf of
             Inl s \<Rightarrow> Inl s
           | Inr (Inl e, vf1) \<Rightarrow> Inr (None, o1\<lparr>go_filler := Some vf1\<rparr>)
           | Inr (Inr (filled, results), vf1) \<Rightarrow> Inr (Some (filled, results), o1\<lparr>go_filler := Some vf1\<rparr>)))"

text \<open>The reorganizer's wiring in \<open>Init\<close>, with the filler when void filling is enabled.\<close>

definition wire_reorganizer ::
    "'c gateway_env \<Rightarrow> GatewayConfig \<Rightarrow>
     (PatchFillResult reorganizer \<times> ('c gw_outer, PatchFillResult) reorg_hooks \<times> void_filler option) go" where
  "wire_reorganizer env c =
     (case NewReorganizer (cf_MaxCacheFrames c) of
        Inl s \<Rightarrow> Inl s
      | Inr r \<Rightarrow>
          (let hooks = SetReadyHandler (publish_frames env) \<lparr>onVoidFill = None, onReadyFrames = None\<rparr> in
           if cf_VoidFillEnable c then
             (case EnableVoidFill (Some (fill_callback env)) (cf_VoidFillEveryNFrames c) r hooks of
                Inl s \<Rightarrow> Inl s
              | Inr (r1, hooks1) \<Rightarrow> Inr (r1, hooks1, Some (NewVoidFiller (gateway_filler_config c))))
           else Inr (r, hooks, None)))"

section \<open>From pings to frames\<close>

text \<open>
  The frame handler submits a frame under a new address. A submission that would not return blocks
  the caller; \<open>SubmitFrame_bounded\<close> shows that this does not happen.
\<close>

record 'c frame_world =
  fw_reorg :: "PatchFillResult reorganizer"
  fw_outer :: "'c gw_outer"
  fw_next :: nat

definition frame_handler ::
    "('c gw_outer, PatchFillResult) reorg_hooks \<Rightarrow> PointCloudFrame \<Rightarrow> 'c frame_world \<Rightarrow> 'c frame_world go" where
  "frame_handler hooks frame w =
     (case SubmitFrame hooks (Some \<lparr>fr_addr = fw_next w, fr_frame = frame\<rparr>) (fw_reorg w) of
        None \<Rightarrow> Inl Deadlock
      | Some (Inl s) \<Rightarrow> Inl s
      | Some (Inr r) \<Rightarrow> Inr (w\<lparr>fw_reorg := r, fw_next := fw_next w + 1\<rparr>))"

text \<open>What the ping handlers of both receivers work on.\<close>

record 'c ping_world =
  pw_ins :: "'c gw_outer ins_reader"
  pw_beam :: "'c frame_world beam_processor"
  pw_frames :: "'c frame_world"

definition ping_handler :: "'c gateway_env \<Rightarrow> SonarPing \<Rightarrow> 'c ping_world \<Rightarrow> 'c ping_world go" where
  "ping_handler env ping w =
     (let o1 = fw_outer (pw_frames w) in
      case PublishPing (ge_client env) (ge_seconds env (go_ticks o1)) (Some ping) (go_hub o1) of
        Inl s \<Rightarrow> Inl s
      | Inr (_, h) \<Rightarrow>
          (let fw = (pw_frames w)\<lparr>fw_outer := o1\<lparr>go_hub := h, go_ticks := go_ticks o1 + 1\<rparr>\<rparr> in
           case ProcessPing (Latest (pw_ins w)) (Some ping) (pw_beam w, fw) of
             Inl s \<Rightarrow> Inl s
           | Inr (_, p, fw1) \<Rightarrow> Inr (w\<lparr>pw_beam := p, pw_frames := fw1\<rparr>)))"

text \<open>The data handler of the INS reader.\<close>

definition ins_data_handler :: "'c gateway_env \<Rightarrow> INSData \<Rightarrow> 'c gw_outer \<Rightarrow> 'c gw_outer go" where
  "ins_data_handler env d o1 =
     (case PublishINS (ge_client env) (ge_seconds env (go_ticks o1)) (Some d) (go_hub o1) of
        Inl s \<Rightarrow> Inl s
      | Inr (_, h) \<Rightarrow> Inr (o1\<lparr>go_hub := h, go_ticks := go_ticks o1 + 1\<rparr>))"

text \<open>The handler of profiles that arrive over Redis.\<close>

definition ssp_handler :: "SoundSpeedProfile \<Rightarrow> 'c ping_world \<Rightarrow> 'c ping_world go" where
  "ssp_handler ssp w = Inr (w\<lparr>pw_beam := beam_UpdateProfile (Some ssp) (pw_beam w)\<rparr>)"

section \<open>Init\<close>

text \<open>\<open>Init\<close> up to the receivers: the hub, the profile, the reader, the processor and the reorganizer.\<close>

definition gateway_hub :: "'c gateway_env \<Rightarrow> GatewayConfig \<Rightarrow> ('c, unit) hub" where
  "gateway_hub env c =
     snd (Connect (ge_client env) (NewHub (DefaultOptions\<lparr>ho_Addr := cf_RedisAddr c, ho_Password := cf_RedisPassword c,
       ho_DB := cf_RedisDB c\<rparr>)))"

definition choose_profile :: "'c gateway_env \<Rightarrow> u64 \<Rightarrow> GatewayConfig \<Rightarrow> ('c, unit) hub \<Rightarrow> SoundSpeedProfile go" where
  "choose_profile env nowUS c h =
     (let own = (case cf_SSPProfile c of None \<Rightarrow> buildDefaultSSP nowUS | Some p \<Rightarrow> p) in
      case GetLatestSSP (ge_client env) h of
        Inl s \<Rightarrow> Inl s
      | Inr (Inr (Some p)) \<Rightarrow> Inr p
      | Inr _ \<Rightarrow> Inr own)"

datatype init_error = NoINSAddress | NoSonarReceiver

record 'c gateway =
  g_pings :: "'c ping_world"
  g_hooks :: "('c gw_outer, PatchFillResult) reorg_hooks"
  g_sonarRx :: "'c ping_world sonar_receiver"
  g_sonarTcp :: "'c ping_world tcp_server option"
  g_ssp :: "('c, 'c ping_world) hub"

text \<open>
  The hub's profile handler works on a state that contains the hub, so what the hub's listener
  sees, its options and that handler, is a hub of its own, \<open>g_ssp\<close>.
  \<open>insOk\<close>, \<open>ifaceOk\<close> and \<open>groupOk\<close>: whether the addresses and the interface resolve. The profile is
  published at the end, after which the gateway is ready to start.
\<close>

definition Init ::
    "'c gateway_env \<Rightarrow> bool \<Rightarrow> bool \<Rightarrow> bool \<Rightarrow> u64 \<Rightarrow> GatewayConfig \<Rightarrow> (init_error + 'c gateway) go" where
  "Init env insOk ifaceOk groupOk nowUS c =
     (let hub0 = gateway_hub env c in
      case NewINSReader insOk of
        None \<Rightarrow> Inr (Inl NoINSAddress)
      | Some ir0 \<Rightarrow>
          (case choose_profile env nowUS c hub0 of
             Inl s \<Rightarrow> Inl s
           | Inr prof \<Rightarrow>
               (case wire_reorganizer env c of
                  Inl s \<Rightarrow> Inl s
                | Inr (r, hooks, filler) \<Rightarrow>
                    (let beam = beam_SetFrameHandler (frame_handler hooks) (NewProcessor (Some prof)) in
                     case NewSonarReceiver ifaceOk groupOk (cf_SonarBuffer c) of
                       Inl e \<Rightarrow> Inr (Inl NoSonarReceiver)
                     | Inr rx0 \<Rightarrow>
                         (case receiver_SetPingHandler (ping_handler env) (receiver_SetDebug (cf_DebugLogging c) rx0) of
                            Inl s \<Rightarrow> Inl s
                          | Inr rx \<Rightarrow>
                              (case reader_SetDataHandler (ins_data_handler env) (reader_SetDebug (cf_DebugLogging c) ir0) of
                                 Inl s \<Rightarrow> Inl s
                               | Inr ir \<Rightarrow>
                                   (case PublishSSP (ge_client env) (Some prof) hub0 of
                                      Inl s \<Rightarrow> Inl s
                                    | Inr (_, hub1) \<Rightarrow>
                                        (let w = \<lparr>pw_ins = ir, pw_beam = beam,
                                                  pw_frames = \<lparr>fw_reorg = r,
                                                    fw_outer = \<lparr>go_hub = hub1, go_filler = filler, go_ticks = 0\<rparr>,
                                                    fw_next = 0\<rparr>\<rparr>;
                                             srv = (if cf_SonarEnableTcp c then
                                                      Some (tcp_SetPingHandler (ping_handler env)
                                                        (tcp_SetDebug (cf_DebugLogging c)
                                                          (NewSonarTCPServer 8 (cf_SonarBuffer c) w)))
                                                    else None)
                                         in Inr (Inr \<lparr>g_pings = w, g_hooks = hooks, g_sonarRx = rx,
                                                      g_sonarTcp = srv,
                                                      g_ssp = SetSSPUpdateHandler ssp_handler (NewHub (h_opts hub0))\<rparr>)))))))))"

section \<open>Start and stop\<close>

text \<open>What the listener of the hub does with messages on the profile channel.\<close>

definition receive_ssp :: "redis_val list \<Rightarrow> 'c gateway \<Rightarrow> 'c gateway go" where
  "receive_ssp msgs g =
     (case listenSSP msgs (g_ssp g) (g_pings g) of Inl s \<Rightarrow> Inl s | Inr w \<Rightarrow> Inr (g\<lparr>g_pings := w\<rparr>))"

datatype gateway_start_error = StartINS reader_error | StartSonar receiver_start_error | StartTcp start_error

text \<open>\<open>Start\<close>: the parts one after the other; what is started stays so when a later part fails.\<close>

definition gateway_Start ::
    "bool \<Rightarrow> bool \<Rightarrow> nat option \<Rightarrow> 'c gateway \<Rightarrow> gateway_start_error option \<times> 'c gateway" where
  "gateway_Start insListens rxListens tcpListens g =
     (case reader_Start insListens (pw_ins (g_pings g)) of
        (Some e, ir) \<Rightarrow> (Some (StartINS e), g\<lparr>g_pings := (g_pings g)\<lparr>pw_ins := ir\<rparr>\<rparr>)
      | (None, ir) \<Rightarrow>
          (let g1 = g\<lparr>g_pings := (g_pings g)\<lparr>pw_ins := ir\<rparr>\<rparr> in
           case receiver_Start rxListens (g_sonarRx g1) of
             (Some e, rx) \<Rightarrow> (Some (StartSonar e), g1\<lparr>g_sonarRx := rx\<rparr>)
           | (None, rx) \<Rightarrow>
               (let g2 = g1\<lparr>g_sonarRx := rx\<rparr> in
                case g_sonarTcp g2 of
                  None \<Rightarrow> (None, g2)
                | Some srv \<Rightarrow>
                    (case tcp_Start tcpListens srv of
                       (Some e, srv1) \<Rightarrow> (Some (StartTcp e), g2\<lparr>g_sonarTcp := Some srv1\<rparr>)
                     | (None, srv1) \<Rightarrow> (None, g2\<lparr>g_sonarTcp := Some srv1\<rparr>)))))"

text \<open>
  \<open>Stop\<close> after the TCP server has stopped (\<open>tcp_step\<close> models its part): the receivers, the flush of
  the reorganizer, the hub.
\<close>

definition stop_pipeline :: "'c gateway \<Rightarrow> 'c gateway go" where
  "stop_pipeline g =
     (case receiver_Stop (g_sonarRx g) of
        Inl s \<Rightarrow> Inl s
      | Inr rx \<Rightarrow>
          (let g1 = g\<lparr>g_sonarRx := rx, g_pings := (g_pings g)\<lparr>pw_ins := reader_Stop (pw_ins (g_pings g))\<rparr>\<rparr>;
               fw = pw_frames (g_pings g1)
           in case Flush (g_hooks g1) (fw_reorg fw) (fw_outer fw) of
                Inl s \<Rightarrow> Inl s
              | Inr (_, r, o1) \<Rightarrow>
                  Inr (g1\<lparr>g_pings := (g_pings g1)\<lparr>pw_frames :=
                         fw\<lparr>fw_reorg := r, fw_outer := o1\<lparr>go_hub := Disconnect (go_hub o1)\<rparr>\<rparr>\<rparr>\<rparr>)))"

end
