(* ===== verification/Gateway_Correct.thy ===== *)
theory Gateway_Correct
  imports Gateway
begin

text \<open>
  Properties of the whole gateway: what bytes on its sockets become in the reorganizer, and what
  happens to the cached frames when it stops.
\<close>

section \<open>Publishing never blocks\<close>

lemma publish_total:
  assumes "h_client h \<noteq> None"
  shows "\<exists>e h'. publish cl cmds cnt h = Inr (e, h') \<and> h_client h' \<noteq> None"
  using assms by (auto simp: publish_def hub_exec_def split: prod.splits)

lemma publications_total:
  assumes "h_client h \<noteq> None"
  shows "\<exists>e h'. PublishPing cl now p h = Inr (e, h') \<and> h_client h' \<noteq> None"
    and "\<exists>e h'. PublishFrame cl now f h = Inr (e, h') \<and> h_client h' \<noteq> None"
    and "\<exists>e h'. PublishINS cl now d h = Inr (e, h') \<and> h_client h' \<noteq> None"
    and "\<exists>e h'. PublishSSP cl s h = Inr (e, h') \<and> h_client h' \<noteq> None"
proof -
  note total = publish_total [OF assms]
  show "\<exists>e h'. PublishPing cl now p h = Inr (e, h') \<and> h_client h' \<noteq> None"
    unfolding PublishPing_def Let_def by (cases p) (use assms in simp, simp only: option.case total)
  show "\<exists>e h'. PublishFrame cl now f h = Inr (e, h') \<and> h_client h' \<noteq> None"
  proof (cases f)
    case (Some x)
    show ?thesis
      unfolding PublishFrame_def Some option.case using assms total by (cases "f_NumPoints x = 0") simp_all
  qed (use assms in \<open>simp add: PublishFrame_def\<close>)
  show "\<exists>e h'. PublishINS cl now d h = Inr (e, h') \<and> h_client h' \<noteq> None"
    unfolding PublishINS_def by (cases d) (use assms in simp, simp only: option.case total)
  show "\<exists>e h'. PublishSSP cl s h = Inr (e, h') \<and> h_client h' \<noteq> None"
    unfolding PublishSSP_def Let_def by (cases s) (use assms in simp, simp only: option.case total)
qed

section \<open>One ping\<close>

lemma ping_handler_effect:
  assumes "h_client (go_hub (fw_outer (pw_frames w))) \<noteq> None" and "Latest (pw_ins w) = Inr (Some ins)"
    and "p_Beams ping \<noteq> []" and "bp_onFrame (pw_beam w) = Some (frame_handler hooks)"
    and "SubmitFrame hooks (Some \<lparr>fr_addr = fw_next (pw_frames w),
           fr_frame = ping_frame_points (bp_rayTracer (pw_beam w)) ins ping\<rparr>) (fw_reorg (pw_frames w)) = Some (Inr r')"
  shows "\<exists>w'. ping_handler env ping w = Inr w' \<and> fw_reorg (pw_frames w') = r'
           \<and> fw_next (pw_frames w') = fw_next (pw_frames w) + 1 \<and> pw_ins w' = pw_ins w
           \<and> bp_rayTracer (pw_beam w') = bp_rayTracer (pw_beam w) \<and> bp_onFrame (pw_beam w') = bp_onFrame (pw_beam w)
           \<and> h_client (go_hub (fw_outer (pw_frames w'))) \<noteq> None
           \<and> go_filler (fw_outer (pw_frames w')) = go_filler (fw_outer (pw_frames w))"
proof -
  let ?o = "fw_outer (pw_frames w)"
  obtain e h' where "PublishPing (ge_client env) (ge_seconds env (go_ticks ?o)) (Some ping) (go_hub ?o) = Inr (e, h')"
    "h_client h' \<noteq> None"
    using publications_total(1) [OF assms(1)] by blast
  then show ?thesis
    using assms(2-5) by (simp add: ping_handler_def ProcessPing_def frame_handler_def Let_def)
qed

text \<open>The frames that pings become, with their addresses.\<close>

fun ping_refs :: "nat \<Rightarrow> RayTracer \<Rightarrow> INSData \<Rightarrow> SonarPing list \<Rightarrow> frame_ref list" where
  "ping_refs k rt ins [] = []"
| "ping_refs k rt ins (p # ps) = \<lparr>fr_addr = k, fr_frame = ping_frame_points rt ins p\<rparr> # ping_refs (Suc k) rt ins ps"

lemma run_ping_handler:
  assumes "submit_all hooks (ping_refs (fw_next (pw_frames w)) (bp_rayTracer (pw_beam w)) ins ps) (fw_reorg (pw_frames w))
             = Some (Inr r')"
    and "h_client (go_hub (fw_outer (pw_frames w))) \<noteq> None" and "Latest (pw_ins w) = Inr (Some ins)"
    and "\<forall>p \<in> set ps. p_Beams p \<noteq> []" and "bp_onFrame (pw_beam w) = Some (frame_handler hooks)"
  shows "\<exists>w'. run_pings (ping_handler env) ps w = Inr w' \<and> fw_reorg (pw_frames w') = r'
           \<and> h_client (go_hub (fw_outer (pw_frames w'))) \<noteq> None
           \<and> go_filler (fw_outer (pw_frames w')) = go_filler (fw_outer (pw_frames w))"
  using assms
proof (induction ps arbitrary: w)
  case Nil
  then show ?case by simp
next
  case (Cons p ps)
  obtain r1 where r1: "SubmitFrame hooks (Some \<lparr>fr_addr = fw_next (pw_frames w),
      fr_frame = ping_frame_points (bp_rayTracer (pw_beam w)) ins p\<rparr>) (fw_reorg (pw_frames w)) = Some (Inr r1)"
    and rest: "submit_all hooks (ping_refs (Suc (fw_next (pw_frames w))) (bp_rayTracer (pw_beam w)) ins ps) r1
      = Some (Inr r')"
    using Cons.prems(1) by (auto split: option.splits sum.splits)
  obtain w1 where w1: "ping_handler env p w = Inr w1" "fw_reorg (pw_frames w1) = r1"
    "fw_next (pw_frames w1) = fw_next (pw_frames w) + 1" "pw_ins w1 = pw_ins w"
    "bp_rayTracer (pw_beam w1) = bp_rayTracer (pw_beam w)" "bp_onFrame (pw_beam w1) = bp_onFrame (pw_beam w)"
    "h_client (go_hub (fw_outer (pw_frames w1))) \<noteq> None"
    "go_filler (fw_outer (pw_frames w1)) = go_filler (fw_outer (pw_frames w))"
    using ping_handler_effect [OF Cons.prems(2,3) _ Cons.prems(5) r1, of env] Cons.prems(4)
    by (auto simp del: not_None_eq)
  have "\<exists>w'. run_pings (ping_handler env) ps w1 = Inr w' \<and> fw_reorg (pw_frames w') = r'
      \<and> h_client (go_hub (fw_outer (pw_frames w'))) \<noteq> None
      \<and> go_filler (fw_outer (pw_frames w')) = go_filler (fw_outer (pw_frames w1))"
    using Cons.prems(3-5) w1(2-7) rest by (intro Cons.IH) auto
  with w1(1,8) show ?case by simp
qed

lemma ping_refs_facts:
  "map fr_frame (ping_refs k rt ins ps) = map (ping_frame_points rt ins) ps"
  "map ref_ping (ping_refs k rt ins ps) = map p_PingCounter ps"
  "map fr_addr (ping_refs k rt ins ps) = [k..<k + length ps]"
  "length (ping_refs k rt ins ps) = length ps"
  by (induction ps arbitrary: k) (simp_all add: ref_ping_def frame_points upt_conv_Cons del: upt_Suc)

lemma ping_refs_distinct:
  assumes "distinct (map p_PingCounter ps)" and "\<forall>p \<in> set ps. p_Beams p \<noteq> []"
  shows "distinct_frames (ping_refs k rt ins ps)"
proof -
  have "\<forall>x \<in> set (map fr_frame (ping_refs k rt ins ps)). f_NumPoints x \<noteq> 0"
    unfolding ping_refs_facts using assms(2) by (auto simp: frame_points)
  then have "\<forall>f \<in> set (ping_refs k rt ins ps). f_NumPoints (fr_frame f) \<noteq> 0"
    unfolding set_map by blast
  with assms(1) show ?thesis
    by (simp add: distinct_frames_def ping_refs_facts)
qed

section \<open>A new gateway\<close>

lemma gateway_hub_client: "h_client (gateway_hub env c) \<noteq> None"
  by (auto simp: gateway_hub_def Connect_def NewHub_def split: prod.splits)

lemma Init_parts:
  assumes "Init env insOk ifaceOk groupOk nowUS c = Inr (Inr g)"
  obtains ir0 prof r filler rx0 e hub1 where "NewINSReader insOk = Some ir0"
    and "wire_reorganizer env c = Inr (r, g_hooks g, filler)" and "NewSonarReceiver ifaceOk groupOk (cf_SonarBuffer c) = Inr rx0"
    and "receiver_SetPingHandler (ping_handler env) (receiver_SetDebug (cf_DebugLogging c) rx0) = Inr (g_sonarRx g)"
    and "reader_SetDataHandler (ins_data_handler env) (reader_SetDebug (cf_DebugLogging c) ir0) = Inr (pw_ins (g_pings g))"
    and "PublishSSP (ge_client env) (Some prof) (gateway_hub env c) = Inr (e, hub1)"
    and "pw_beam (g_pings g) = beam_SetFrameHandler (frame_handler (g_hooks g)) (NewProcessor (Some prof))"
    and "pw_frames (g_pings g) = \<lparr>fw_reorg = r, fw_outer = \<lparr>go_hub = hub1, go_filler = filler, go_ticks = 0\<rparr>, fw_next = 0\<rparr>"
  using assms by (auto simp: Init_def Let_def split: option.splits sum.splits prod.splits)

lemma wire_reorganizer_facts:
  assumes "wire_reorganizer env c = Inr (r, hooks, filler)"
  shows "0 \<le> cf_MaxCacheFrames c"
    and "\<exists>auto every. r = (empty_reorg (cf_MaxCacheFrames c))\<lparr>rz_autoFillEnabled := auto, rz_fillEveryNFrames := every\<rparr>"
    and "filler = (if cf_VoidFillEnable c then Some (NewVoidFiller (gateway_filler_config c)) else None)"
    and "onReadyFrames hooks = Some (publish_frames env)"
    and "rz_autoFillEnabled r = cf_VoidFillEnable c"
    and "onVoidFill hooks = (if cf_VoidFillEnable c then Some (fill_callback env) else None)"
    and "cf_VoidFillEnable c \<Longrightarrow> 0 < cf_VoidFillEveryNFrames c \<Longrightarrow> rz_fillEveryNFrames r = cf_VoidFillEveryNFrames c"
proof -
  have n: "0 \<le> cf_MaxCacheFrames c"
    using assms by (auto simp: wire_reorganizer_def NewReorganizer_def split: if_splits)
  have eta: "empty_reorg n = (empty_reorg n)\<lparr>rz_autoFillEnabled := False, rz_fillEveryNFrames := 16\<rparr>" for n
    by (simp add: empty_reorg_def)
  show "0 \<le> cf_MaxCacheFrames c" by (rule n)
  show "\<exists>auto every. r = (empty_reorg (cf_MaxCacheFrames c))\<lparr>rz_autoFillEnabled := auto, rz_fillEveryNFrames := every\<rparr>"
    and "filler = (if cf_VoidFillEnable c then Some (NewVoidFiller (gateway_filler_config c)) else None)"
    and "onReadyFrames hooks = Some (publish_frames env)"
    and "rz_autoFillEnabled r = cf_VoidFillEnable c"
    and "onVoidFill hooks = (if cf_VoidFillEnable c then Some (fill_callback env) else None)"
    and "cf_VoidFillEnable c \<Longrightarrow> 0 < cf_VoidFillEveryNFrames c \<Longrightarrow> rz_fillEveryNFrames r = cf_VoidFillEveryNFrames c"
    using assms eta unfolding wire_reorganizer_def NewReorganizer_empty [OF n] sum.case Let_def
    by (auto simp: EnableVoidFill_def rz_lock_def rz_unlock_def SetReadyHandler_def Let_def empty_reorg_def split: if_splits)
qed

lemma Init_facts:
  assumes "Init env insOk ifaceOk groupOk nowUS c = Inr (Inr g)"
  shows "reorg_holds (fw_reorg (pw_frames (g_pings g))) []" and "\<not> rz_mu (fw_reorg (pw_frames (g_pings g)))"
    and "rz_maxCacheFrames (fw_reorg (pw_frames (g_pings g))) = cf_MaxCacheFrames c"
    and "h_client (go_hub (fw_outer (pw_frames (g_pings g)))) \<noteq> None"
    and "bp_onFrame (pw_beam (g_pings g)) = Some (frame_handler (g_hooks g))"
proof -
  obtain ir0 prof r filler rx0 e hub1 where parts: "wire_reorganizer env c = Inr (r, g_hooks g, filler)"
    "PublishSSP (ge_client env) (Some prof) (gateway_hub env c) = Inr (e, hub1)"
    "pw_beam (g_pings g) = beam_SetFrameHandler (frame_handler (g_hooks g)) (NewProcessor (Some prof))"
    "pw_frames (g_pings g) = \<lparr>fw_reorg = r, fw_outer = \<lparr>go_hub = hub1, go_filler = filler, go_ticks = 0\<rparr>, fw_next = 0\<rparr>"
    by (rule Init_parts [OF assms])
  note wire = wire_reorganizer_facts [OF parts(1)]
  obtain auto every where r: "r = (empty_reorg (cf_MaxCacheFrames c))\<lparr>rz_autoFillEnabled := auto, rz_fillEveryNFrames := every\<rparr>"
    using wire(2) by blast
  have "reorg_holds r [] = reorg_holds (empty_reorg (cf_MaxCacheFrames c) :: PatchFillResult reorganizer) []"
    by (rule reorg_holds_cong) (simp_all add: r)
  then show "reorg_holds (fw_reorg (pw_frames (g_pings g))) []"
    using empty_reorg_holds [OF wire(1)] by (simp add: parts(4))
  show "\<not> rz_mu (fw_reorg (pw_frames (g_pings g)))"
    "rz_maxCacheFrames (fw_reorg (pw_frames (g_pings g))) = cf_MaxCacheFrames c"
    "bp_onFrame (pw_beam (g_pings g)) = Some (frame_handler (g_hooks g))"
    by (simp_all add: parts(3,4) r empty_reorg_def beam_SetFrameHandler_def)
  show "h_client (go_hub (fw_outer (pw_frames (g_pings g)))) \<noteq> None"
    using publications_total(4) [OF gateway_hub_client, of "ge_client env" "Some prof" env c] parts(2)
    by (auto simp: parts(4) simp del: not_None_eq)
qed

lemma Init_fill:
  assumes "Init env insOk ifaceOk groupOk nowUS c = Inr (Inr g)"
  shows "rz_autoFillEnabled (fw_reorg (pw_frames (g_pings g))) = cf_VoidFillEnable c"
    and "onReadyFrames (g_hooks g) = Some (publish_frames env)"
    and "onVoidFill (g_hooks g) = (if cf_VoidFillEnable c then Some (fill_callback env) else None)"
    and "go_filler (fw_outer (pw_frames (g_pings g)))
           = (if cf_VoidFillEnable c then Some (NewVoidFiller (gateway_filler_config c)) else None)"
    and "rz_framesSinceFill (fw_reorg (pw_frames (g_pings g))) = 0"
    and "cf_VoidFillEnable c \<Longrightarrow> 0 < cf_VoidFillEveryNFrames c \<Longrightarrow>
           rz_fillEveryNFrames (fw_reorg (pw_frames (g_pings g))) = cf_VoidFillEveryNFrames c"
proof -
  obtain r filler rx0 e hub1 where parts: "wire_reorganizer env c = Inr (r, g_hooks g, filler)"
    "pw_frames (g_pings g) = \<lparr>fw_reorg = r, fw_outer = \<lparr>go_hub = hub1, go_filler = filler, go_ticks = 0\<rparr>, fw_next = 0\<rparr>"
    by (rule Init_parts [OF assms])
  note wire = wire_reorganizer_facts [OF parts(1)]
  show "rz_autoFillEnabled (fw_reorg (pw_frames (g_pings g))) = cf_VoidFillEnable c"
    "onReadyFrames (g_hooks g) = Some (publish_frames env)"
    "onVoidFill (g_hooks g) = (if cf_VoidFillEnable c then Some (fill_callback env) else None)"
    "go_filler (fw_outer (pw_frames (g_pings g)))
       = (if cf_VoidFillEnable c then Some (NewVoidFiller (gateway_filler_config c)) else None)"
    "cf_VoidFillEnable c \<Longrightarrow> 0 < cf_VoidFillEveryNFrames c \<Longrightarrow>
       rz_fillEveryNFrames (fw_reorg (pw_frames (g_pings g))) = cf_VoidFillEveryNFrames c"
    using wire(3-7) by (simp_all add: parts(2))
  show "rz_framesSinceFill (fw_reorg (pw_frames (g_pings g))) = 0"
    using wire(2) by (auto simp: parts(2) empty_reorg_def)
qed

lemma Init_receiver:
  assumes "Init env insOk ifaceOk groupOk nowUS c = Inr (Inr g)"
  shows "\<exists>d. sr_asm (g_sonarRx g) = safe_SetDebug d (NewSlidingWindowAssembler (int MaxFrameSize))"
    and "sr_sp (g_sonarRx g) = new_processor" and "sr_onPing (g_sonarRx g) = Some (ping_handler env)"
    and "\<not> sr_running (g_sonarRx g)" and "sr_useSlidingWindow (g_sonarRx g)" and "\<not> sr_stuck (g_sonarRx g)"
proof -
  obtain rx0 where "NewSonarReceiver ifaceOk groupOk (cf_SonarBuffer c) = Inr rx0"
    "receiver_SetPingHandler (ping_handler env) (receiver_SetDebug (cf_DebugLogging c) rx0) = Inr (g_sonarRx g)"
    by (rule Init_parts [OF assms])
  note new = new_receiver_facts [OF this]
  from new show "\<exists>d. sr_asm (g_sonarRx g) = safe_SetDebug d (NewSlidingWindowAssembler (int MaxFrameSize))"
    "sr_sp (g_sonarRx g) = new_processor" "sr_onPing (g_sonarRx g) = Some (ping_handler env)"
    "\<not> sr_running (g_sonarRx g)" "sr_useSlidingWindow (g_sonarRx g)" "\<not> sr_stuck (g_sonarRx g)"
    by blast+
qed

lemma Init_reader:
  assumes "Init env insOk ifaceOk groupOk nowUS c = Inr (Inr g)"
  shows "ins_inv (ir_processor (pw_ins (g_pings g)))" and "\<not> n_mu (ir_processor (pw_ins (g_pings g)))"
    and "ins_window (ir_processor (pw_ins (g_pings g))) = []" and "n_latestTS (ir_processor (pw_ins (g_pings g))) = 0"
    and "\<not> ir_mu (pw_ins (g_pings g))" and "ir_hooked (pw_ins (g_pings g))"
    and "ir_onData (pw_ins (g_pings g)) = Some (ins_data_handler env)" and "\<not> ir_running (pw_ins (g_pings g))"
    and "ir_latest (pw_ins (g_pings g)) = None"
proof -
  obtain ir0 where parts: "NewINSReader insOk = Some ir0"
    "reader_SetDataHandler (ins_data_handler env) (reader_SetDebug (cf_DebugLogging c) ir0) = Inr (pw_ins (g_pings g))"
    by (rule Init_parts [OF assms])
  have proc: "ins_inv (ins_SetDebug b NewINSSafeProcessor)" "ins_window (ins_SetDebug b NewINSSafeProcessor) = []" for b
    using ins_inv_new ins_new_facts by (simp_all add: ins_SetDebug_def ins_inv_def ins_window_def)
  have ins: "pw_ins (g_pings g) = \<lparr>ir_running = False, ir_latest = None, ir_mu = False, ir_onData = Some (ins_data_handler env),
      ir_hooked = True, ir_processor = ins_SetDebug (cf_DebugLogging c) NewINSSafeProcessor,
      ir_debugLog = cf_DebugLogging c, ir_open = False\<rparr>"
    using parts by (auto simp: NewINSReader_def reader_SetDataHandler_def reader_SetDebug_def SetDataHandler_def ins_lock_def
        ins_SetDebug_def NewINSSafeProcessor_def Let_def split: if_splits)
  show "ins_inv (ir_processor (pw_ins (g_pings g)))" "ins_window (ir_processor (pw_ins (g_pings g))) = []"
    by (simp_all add: ins proc)
  show "\<not> n_mu (ir_processor (pw_ins (g_pings g)))" "n_latestTS (ir_processor (pw_ins (g_pings g))) = 0"
    "\<not> ir_mu (pw_ins (g_pings g))" "ir_hooked (pw_ins (g_pings g))"
    "ir_onData (pw_ins (g_pings g)) = Some (ins_data_handler env)" "\<not> ir_running (pw_ins (g_pings g))"
    "ir_latest (pw_ins (g_pings g)) = None"
    using ins_new_facts by (simp_all add: ins ins_SetDebug_def)
qed

lemma hand_ins_records:
  assumes "h_client (go_hub o1) \<noteq> None"
  shows "\<exists>o2. hand_records (ins_data_handler env) ds o1 = Inr o2 \<and> h_client (go_hub o2) \<noteq> None
           \<and> go_filler o2 = go_filler o1"
  using assms
proof (induction ds arbitrary: o1)
  case (Cons d ds)
  obtain e h where "PublishINS (ge_client env) (ge_seconds env (go_ticks o1)) (Some d) (go_hub o1) = Inr (e, h)"
    "h_client h \<noteq> None"
    using publications_total(3) [OF Cons.prems] by blast
  with Cons.IH [of "o1\<lparr>go_hub := h, go_ticks := go_ticks o1 + 1\<rparr>"] show ?case
    by (simp add: ins_data_handler_def)
qed simp

section \<open>Profiles over Redis\<close>

lemma Init_ssp:
  assumes "Init env insOk ifaceOk groupOk nowUS c = Inr (Inr g)"
  shows "h_onSSPUpdate (g_ssp g) = Some ssp_handler"
  using assms by (auto simp: Init_def Let_def SetSSPUpdateHandler_def split: option.splits sum.splits prod.splits)

text \<open>The profiles among the messages, and what listening to them does.\<close>

fun latest_profile :: "redis_val list \<Rightarrow> SoundSpeedProfile option \<Rightarrow> SoundSpeedProfile option" where
  "latest_profile [] p = p"
| "latest_profile (m # ms) p =
     latest_profile ms (case unmarshal_val unmarshal_ssp m of None \<Rightarrow> p | Some q \<Rightarrow> Some q)"

lemma listen_profiles:
  assumes "h_onSSPUpdate h = Some ssp_handler"
  shows "listenSSP msgs h w = Inr (w\<lparr>pw_beam := beam_UpdateProfile
           (latest_profile msgs (rt_profile (bp_rayTracer (pw_beam w)))) (pw_beam w)\<rparr>)"
proof (induction msgs arbitrary: w)
  case Nil
  then show ?case by (simp add: beam_UpdateProfile_def rt_UpdateProfile_def)
next
  case (Cons m ms)
  show ?case
    using assms Cons.IH
    by (cases "unmarshal_val unmarshal_ssp m")
      (simp_all add: ssp_handler_def beam_UpdateProfile_def rt_UpdateProfile_def)
qed

text \<open>C34. Messages on the profile channel reach the beam processor: payloads that are no profiles are
  skipped, and after any messages the last profile published, in its JSON form, is the one that
  beams are traced with; nothing else of the pipeline changes.\<close>

theorem profile_updates_reach_tracer:
  assumes "Init env insOk ifaceOk groupOk nowUS c = Inr (Inr g)" and "g_ssp g' = g_ssp g"
    and "\<forall>m \<in> set junk. unmarshal_val unmarshal_ssp m = None"
  shows "\<exists>g''. receive_ssp (msgs @ RJson (marshal_ssp p) # junk) g' = Inr g''
           \<and> rt_profile (bp_rayTracer (pw_beam (g_pings g''))) = Some p
           \<and> pw_frames (g_pings g'') = pw_frames (g_pings g') \<and> pw_ins (g_pings g'') = pw_ins (g_pings g')
           \<and> bp_onFrame (pw_beam (g_pings g'')) = bp_onFrame (pw_beam (g_pings g'))"
proof -
  have skip: "latest_profile junk q = q" for q
    using assms(3) by (induction junk) simp_all
  have last: "latest_profile (msgs @ RJson (marshal_ssp p) # junk) q = Some p" for q
    by (induction msgs arbitrary: q) (simp_all add: unmarshal_val_def ssp_round_trip skip)
  have "h_onSSPUpdate (g_ssp g') = Some ssp_handler"
    using Init_ssp [OF assms(1)] assms(2) by simp
  from listen_profiles [OF this, of "msgs @ RJson (marshal_ssp p) # junk" "g_pings g'"] show ?thesis
    unfolding receive_ssp_def last by (simp add: beam_UpdateProfile_def rt_UpdateProfile_def)
qed

section \<open>Traffic\<close>

text \<open>The receive loops of the started gateway: first INS datagrams, then sonar datagrams.\<close>

definition receive_ins :: "(nat \<Rightarrow> u64) \<Rightarrow> byte list list \<Rightarrow> 'c gateway \<Rightarrow> 'c gateway go option" where
  "receive_ins now cs g =
     (let w = g_pings g in
      case reader_receiveLoop now (map Datagram cs) (pw_ins w, fw_outer (pw_frames w)) of
        None \<Rightarrow> None
      | Some (Inl s) \<Rightarrow> Some (Inl s)
      | Some (Inr (ir, o1)) \<Rightarrow>
          Some (Inr (g\<lparr>g_pings := w\<lparr>pw_ins := ir, pw_frames := (pw_frames w)\<lparr>fw_outer := o1\<rparr>\<rparr>\<rparr>)))"

definition receive_sonar :: "byte list list \<Rightarrow> 'c gateway \<Rightarrow> 'c gateway go option" where
  "receive_sonar cs g =
     (case receiver_receiveLoop (map Datagram cs) (g_sonarRx g, g_pings g) of
        None \<Rightarrow> None
      | Some (Inl s) \<Rightarrow> Some (Inl s)
      | Some (Inr (rx, w)) \<Rightarrow> Some (Inr (g\<lparr>g_sonarRx := rx, g_pings := w\<rparr>)))"

definition traffic ::
    "(nat \<Rightarrow> u64) \<Rightarrow> byte list list \<Rightarrow> byte list list \<Rightarrow> 'c gateway \<Rightarrow> 'c gateway go option" where
  "traffic now ics scs g =
     (case receive_ins now ics g of
        None \<Rightarrow> None
      | Some (Inl s) \<Rightarrow> Some (Inl s)
      | Some (Inr g1) \<Rightarrow> receive_sonar scs g1)"

lemma Start_facts:
  assumes "gateway_Start insListens rxListens tcpListens g0 = (None, g)" and "\<not> ir_running (pw_ins (g_pings g0))"
    and "\<not> sr_running (g_sonarRx g0)"
  shows "g_hooks g = g_hooks g0" and "g_sonarRx g = (g_sonarRx g0)\<lparr>sr_running := True, sr_open := True\<rparr>"
    and "g_pings g = (g_pings g0)\<lparr>pw_ins := (pw_ins (g_pings g0))\<lparr>ir_running := True, ir_open := True\<rparr>\<rparr>"
  using assms by (auto simp: gateway_Start_def reader_Start_def receiver_Start_def Let_def
      split: if_splits option.splits prod.splits)

text \<open>What submitting leaves alone.\<close>

definition fill_view :: "'r reorganizer \<Rightarrow> bool \<times> bool \<times> frame_ref list list \<times> int \<times> int" where
  "fill_view r = (rz_autoFillEnabled r, rz_fillMu r, rz_started r, rz_fillEveryNFrames r, rz_framesSinceFill r)"

lemma evict_loop_frame:
  assumes "evict_loop r = Some y"
  shows "\<forall>r'. y = Inr r' \<longrightarrow> fill_view r' = fill_view r"
proof (rule evict_loop.raw_induct [OF _ assms])
  fix loop and r :: "'a reorganizer" and y
  assume IH: "\<And>r (y :: 'a reorganizer go). loop r = Some y \<Longrightarrow> \<forall>r'. y = Inr r' \<longrightarrow> fill_view r' = fill_view r"
    and step: "(if rz_maxCacheFrames r < int (length (rz_cache r))
      then case evictOldestLocked r of Inl s \<Rightarrow> Some (Inl s) | Inr r' \<Rightarrow> loop r' else Some (Inr r)) = Some y"
  have "fill_view r1 = fill_view r" if "evictOldestLocked r = Inr r1" for r1
    using that by (auto simp: evictOldestLocked_def fill_view_def Let_def split: list.splits option.splits sum.splits)
  with IH step show "\<forall>r'. y = Inr r' \<longrightarrow> fill_view r' = fill_view r"
    by (auto split: if_splits sum.splits)
qed

lemma SubmitFrame_frame:
  assumes "SubmitFrame hooks f r = Some (Inr r')"
  shows "rz_autoFillEnabled r' = rz_autoFillEnabled r" and "rz_fillMu r' = rz_fillMu r"
    and "onVoidFill hooks = None \<Longrightarrow> rz_started r' = rz_started r"
  using assms
  by (auto simp: SubmitFrame_def rz_lock_def rz_unlock_def count_fill_def triggerFillLocked_def fill_view_def Let_def
      dest!: evict_loop_frame split: if_splits option.splits sum.splits)

lemma submit_all_auto:
  "submit_all hooks fs r = Some (Inr r') \<Longrightarrow> rz_autoFillEnabled r' = rz_autoFillEnabled r"
  by (induction fs arbitrary: r) (auto dest: SubmitFrame_frame(1) split: option.splits sum.splits)

text \<open>What traffic leaves in the gateway: the last frames in the reorganizer, all else as it was.\<close>

lemma traffic_facts:
  assumes "Init env insOk ifaceOk groupOk nowUS c = Inr (Inr g0)"
    and "gateway_Start insListens rxListens tcpListens g0 = (None, g)"
    and "ins_stream now 0 fs" and "fs \<noteq> []" and "concat ics = concat fs" and "\<forall>d \<in> set ics. length d \<le> 992"
    and "list_all (framed_ping MaxFrameSize) pps" and "concat scs = concat (map ping_frame pps)"
    and "\<forall>d \<in> set scs. length d \<le> 65535"
    and "\<forall>p \<in> set pps. p_Beams (fst p) \<noteq> []" and "distinct (map (p_PingCounter \<circ> fst) pps)"
  obtains g' where "traffic now ics scs g = Some (Inr g')" and "g_hooks g' = g_hooks g0"
    and "reorg_holds (fw_reorg (pw_frames (g_pings g'))) (lastn (nat (cf_MaxCacheFrames c))
           (ping_refs 0 (bp_rayTracer (pw_beam (g_pings g))) (parse_ins_frame (last fs)) (map fst pps)))"
    and "\<not> rz_mu (fw_reorg (pw_frames (g_pings g')))"
    and "rz_autoFillEnabled (fw_reorg (pw_frames (g_pings g'))) = cf_VoidFillEnable c"
    and "h_client (go_hub (fw_outer (pw_frames (g_pings g')))) \<noteq> None"
    and "go_filler (fw_outer (pw_frames (g_pings g'))) = go_filler (fw_outer (pw_frames (g_pings g0)))"
    and "\<not> sr_stuck (g_sonarRx g')"
    and "submit_all (g_hooks g0) (ping_refs 0 (bp_rayTracer (pw_beam (g_pings g))) (parse_ins_frame (last fs)) (map fst pps))
           (fw_reorg (pw_frames (g_pings g0))) = Some (Inr (fw_reorg (pw_frames (g_pings g'))))"
proof -
  note init = Init_facts [OF assms(1)] and reader = Init_reader [OF assms(1)] and recv = Init_receiver [OF assms(1)]
  note start = Start_facts [OF assms(2) reader(8) recv(4)]
  let ?o = "fw_outer (pw_frames (g_pings g0))" and ?ir = "(pw_ins (g_pings g0))\<lparr>ir_running := True, ir_open := True\<rparr>"
  obtain o2 where o2: "hand_records (ins_data_handler env) (map parse_ins_frame fs) ?o = Inr o2"
    "h_client (go_hub o2) \<noteq> None" "go_filler o2 = go_filler ?o"
    using hand_ins_records [OF init(4), of env "map parse_ins_frame fs"] by blast
  obtain ir where ir: "reader_receiveLoop now (map Datagram ics) (?ir, ?o) = Some (Inr (ir, o2))"
    "ir_latest ir = Some (parse_ins_frame (last fs))" "\<not> ir_mu ir"
    using reader_loop_stream [of ?ir ics now fs "ins_data_handler env" ?o o2] reader assms(3-6) o2(1) by auto
  define w where "w = (g_pings g0)\<lparr>pw_ins := ir, pw_frames := (pw_frames (g_pings g0))\<lparr>fw_outer := o2\<rparr>\<rparr>"
  have g1: "receive_ins now ics g = Some (Inr (g\<lparr>g_pings := w\<rparr>))"
    using ir(1) by (simp add: receive_ins_def start(3) w_def)
  let ?refs = "ping_refs 0 (bp_rayTracer (pw_beam w)) (parse_ins_frame (last fs)) (map fst pps)"
  have "distinct_frames ?refs"
    using assms(10,11) by (intro ping_refs_distinct) (auto simp: comp_def)
  then obtain r' where r': "submit_all (g_hooks g0) ?refs (fw_reorg (pw_frames w)) = Some (Inr r')" "\<not> rz_mu r'"
    "reorg_holds r' (lastn (nat (cf_MaxCacheFrames c)) ?refs)"
    using submit_all_holds [OF init(1,2), of ?refs "g_hooks g0"] by (auto simp: w_def init(3) lastn_def)
  have next_addr: "fw_next (pw_frames w) = 0"
    unfolding w_def by (rule Init_parts [OF assms(1)]) simp
  obtain w' where w': "run_pings (ping_handler env) (map fst pps) w = Inr w'" "fw_reorg (pw_frames w') = r'"
    "h_client (go_hub (fw_outer (pw_frames w'))) \<noteq> None" "go_filler (fw_outer (pw_frames w')) = go_filler o2"
    using run_ping_handler [of "g_hooks g0" w "parse_ins_frame (last fs)" "map fst pps" r' env] r'(1) next_addr
      o2(2) ir(2,3) assms(10) init(5)
    by (auto simp: w_def Latest_def simp del: not_None_eq)
  obtain d where "sr_asm (g_sonarRx g0) = safe_SetDebug d (NewSlidingWindowAssembler (int MaxFrameSize))"
    using recv(1) by blast
  then obtain rx where "receiver_receiveLoop (map Datagram scs) (g_sonarRx g, w) = Some (Inr (rx, w'))"
    using receiver_stream [of "g_sonarRx g" d "ping_handler env" pps scs w w'] recv assms(7-9) w'(1) start(2) by auto
  then have "traffic now ics scs g = Some (Inr (g\<lparr>g_sonarRx := rx, g_pings := w'\<rparr>))" and "\<not> sr_stuck rx"
    using receiver_loop_stuck recv(6) start(2) by (fastforce simp: traffic_def g1 receive_sonar_def)+
  moreover have "bp_rayTracer (pw_beam (g_pings g)) = bp_rayTracer (pw_beam w)"
    by (simp add: w_def start(3))
  moreover have "rz_autoFillEnabled r' = cf_VoidFillEnable c"
    using submit_all_auto [OF r'(1)] Init_fill(1) [OF assms(1)] by (simp add: w_def)
  ultimately show ?thesis
    using that [of "g\<lparr>g_sonarRx := rx, g_pings := w'\<rparr>"] r' w'(2-4) o2(3) start(1)
    by (simp add: w_def del: not_None_eq)
qed

text \<open>C1. The gateway from end to end. It is initialised and started in any configuration; INS datagrams
  of at most 992 bytes carry a stream of valid frames and then sonar datagrams, of any length UDP
  has, carry framed pings with beams and different counters; both streams are cut anywhere within
  these sizes, and Redis may fail at will. Then the receive loops return, and the reorganizer
  hands out, sorted by time, exactly the frames that the beam processor makes of the latest pings
  with the last INS record, as many as the cache holds. (A longer INS datagram may overrun the
  processor's buffer and be dropped: \<open>ins_large_read_dropped\<close>.)\<close>

theorem gateway_end_to_end:
  assumes "Init env insOk ifaceOk groupOk nowUS c = Inr (Inr g0)"
    and "gateway_Start insListens rxListens tcpListens g0 = (None, g)"
    and "ins_stream now 0 fs" and "fs \<noteq> []" and "concat ics = concat fs" and "\<forall>d \<in> set ics. length d \<le> 992"
    and "list_all (framed_ping MaxFrameSize) pps" and "concat scs = concat (map ping_frame pps)"
    and "\<forall>d \<in> set scs. length d \<le> 65535"
    and "\<forall>p \<in> set pps. p_Beams (fst p) \<noteq> []" and "distinct (map (p_PingCounter \<circ> fst) pps)"
  shows "\<exists>g' xs. traffic now ics scs g = Some (Inr g')
           \<and> GetOrderedFrames (fw_reorg (pw_frames (g_pings g'))) = Inr xs \<and> sorted (map ref_ts xs)
           \<and> mset (map fr_frame xs) = mset (lastn (nat (cf_MaxCacheFrames c))
               (map (ping_frame_points (bp_rayTracer (pw_beam (g_pings g))) (parse_ins_frame (last fs))) (map fst pps)))"
proof -
  let ?rt = "bp_rayTracer (pw_beam (g_pings g))" and ?ins = "parse_ins_frame (last fs)"
    and ?n = "nat (cf_MaxCacheFrames c)"
  obtain g' where g': "traffic now ics scs g = Some (Inr g')"
    "reorg_holds (fw_reorg (pw_frames (g_pings g'))) (lastn ?n (ping_refs 0 ?rt ?ins (map fst pps)))"
    "\<not> rz_mu (fw_reorg (pw_frames (g_pings g')))"
    by (rule traffic_facts [OF assms])
  obtain xs where xs: "GetOrderedFrames (fw_reorg (pw_frames (g_pings g'))) = Inr xs" "sorted (map ref_ts xs)"
    "mset xs = mset (lastn ?n (ping_refs 0 ?rt ?ins (map fst pps)))"
    using reorg_holds_reads [OF g'(2,3)] by blast
  have "mset (map fr_frame xs) = mset (map fr_frame (lastn ?n (ping_refs 0 ?rt ?ins (map fst pps))))"
    using xs(3) by (metis mset_map)
  also have "map fr_frame (lastn ?n (ping_refs 0 ?rt ?ins (map fst pps)))
      = lastn ?n (map (ping_frame_points ?rt ?ins) (map fst pps))"
    by (simp add: lastn_def drop_map [symmetric] ping_refs_facts)
  finally show ?thesis
    using g'(1) xs(1,2) by blast
qed

section \<open>Stopping\<close>

lemma gateway_filler_facts:
  "fc_AutoFitVariogram (gateway_filler_config c)" "0 < fc_CellSize (gateway_filler_config c)"
  "0 \<le> fc_SearchRadius (gateway_filler_config c)"
  by (simp_all add: gateway_filler_config_def DefaultFillerConfig_def Let_def)

text \<open>The cached frames of pings: as many as kept, and none without points.\<close>

lemma kept_frames:
  assumes "reorg_holds r (lastn n (ping_refs k rt ins ps))" and "mset xs = mset (rz_frameHeap r)"
    and "\<forall>p \<in> set ps. p_Beams p \<noteq> []"
  shows "length xs = min n (length ps)" and "\<forall>f \<in> set (map fr_frame xs). f_Points f \<noteq> [] \<and> f_NumPoints f \<noteq> 0"
proof -
  let ?refs = "ping_refs k rt ins ps"
  have xs: "mset xs = mset (lastn n ?refs)"
    using assms(1,2) by (simp add: reorg_holds_def)
  then show "length xs = min n (length ps)"
    using mset_eq_length [OF xs] by (simp add: lastn_def ping_refs_facts)
  have "set (map fr_frame xs) \<subseteq> set (map fr_frame ?refs)"
    using mset_eq_setD [OF xs] set_drop_subset [of "length ?refs - n" ?refs] by (auto simp: lastn_def)
  moreover have "f_Points f \<noteq> [] \<and> f_NumPoints f \<noteq> 0" if "f \<in> set (map fr_frame ?refs)" for f
    using that assms(3) unfolding ping_refs_facts by (fastforce simp: frame_points)
  ultimately show "\<forall>f \<in> set (map fr_frame xs). f_Points f \<noteq> [] \<and> f_NumPoints f \<noteq> 0"
    by blast
qed


text \<open>A filler that has not built a grid yet blocks on any points.\<close>

lemma fresh_filler_blocks:
  assumes "go_filler o1 = Some (NewVoidFiller (gateway_filler_config c))" and "fs \<noteq> []" and "\<forall>f \<in> set fs. f_Points f \<noteq> []"
  shows "fill_callback env fs o1 = Inl Deadlock"
proof -
  have "concat (map f_Points fs) \<noteq> []"
    using assms(2,3) by (cases fs) auto
  then show ?thesis
    using FillFrames_blocks [of "NewVoidFiller (gateway_filler_config c)" fs] gateway_filler_facts assms(1)
    by (simp add: fill_callback_def new_filler_facts)
qed

text \<open>C5. With void filling enabled, the gateway cannot be stopped once two frames are cached: the
  flush of the reorganizer calls the filler under the reorganizer's mutex, the filler locks its
  own mutex twice, and \<open>Stop\<close> never returns, in any configuration. (Grids are those of the
  model, see \<open>grid_fits\<close>.)\<close>

theorem stop_after_traffic_deadlocks:
  assumes "Init env insOk ifaceOk groupOk nowUS c = Inr (Inr g0)"
    and "gateway_Start insListens rxListens tcpListens g0 = (None, g)"
    and "ins_stream now 0 fs" and "fs \<noteq> []" and "concat ics = concat fs" and "\<forall>d \<in> set ics. length d \<le> 992"
    and "list_all (framed_ping MaxFrameSize) pps" and "concat scs = concat (map ping_frame pps)"
    and "\<forall>d \<in> set scs. length d \<le> 65535"
    and "\<forall>p \<in> set pps. p_Beams (fst p) \<noteq> []" and "distinct (map (p_PingCounter \<circ> fst) pps)"
    and "cf_VoidFillEnable c" and "2 \<le> cf_MaxCacheFrames c" and "2 \<le> length pps"
  shows "\<exists>g'. traffic now ics scs g = Some (Inr g') \<and> stop_pipeline g' = Inl Deadlock"
proof -
  let ?rt = "bp_rayTracer (pw_beam (g_pings g))" and ?ins = "parse_ins_frame (last fs)"
  obtain g' where g': "traffic now ics scs g = Some (Inr g')" "g_hooks g' = g_hooks g0"
    "reorg_holds (fw_reorg (pw_frames (g_pings g'))) (lastn (nat (cf_MaxCacheFrames c)) (ping_refs 0 ?rt ?ins (map fst pps)))"
    "\<not> rz_mu (fw_reorg (pw_frames (g_pings g')))"
    "rz_autoFillEnabled (fw_reorg (pw_frames (g_pings g'))) = cf_VoidFillEnable c"
    "go_filler (fw_outer (pw_frames (g_pings g'))) = go_filler (fw_outer (pw_frames (g_pings g0)))"
    "\<not> sr_stuck (g_sonarRx g')"
    by (rule traffic_facts [OF assms(1-11)])
  let ?r = "fw_reorg (pw_frames (g_pings g'))" and ?o = "fw_outer (pw_frames (g_pings g'))"
  have beams: "\<forall>p \<in> set (map fst pps). p_Beams p \<noteq> []"
    using assms(10) by simp
  have two: "2 \<le> length (rz_frameHeap ?r)"
    using kept_frames(1) [OF g'(3) refl beams] assms(13,14) by simp
  have filled: "fill_callback env (map fr_frame xs) ?o = Inl Deadlock" if "mset xs = mset (rz_frameHeap ?r)" for xs
  proof -
    have "xs \<noteq> []" using mset_eq_length [OF that] two by auto
    moreover have "go_filler ?o = Some (NewVoidFiller (gateway_filler_config c))"
      using Init_fill(4) [OF assms(1)] assms(12) g'(6) by simp
    ultimately show ?thesis
      using kept_frames(2) [OF g'(3) that beams] by (intro fresh_filler_blocks) auto
  qed
  have "Flush (g_hooks g') ?r ?o = Inl Deadlock"
    using g'(2-5) two filled Init_fill(3) [OF assms(1)] assms(12)
    by (intro Flush_fill_blocks [where f = "fill_callback env"]) (auto simp: reorg_holds_def)
  with g'(1,7) show ?thesis
    by (auto simp: stop_pipeline_def receiver_Stop_def)
qed







section \<open>A run\<close>

lemma choose_profile_total:
  assumes "h_client h \<noteq> None"
  shows "\<exists>prof. choose_profile env nowUS c h = Inr prof"
  using assms
  by (auto simp: choose_profile_def GetLatestSSP_def get_latest_def Let_def split: sum.split option.split hget_result.split)

lemma Init_succeeds:
  assumes "0 \<le> cf_MaxCacheFrames c"
  shows "\<exists>g. Init env True True True nowUS c = Inr (Inr g)"
proof -
  obtain prof where prof: "choose_profile env nowUS c (gateway_hub env c) = Inr prof"
    using choose_profile_total [OF gateway_hub_client] by blast
  obtain r hooks filler where wire: "wire_reorganizer env c = Inr (r, hooks, filler)"
    by (cases "cf_VoidFillEnable c") (simp_all add: wire_reorganizer_def NewReorganizer_empty [OF assms]
        EnableVoidFill_def rz_lock_def empty_reorg_def Let_def)
  obtain ir0 ir :: "'a gw_outer ins_reader" where ir: "NewINSReader True = Some ir0"
    "reader_SetDataHandler (ins_data_handler env) (reader_SetDebug (cf_DebugLogging c) ir0) = Inr ir"
    by (simp add: NewINSReader_def reader_SetDataHandler_def reader_SetDebug_def SetDataHandler_def ins_lock_def
        ins_SetDebug_def NewINSSafeProcessor_def Let_def)
  obtain rx0 rx :: "'a ping_world sonar_receiver" where rx: "NewSonarReceiver True True (cf_SonarBuffer c) = Inr rx0"
    "receiver_SetPingHandler (ping_handler env) (receiver_SetDebug (cf_DebugLogging c) rx0) = Inr rx"
    by (simp add: NewSonarReceiver_def NewSafeSonarProcessor_eq receiver_SetPingHandler_def SetPingHandler_def
        receiver_SetDebug_def sp_lock_def new_processor_def)
  obtain e hub1 where "PublishSSP (ge_client env) (Some prof) (gateway_hub env c) = Inr (e, hub1)"
    using publications_total(4) [OF gateway_hub_client, of "ge_client env" "Some prof" env c] by blast
  with prof wire ir rx show ?thesis
    by (simp add: Init_def Let_def)
qed

lemma Start_succeeds:
  assumes "Init env insOk ifaceOk groupOk nowUS c = Inr (Inr g0)"
  shows "\<exists>g. gateway_Start True True (Some l) g0 = (None, g)"
proof -
  have "\<not> tc_running srv" if "g_sonarTcp g0 = Some srv" for srv
    using assms that
    by (auto simp: Init_def Let_def tcp_SetPingHandler_def tcp_SetDebug_def NewSonarTCPServer_def
        split: option.splits sum.splits prod.splits if_splits)
  then show ?thesis
    using Init_reader(8) [OF assms] Init_receiver(4) [OF assms]
    by (auto simp: gateway_Start_def reader_Start_def receiver_Start_def tcp_Start_def Let_def split: option.split)
qed

text \<open>Two pings in three datagrams, and the environment that logs the commands for Redis.\<close>

definition run_env :: "redis_cmd list gateway_env" where
  "run_env = \<lparr>ge_client = log_client, ge_seconds = \<lambda>k. 1700000000 + k, ge_clock = still_clock\<rparr>"

definition run_pps :: "(SonarPing \<times> byte list) list" where
  "run_pps = [(one_beam, []), (one_beam\<lparr>p_PingCounter := 4, p_TimestampUS := 5\<rparr>, [])]"

definition run_ins :: "byte list list" where
  "run_ins = [ins_frame_a @ take 7 ins_frame_b, drop 7 ins_frame_b]"

definition run_sonar :: "byte list list" where
  "run_sonar = (let s = concat (map ping_frame run_pps) in [take 9 s, take 40 (drop 9 s), drop 49 s])"

lemma run_sonar_facts:
  "list_all (framed_ping MaxFrameSize) run_pps" "concat run_sonar = concat (map ping_frame run_pps)"
  "\<forall>d \<in> set run_sonar. length d \<le> 65535" "\<forall>p \<in> set run_pps. p_Beams (fst p) \<noteq> []"
  "distinct (map (p_PingCounter \<circ> fst) run_pps)" "length run_pps = 2"
proof -
  have "take 9 s @ take 40 (drop 9 s) @ drop 49 s = s" for s :: "byte list"
    using append_take_drop_id [of 40 "drop 9 s"] by simp
  then show "concat run_sonar = concat (map ping_frame run_pps)"
    by (simp add: run_sonar_def Let_def del: take_append drop_append)
  have len: "length (concat (map ping_frame run_pps)) = 80"
    by (simp add: run_pps_def ping_frame_def length_encode_ping one_beam_def)
  then show "\<forall>d \<in> set run_sonar. length d \<le> 65535"
    by (simp add: run_sonar_def Let_def del: length_concat)
  show "list_all (framed_ping MaxFrameSize) run_pps"
    by (simp add: run_pps_def framed_ping_def ping_frame_def length_encode_ping one_beam_def valid_ping_def
        valid_length_def frame_consts Let_def MaxBeamCount_def MaxFrameSize_def)
  show "\<forall>p \<in> set run_pps. p_Beams (fst p) \<noteq> []" "distinct (map (p_PingCounter \<circ> fst) run_pps)" "length run_pps = 2"
    by (simp_all add: run_pps_def one_beam_def)
qed

lemma run_ins_facts:
  "ins_stream (\<lambda>k. 1700000000000000) 0 [ins_frame_a, ins_frame_b]" "concat run_ins = concat [ins_frame_a, ins_frame_b]"
  "\<forall>d \<in> set run_ins. length d \<le> 992"
  using stream_ab parse_ab by (simp_all add: run_ins_def)

lemma run_starts:
  assumes "0 \<le> cf_MaxCacheFrames c"
  obtains g0 g where "Init run_env True True True 0 c = Inr (Inr g0)"
    and "gateway_Start True True (Some 1) g0 = (None, g)"
  using Init_succeeds [OF assms] Start_succeeds by blast

lemma main_cache: "0 \<le> cf_MaxCacheFrames main_config" "0 \<le> cf_MaxCacheFrames (main_config\<lparr>cf_VoidFillEnable := False\<rparr>)"
  by (simp_all add: main_config_def)

lemma gateway_end_to_end_witness:
  "\<exists>g0 g g' xs. Init run_env True True True 0 main_config = Inr (Inr g0)
     \<and> gateway_Start True True (Some 1) g0 = (None, g)
     \<and> traffic (\<lambda>k. 1700000000000000) run_ins run_sonar g = Some (Inr g')
     \<and> GetOrderedFrames (fw_reorg (pw_frames (g_pings g'))) = Inr xs \<and> sorted (map ref_ts xs)
     \<and> mset (map fr_frame xs) = mset (map (ping_frame_points (bp_rayTracer (pw_beam (g_pings g)))
         (parse_ins_frame ins_frame_b)) [one_beam, one_beam\<lparr>p_PingCounter := 4, p_TimestampUS := 5\<rparr>])"
proof -
  obtain g0 g where run: "Init run_env True True True 0 main_config = Inr (Inr g0)"
    "gateway_Start True True (Some 1) g0 = (None, g)"
    by (rule run_starts [OF main_cache(1)])
  have cache: "nat (cf_MaxCacheFrames main_config) = 128"
    by (simp add: main_config_def)
  show ?thesis
    using gateway_end_to_end [OF run run_ins_facts(1) _ run_ins_facts(2,3) run_sonar_facts(1-5)] run
    by (simp add: cache lastn_def run_pps_def)
qed

lemma stop_after_traffic_deadlocks_witness:
  "\<exists>g0 g g'. Init run_env True True True 0 main_config = Inr (Inr g0)
     \<and> gateway_Start True True (Some 1) g0 = (None, g)
     \<and> traffic (\<lambda>k. 1700000000000000) run_ins run_sonar g = Some (Inr g') \<and> stop_pipeline g' = Inl Deadlock"
proof -
  obtain g0 g where run: "Init run_env True True True 0 main_config = Inr (Inr g0)"
    "gateway_Start True True (Some 1) g0 = (None, g)"
    by (rule run_starts [OF main_cache(1)])
  then show ?thesis
    using stop_after_traffic_deadlocks [OF run run_ins_facts(1) _ run_ins_facts(2,3) run_sonar_facts(1-5)]
    by (simp add: main_config_def run_sonar_facts)
qed


lemma profile_updates_reach_tracer_witness:
  "\<exists>g g'. Init run_env True True True 0 main_config = Inr (Inr g)
     \<and> receive_ssp [RText ''x'', RJson (marshal_ssp calm_water), RText ''y''] g = Inr g'
     \<and> rt_profile (bp_rayTracer (pw_beam (g_pings g'))) = Some calm_water"
proof -
  obtain g where init: "Init run_env True True True 0 main_config = Inr (Inr g)"
    by (rule run_starts [OF main_cache(1)])
  then show ?thesis
    using profile_updates_reach_tracer [OF init refl, of "[RText ''y'']" "[RText ''x'']" calm_water]
    by (auto simp: unmarshal_val_def)
qed

end
