(* ===== verification/TCP_Correct.thy ===== *)
theory TCP_Correct
  imports TCP_Server "HOL-Library.Multiset"
begin

text \<open>
  Properties of the TCP server's runs: the connection limit, the count of open connections, what
  a session delivers, and what one blocked session does to \<open>Stop\<close>.
\<close>

section \<open>Invariants along runs\<close>

lemma tcp_run_invariant:
  assumes "tcp_run s ls s'" and "P s" and "\<And>s l s'. tcp_step s l s' \<Longrightarrow> P s \<Longrightarrow> P s'"
  shows "P s'"
  using assms(1,2) by (induction rule: tcp_run.induct) (auto intro: assms(3))

lemma tcp_run_append:
  "tcp_run s (ls @ ls') s'' \<longleftrightarrow> (\<exists>s'. tcp_run s ls s' \<and> tcp_run s' ls' s'')"
  by (induction ls arbitrary: s) (auto simp: tcp_run_Cons)

text \<open>What a read leaves alone.\<close>

lemma session_read_frame:
  assumes "session_read i data s = Some (Inr s')"
  shows "tc_conns s' = tc_conns s" and "tc_maxConns s' = tc_maxConns s"
    and "t_ConnectionsOpened (tc_stats s') = t_ConnectionsOpened (tc_stats s)"
    and "t_ConnectionsClosed (tc_stats s') = t_ConnectionsClosed (tc_stats s)"
    and "\<exists>ss. tc_sessions s' = (tc_sessions s)[i := ss]"
  using assms
  by (auto simp: session_read_def Let_def count_read_def split: option.splits sum.splits stuck.splits)

section \<open>The connection limit\<close>

definition conns_bounded :: "'w tcp_server \<Rightarrow> bool" where
  "conns_bounded s \<longleftrightarrow>
     distinct (map fst (tc_conns s)) \<and> int (length (tc_conns s)) \<le> max 0 (tc_maxConns s)"

lemma length_update: "length (AList.update k v xs) = (if k \<in> fst ` set xs then length xs else Suc (length xs))"
  by (induction xs) auto

lemma length_delete_key:
  "distinct (map fst xs) \<Longrightarrow> k \<in> fst ` set xs \<Longrightarrow> length xs = Suc (length (AList.delete k xs))"
proof (induction xs)
  case (Cons x xs)
  have "AList.delete (fst x) xs = xs" if "fst x \<notin> fst ` set xs"
    using that by (rule delete_id)
  with Cons show ?case by (cases x) auto
qed simp

lemma conns_step:
  assumes "tcp_step s l s'" and "conns_bounded s"
  shows "conns_bounded s' \<and> tc_maxConns s' = tc_maxConns s"
  using assms
proof (cases rule: tcp_step.cases)
  case (read i data)
  then show ?thesis
    using assms(2) session_read_frame(1,2) [OF read(6)] by (simp add: conns_bounded_def)
next
  case (register j l conn addr)
  then show ?thesis
    using assms(2) by (auto simp: register_conn_def conns_bounded_def distinct_update length_update)
next
  case (session_end i)
  then show ?thesis
    using assms(2) length_delete_le [of "ss_addr (tc_sessions s ! i)" "tc_conns s"]
    by (auto simp: session_end_def conns_bounded_def Let_def distinct_delete)
qed (auto simp: conns_bounded_def tcp_Start_def stop_flag_def stop_listener_def stop_conns_def
    split: option.splits)

text \<open>In every run the table of connections, which is keyed by address, stays within the maximum.\<close>

lemma table_limit:
  assumes "tcp_run (NewSonarTCPServer maxConns bufferSize w) ls s"
  shows "distinct (map fst (tc_conns s)) \<and> int (length (tc_conns s)) \<le> max 0 maxConns"
proof -
  let ?P = "\<lambda>s. conns_bounded s \<and> tc_maxConns s = maxConns"
  have "?P s"
    using assms by (rule tcp_run_invariant)
      (use conns_step in \<open>auto simp: NewSonarTCPServer_def conns_bounded_def\<close>)
  then show ?thesis by (auto simp: conns_bounded_def)
qed

section \<open>Live sessions\<close>

lemma new_session_fresh:
  "new_session conn addr s =
     \<lparr>ss_conn = conn, ss_addr = addr,
      ss_asm = safe_SetDebug (tc_debugLog s) (NewSlidingWindowAssembler (int MaxFrameSize)),
      ss_sp = new_processor, ss_onPing = tc_onPing s, ss_stuck = False\<rparr>"
  by (simp add: new_session_def NewSafeSonarProcessor_eq)

lemma new_session_addr [simp]: "ss_addr (new_session conn addr s) = addr"
  by (simp add: new_session_fresh)

text \<open>
  The table says how many sessions live only as long as no address is registered while a session
  from it is still alive, and until \<open>Stop\<close> empties the table: a session that ends removes the
  entry of its address, whoever put it.
\<close>

definition orderly :: "'w tcp_server \<Rightarrow> tcp_label \<Rightarrow> bool" where
  "orderly s l \<longleftrightarrow>
     (case l of LRegister j addr \<Rightarrow> addr \<notin> ss_addr ` set (tc_sessions s) | LStopConns k \<Rightarrow> False | _ \<Rightarrow> True)"

inductive orderly_run :: "'w tcp_server \<Rightarrow> tcp_label list \<Rightarrow> 'w tcp_server \<Rightarrow> bool" where
  Nil: "orderly_run s [] s"
| Cons: "tcp_step s l s' \<Longrightarrow> orderly s l \<Longrightarrow> orderly_run s' ls s'' \<Longrightarrow> orderly_run s (l # ls) s''"

inductive_simps orderly_run_Nil [simp]: "orderly_run s [] s'"
inductive_simps orderly_run_Cons: "orderly_run s (l # ls) s''"

lemma orderly_run_invariant:
  assumes "orderly_run s ls s'" and "P s" and "\<And>s l s'. tcp_step s l s' \<Longrightarrow> orderly s l \<Longrightarrow> P s \<Longrightarrow> P s'"
  shows "P s'"
  using assms(1,2) by (induction rule: orderly_run.induct) (auto intro: assms(3))

lemma orderly_run_tcp_run: "orderly_run s ls s' \<Longrightarrow> tcp_run s ls s'"
  by (induction rule: orderly_run.induct) (auto intro: tcp_run.intros)

definition sessions_tracked :: "'w tcp_server \<Rightarrow> bool" where
  "sessions_tracked s \<longleftrightarrow>
     conns_bounded s \<and> mset (map ss_addr (tc_sessions s)) = mset (map fst (tc_conns s))
   \<and> t_ConnectionsOpened (tc_stats s) = t_ConnectionsClosed (tc_stats s) + of_nat (length (tc_conns s))"

lemma session_read_addrs:
  assumes "session_read i data s = Some (Inr s')"
  shows "map ss_addr (tc_sessions s') = map ss_addr (tc_sessions s)"
proof -
  have "map ss_addr (xs[i := (xs ! i)\<lparr>ss_stuck := b\<rparr>]) = map ss_addr xs"
    "map ss_addr (xs[i := (xs ! i)\<lparr>ss_asm := a, ss_sp := sp\<rparr>]) = map ss_addr xs"
    for xs :: "'a session list" and a sp b
    by (simp_all add: map_update list_update_same_conv)
      (metis list_update_beyond list_update_id list_update_same_conv map_update not_le)+
  with assms show ?thesis
    by (auto simp: session_read_def Let_def count_read_def split: option.splits sum.splits stuck.splits)
qed

lemma mset_remove_nth: "i < length xs \<Longrightarrow> image_mset f (mset (remove_nth i xs)) = image_mset f (mset xs) - {#f (xs ! i)#}"
proof -
  assume i: "i < length xs"
  have "image_mset f (mset xs) = image_mset f (mset (take i xs @ xs ! i # drop (Suc i) xs))"
    by (subst id_take_nth_drop [OF i]) simp
  then show ?thesis by (simp add: remove_nth_def)
qed

lemma mset_delete_key:
  "distinct (map fst xs) \<Longrightarrow> image_mset fst (mset (AList.delete k xs)) = image_mset fst (mset xs) - {#k#}"
proof (induction xs)
  case (Cons x xs)
  have "AList.delete (fst x) xs = xs" if "fst x \<notin> fst ` set xs"
    using that by (rule delete_id)
  with Cons show ?case by (cases x) (auto simp: diff_add_mset_swap)
qed simp

lemma mset_update_key:
  "k \<notin> fst ` set xs \<Longrightarrow> image_mset fst (mset (AList.update k v xs)) = add_mset k (image_mset fst (mset xs))"
  by (induction xs) auto

lemma tracked_step:
  assumes "tcp_step s l s'" and "orderly s l" and "sessions_tracked s"
  shows "sessions_tracked s'"
proof -
  have bounded: "conns_bounded s'"
    using conns_step [OF assms(1)] assms(3) by (simp add: sessions_tracked_def)
  have addrs: "set (map ss_addr (tc_sessions s)) = fst ` set (tc_conns s)"
    using assms(3) by (metis sessions_tracked_def set_map set_mset_mset)
  show ?thesis
    using assms(1)
  proof (cases rule: tcp_step.cases)
    case (read i data)
    then show ?thesis
      using assms(3) bounded session_read_frame [OF read(6)] session_read_addrs [OF read(6)]
      by (simp add: sessions_tracked_def)
  next
    case (register j la conn addr)
    have "addr \<notin> fst ` set (tc_conns s)"
      using assms(2) register(1) addrs by (simp add: orderly_def)
    with register assms(3) bounded show ?thesis
      by (auto simp: sessions_tracked_def register_conn_def mset_update_key length_update new_session_addr)
  next
    case (session_end i)
    let ?k = "ss_addr (tc_sessions s ! i)"
    have k: "?k \<in> fst ` set (tc_conns s)"
      using addrs session_end(3) by force
    have "distinct (map fst (tc_conns s))"
      using assms(3) by (simp add: sessions_tracked_def conns_bounded_def)
    with k session_end assms(3) bounded length_delete_key [of "tc_conns s" ?k] show ?thesis
      by (auto simp: sessions_tracked_def session_end_def Let_def mset_delete_key mset_remove_nth)
  qed (use assms bounded in \<open>auto simp: sessions_tracked_def orderly_def tcp_Start_def stop_flag_def stop_listener_def
      split: option.splits\<close>)
qed

text \<open>C17. As long as no address is registered while a session from it is still alive, and until \<open>Stop\<close>
  empties the table, there are never more live sessions than the configured maximum, whatever
  the network does and however the accept loops and the sessions interleave: the sessions are
  those of the table, with different addresses, and the connections opened less those closed,
  which the metrics print as the open connections, are the live sessions, in 64-bit arithmetic.
  (Without the first condition the limit does not hold: \<open>reused_address_exceeds_limit\<close>.)\<close>

theorem connection_limit:
  assumes "orderly_run (NewSonarTCPServer maxConns bufferSize w) ls s"
  shows "int (length (tc_sessions s)) \<le> max 0 maxConns
       \<and> mset (map ss_addr (tc_sessions s)) = mset (map fst (tc_conns s)) \<and> distinct (map ss_addr (tc_sessions s))
       \<and> t_ConnectionsOpened (tcp_Stats s) - t_ConnectionsClosed (tcp_Stats s) = of_nat (length (tc_sessions s))"
proof -
  have tracked: "sessions_tracked s"
    using orderly_run_invariant [where P = sessions_tracked, OF assms _ tracked_step]
    by (simp add: NewSonarTCPServer_def sessions_tracked_def conns_bounded_def)
  then have same: "mset (map ss_addr (tc_sessions s)) = mset (map fst (tc_conns s))"
    by (simp add: sessions_tracked_def)
  have "length (tc_sessions s) = length (tc_conns s)"
    using mset_eq_length [OF same] by simp
  with same tracked table_limit [OF orderly_run_tcp_run [OF assms]] mset_eq_imp_distinct_iff [OF same] show ?thesis
    by (simp add: sessions_tracked_def tcp_Stats_def)
qed

section \<open>Blocked sessions\<close>

definition some_stuck :: "'w tcp_server \<Rightarrow> bool" where
  "some_stuck s \<longleftrightarrow> (\<exists>ss \<in> set (tc_sessions s). ss_stuck ss)"

lemma stuck_nth: "some_stuck s \<longleftrightarrow> (\<exists>i < length (tc_sessions s). ss_stuck (tc_sessions s ! i))"
  unfolding some_stuck_def by (metis in_set_conv_nth)

lemma set_remove_nth: "i < length xs \<Longrightarrow> insert (xs ! i) (set (remove_nth i xs)) = set xs"
  by (metis Cons_nth_drop_Suc Un_insert_right append_take_drop_id list.simps(15) remove_nth_def set_append)

lemma some_stuck_step:
  assumes "tcp_step s l s'" and "some_stuck s"
  shows "some_stuck s'"
  using assms(1)
proof (cases rule: tcp_step.cases)
  case (read i data)
  obtain ss where "tc_sessions s' = (tc_sessions s)[i := ss]"
    using session_read_frame(5) [OF read(6)] by blast
  moreover obtain j where "j < length (tc_sessions s)" "ss_stuck (tc_sessions s ! j)"
    using assms(2) by (auto simp: stuck_nth)
  moreover have "i \<noteq> j" if "ss_stuck (tc_sessions s ! j)" for j
    using that read(3) by auto
  ultimately show ?thesis
    by (auto simp: stuck_nth intro!: exI [of _ j])
next
  case (session_end i)
  then have "set (tc_sessions s) = insert (tc_sessions s ! i) (set (remove_nth i (tc_sessions s)))"
    by (simp add: set_remove_nth)
  with session_end assms(2) show ?thesis
    by (auto simp: some_stuck_def session_end_def Let_def)
qed (use assms(2) in \<open>auto simp: some_stuck_def tcp_Start_def stop_flag_def stop_listener_def stop_conns_def
    register_conn_def split: option.splits\<close>)

lemma stuck_never_stops:
  assumes "tcp_run s ls s'" and "some_stuck s"
  shows "some_stuck s' \<and> LStopReturns k \<notin> set ls"
  using assms
proof (induction rule: tcp_run.induct)
  case (Cons s l s' ls s'')
  moreover have "l \<noteq> LStopReturns k"
    using Cons by (auto simp: tcp_step_returns wait_group_done_def some_stuck_def)
  ultimately show ?case
    using some_stuck_step by auto
qed simp

text \<open>A session that has read nothing yet, and its first read.\<close>

definition fresh_session :: "'w tcp_server \<Rightarrow> nat \<Rightarrow> bool" where
  "fresh_session s i \<longleftrightarrow>
     i < length (tc_sessions s) \<and> \<not> ss_stuck (tc_sessions s ! i)
   \<and> ss_asm (tc_sessions s ! i) = safe_SetDebug (tc_debugLog s) (NewSlidingWindowAssembler (int MaxFrameSize))
   \<and> ss_sp (tc_sessions s ! i) = new_processor"

section \<open>Reads of a session\<close>

text \<open>What a session does with its reads, when none of them fails.\<close>

lemma reads_run:
  assumes "safe_feed_all (session_hooks ss) cs (ss_asm ss) (ss_sp ss, tc_world s)
             = Some (Inr (replicate (length cs) None, a', sp', w'))"
    and "i < length (tc_sessions s)" and "tc_sessions s ! i = ss" and "\<not> ss_stuck ss"
    and "\<forall>c \<in> set cs. 0 < length c \<and> length c \<le> 32768"
  shows "\<exists>s'. tcp_run s (map (LRead i) cs) s' \<and> tc_world s' = w' \<and> tc_conns s' = tc_conns s
           \<and> t_DecodeErrors (tc_stats s') = t_DecodeErrors (tc_stats s)
           \<and> t_BytesReceived (tc_stats s') = t_BytesReceived (tc_stats s) + of_nat (length (concat cs))
           \<and> t_PacketsReceived (tc_stats s') = t_PacketsReceived (tc_stats s) + of_nat (length cs)"
  using assms
proof (induction cs arbitrary: s ss)
  case Nil
  then show ?case by (simp add: safe_feed_all_def)
next
  case (Cons c cs)
  obtain a1 sp1 w1 where feed: "safe_Feed (session_hooks ss) c (ss_asm ss) (ss_sp ss, tc_world s)
      = Some (Inr (None, a1, sp1, w1))"
    and rest: "safe_feed_all (session_hooks ss) cs a1 (sp1, w1)
      = Some (Inr (replicate (length cs) None, a', sp', w'))"
    using Cons.prems(1)
    by (auto simp: safe_feed_all_def safe_Feed_def split: option.splits sum.splits)
  let ?ss = "ss\<lparr>ss_asm := a1, ss_sp := sp1\<rparr>"
  let ?s = "s\<lparr>tc_sessions := (tc_sessions s)[i := ?ss], tc_world := w1,
              tc_stats := count_read c (tc_stats s)\<rparr>"
  have "session_read i c s = Some (Inr ?s)"
    using feed Cons.prems(3) by (simp add: session_read_def Let_def)
  then have step: "tcp_step s (LRead i c) ?s"
    using Cons.prems(2-5) by (simp add: tcp_step.read)
  have "session_hooks ?ss = session_hooks ss"
    by (simp add: session_hooks_def)
  with rest Cons.prems(2,4,5) Cons.IH [of ?ss ?s]
  obtain s' where "tcp_run ?s (map (LRead i) cs) s'" "tc_world s' = w'" "tc_conns s' = tc_conns s"
    "t_DecodeErrors (tc_stats s') = t_DecodeErrors (tc_stats ?s)"
    "t_BytesReceived (tc_stats s') = t_BytesReceived (tc_stats ?s) + of_nat (length (concat cs))"
    "t_PacketsReceived (tc_stats s') = t_PacketsReceived (tc_stats ?s) + of_nat (length cs)"
    by auto
  with step show ?case
    by (intro exI [of _ s']) (auto simp: tcp_run_Cons count_read_def)
qed

text \<open>C16. A new session whose reads carry framed pings, cut in any way into reads of at most 32768
  bytes, hands exactly these pings in order to the handler it captured; no decode error is
  counted, every byte and every read is, and the table of connections is left alone.\<close>

theorem session_delivers_pings:
  assumes "fresh_session s i" and "ss_onPing (tc_sessions s ! i) = Some h"
    and "list_all (framed_ping MaxFrameSize) pps" and "concat cs = concat (map ping_frame pps)"
    and "\<forall>c \<in> set cs. 0 < length c \<and> length c \<le> 32768"
    and "run_pings h (map fst pps) (tc_world s) = Inr w'"
  shows "\<exists>s'. tcp_run s (map (LRead i) cs) s' \<and> tc_world s' = w' \<and> tc_conns s' = tc_conns s
           \<and> t_DecodeErrors (tc_stats s') = t_DecodeErrors (tc_stats s)
           \<and> t_BytesReceived (tc_stats s') = t_BytesReceived (tc_stats s) + of_nat (length (concat cs))
           \<and> t_PacketsReceived (tc_stats s') = t_PacketsReceived (tc_stats s) + of_nat (length cs)"
proof -
  let ?ss = "tc_sessions s ! i"
  have hooks: "session_hooks ?ss = sonar_hooks h"
    using assms(2) by (simp add: session_hooks_def sonar_hooks_def)
  have "list_all (wf_frame MaxFrameSize) (map ping_frame pps)"
    using assms(3) framed_ping_wf by (auto simp: list_all_iff)
  moreover have "deliver (frame_effect (sonar_hooks h)) (map ping_frame pps) (new_processor, tc_world s)
      = Some (new_processor, w')"
    using deliver_pings [OF assms(3,6)] by (simp add: new_processor_def)
  moreover have "\<forall>c \<in> set cs. length c \<le> 3 * MaxFrameSize"
    using assms(5) by (force simp: MaxFrameSize_def)
  ultimately have "\<exists>a'. feed_all (safe_callbacks (sonar_hooks h)) cs (ss_asm ?ss) (new_processor, tc_world s)
      = Some (Inr (replicate (length cs) None, a', (new_processor, w')))"
    using safe.feed_all_frames [of "ss_asm ?ss" MaxFrameSize "map ping_frame pps" cs "sonar_hooks h"
        "(new_processor, tc_world s)" "(new_processor, w')"] assms(1,4)
    by (auto simp: fresh_session_def new_assembler_facts settled_Nil MaxFrameSize_def)
  then show ?thesis
    using reads_run [of ?ss cs s _ _ w' i] assms(1,5) hooks
    by (auto simp: fresh_session_def safe_feed_all_def)
qed

section \<open>One bad peer\<close>

lemma bad_read_blocks:
  assumes "fresh_session s i"
  shows "session_read i bad_headers s
     = Some (Inr (s\<lparr>tc_stats := count_read bad_headers (tc_stats s),
         tc_sessions := (tc_sessions s)[i := (tc_sessions s ! i)\<lparr>ss_stuck := True\<rparr>]\<rparr>))"
proof -
  have "bad_headers \<noteq> []"
    using length_bad_headers by force
  then have "safe_Feed (session_hooks (tc_sessions s ! i)) bad_headers (ss_asm (tc_sessions s ! i))
      (ss_sp (tc_sessions s ! i), tc_world s) = Some (Inl Deadlock)"
    using safe_Feed_bad_lengths [of "ss_asm (tc_sessions s ! i)" new_processor bad_headers
        "replicate 11 0" "[]" "[0x4F, 0x4E, 0x52, 0, 0] @ replicate 14 0"]
      assms length_bad_headers
    by (simp add: fresh_session_def new_assembler_facts parse_bad_headers new_processor_def
        processor_ok_def MaxFrameSize_def)
  then show ?thesis
    by (simp add: session_read_def Let_def)
qed

text \<open>C18. Eleven bad headers in one read block a new session for ever, and then no call of \<open>Stop\<close> ever
  returns, whatever happens next: the session never leaves the wait group.\<close>

theorem blocked_session_blocks_Stop:
  assumes "fresh_session s i" and "tcp_run s (LRead i bad_headers # ls) s'"
  shows "LStopReturns k \<notin> set ls \<and> (\<exists>ss \<in> set (tc_sessions s'). ss_stuck ss)"
proof -
  obtain s1 where step: "tcp_step s (LRead i bad_headers) s1" and run: "tcp_run s1 ls s'"
    using assms(2) by (auto simp: tcp_run_Cons)
  then have "some_stuck s1"
    using assms(1) bad_read_blocks [OF assms(1)]
    by (auto simp: tcp_step_read some_stuck_def fresh_session_def intro!: bexI [OF _ set_update_memI])
  from stuck_never_stops [OF run this] show ?thesis
    by (simp add: some_stuck_def)
qed

section \<open>A run with one client\<close>

definition idle_server :: "SonarPing list tcp_server" where
  "idle_server = NewSonarTCPServer 8 65536 []"

definition started_server :: "SonarPing list tcp_server" where
  "started_server = snd (tcp_Start (Some 0) idle_server)"

definition one_client :: "SonarPing list tcp_server" where
  "one_client = register_conn 1 ''peer'' started_server"

lemma connect_run:
  assumes "tc_acceptors s = [Accepting l]" and "l \<in> set (tc_open s)"
  shows "tcp_step s (LAccept 0 conn addr) (s\<lparr>tc_acceptors := [Holding l conn addr]\<rparr>)"
    and "tcp_step (s\<lparr>tc_acceptors := [Holding l conn addr]\<rparr>) (LRegister 0 addr) (register_conn conn addr s)"
proof -
  have same: "s\<lparr>tc_acceptors := [Accepting l]\<rparr> = s"
    using assms(1) by (cases s) simp
  show "tcp_step s (LAccept 0 conn addr) (s\<lparr>tc_acceptors := [Holding l conn addr]\<rparr>)"
    using tcp_step.accept [of 0 s l conn addr] assms by simp
  show "tcp_step (s\<lparr>tc_acceptors := [Holding l conn addr]\<rparr>) (LRegister 0 addr) (register_conn conn addr s)"
    using tcp_step.register [of 0 "s\<lparr>tc_acceptors := [Holding l conn addr]\<rparr>" l conn addr] same by simp
qed

lemma started_facts:
  "tc_acceptors (snd (tcp_Start (Some l) (NewSonarTCPServer n b w))) = [Accepting l]"
  "tc_open (snd (tcp_Start (Some l) (NewSonarTCPServer n b w))) = [l]"
  "tc_sessions (snd (tcp_Start (Some l) (NewSonarTCPServer n b w))) = []"
  "tc_conns (snd (tcp_Start (Some l) (NewSonarTCPServer n b w))) = []"
  "tc_maxConns (snd (tcp_Start (Some l) (NewSonarTCPServer n b w))) = n"
  by (simp_all add: tcp_Start_def NewSonarTCPServer_def)

lemma one_client_orderly:
  "orderly_run idle_server [LStart (Some 0), LAccept 0 1 ''peer'', LRegister 0 ''peer''] one_client"
proof -
  have start: "tcp_step idle_server (LStart (Some 0)) started_server"
    unfolding started_server_def by (rule tcp_step.start)
  note facts = started_facts [of 0 8 65536 "[] :: SonarPing list", folded idle_server_def started_server_def]
  have ready: "tc_acceptors started_server = [Accepting 0]" "0 \<in> set (tc_open started_server)"
    by (simp_all add: facts)
  note connect = connect_run [OF ready, of 1 "''peer''", folded one_client_def]
  show ?thesis
    by (intro orderly_run.Cons [OF start] orderly_run.Cons [OF connect(1)] orderly_run.Cons [OF connect(2)] orderly_run.Nil)
      (simp_all add: orderly_def facts)
qed

lemmas one_client_run = orderly_run_tcp_run [OF one_client_orderly]

lemma one_client_facts:
  "tc_conns one_client = [(''peer'', 1)]" "t_ConnectionsOpened (tc_stats one_client) = 1"
  "t_ConnectionsClosed (tc_stats one_client) = 0" "tc_sessions one_client = [new_session 1 ''peer'' started_server]"
  by (simp_all add: one_client_def register_conn_def started_server_def idle_server_def tcp_Start_def
      NewSonarTCPServer_def)

lemma one_client_fresh: "fresh_session one_client 0"
  by (simp add: fresh_session_def one_client_facts new_session_fresh)
    (simp add: one_client_def register_conn_def)

text \<open>
  A client that registers an address twice and ends its first session frees the entry of the
  second: with two connections allowed, three sessions are alive.
\<close>

lemma connect_facts:
  assumes "int (length (tc_conns s)) < tc_maxConns s"
  shows "tc_conns (register_conn conn addr s) = AList.update addr conn (tc_conns s)"
    "tc_sessions (register_conn conn addr s) = tc_sessions s @ [new_session conn addr s]"
    "tc_acceptors (register_conn conn addr s) = tc_acceptors s" "tc_open (register_conn conn addr s) = tc_open s"
    "tc_maxConns (register_conn conn addr s) = tc_maxConns s"
  using assms by (simp_all add: register_conn_def)

lemma reused_address_exceeds_limit:
  "\<exists>s. tcp_run (NewSonarTCPServer 2 65536 w)
         [LStart (Some 0), LAccept 0 1 ''a'', LRegister 0 ''a'', LAccept 0 2 ''a'', LRegister 0 ''a'', LEnd 0,
          LAccept 0 3 ''b'', LRegister 0 ''b'', LAccept 0 4 ''c'', LRegister 0 ''c''] s
     \<and> length (tc_sessions s) = 3"
proof -
  define s0 where "s0 = snd (tcp_Start (Some 0) (NewSonarTCPServer 2 65536 w))"
  define s1 where "s1 = register_conn 1 ''a'' s0"
  define s2 where "s2 = register_conn 2 ''a'' s1"
  define s3 where "s3 = session_end 0 s2"
  define s4 where "s4 = register_conn 3 ''b'' s3"
  define s5 where "s5 = register_conn 4 ''c'' s4"
  note s0 = started_facts [of 0 2 65536 w, folded s0_def]
  have s1: "tc_conns s1 = [(''a'', 1)]" "length (tc_sessions s1) = 1" "tc_acceptors s1 = [Accepting 0]"
    "tc_open s1 = [0]" "tc_maxConns s1 = 2"
    by (simp_all add: s1_def connect_facts s0)
  have s2: "tc_conns s2 = [(''a'', 2)]" "tc_sessions s2 = [new_session 1 ''a'' s0, new_session 2 ''a'' s1]"
    "tc_acceptors s2 = [Accepting 0]" "tc_open s2 = [0]" "tc_maxConns s2 = 2"
    by (simp_all add: s2_def connect_facts s1) (simp add: s1_def connect_facts s0)
  have s3: "tc_conns s3 = []" "length (tc_sessions s3) = 1" "tc_acceptors s3 = [Accepting 0]" "tc_open s3 = [0]"
    "tc_maxConns s3 = 2"
    by (simp_all add: s3_def session_end_def remove_nth_def s2)
  have s4: "tc_conns s4 = [(''b'', 3)]" "length (tc_sessions s4) = 2" "tc_acceptors s4 = [Accepting 0]"
    "tc_open s4 = [0]" "tc_maxConns s4 = 2"
    by (simp_all add: s4_def connect_facts s3)
  have "length (tc_sessions s5) = 3"
    by (simp add: s5_def connect_facts s4)
  moreover have "tcp_step s2 (LEnd 0) s3"
    unfolding s3_def by (rule tcp_step.session_end) (simp_all add: s2 new_session_fresh)
  moreover have "tcp_step (NewSonarTCPServer 2 65536 w) (LStart (Some 0)) s0"
    unfolding s0_def by (rule tcp_step.start)
  ultimately show ?thesis
    using connect_run [of s0 0 1 "''a''", folded s1_def] connect_run [of s1 0 2 "''a''", folded s2_def]
      connect_run [of s3 0 3 "''b''", folded s4_def] connect_run [of s4 0 4 "''c''", folded s5_def] s0 s1 s3 s4
    unfolding tcp_run_Cons tcp_run_Nil by (metis list.set_intros(1))
qed

lemma connection_limit_witness:
  "int (length (tc_sessions one_client)) \<le> max 0 8
   \<and> t_ConnectionsOpened (tcp_Stats one_client) - t_ConnectionsClosed (tcp_Stats one_client) = of_nat (Suc 0)"
  using connection_limit [OF one_client_orderly [unfolded idle_server_def]] by (simp add: one_client_facts)

lemma blocked_session_blocks_Stop_witness:
  "\<exists>s'. tcp_run one_client [LRead 0 bad_headers, LStop] s' \<and> LStopReturns 0 \<notin> set [LStop]
      \<and> (\<exists>ss \<in> set (tc_sessions s'). ss_stuck ss)"
proof -
  have "tcp_step one_client (LRead 0 bad_headers) (one_client\<lparr>tc_stats := count_read bad_headers (tc_stats one_client),
         tc_sessions := (tc_sessions one_client)[0 := (tc_sessions one_client ! 0)\<lparr>ss_stuck := True\<rparr>]\<rparr>)"
    (is "tcp_step _ _ ?s")
    using one_client_fresh bad_read_blocks [OF one_client_fresh] length_bad_headers
    by (intro tcp_step.read) (simp_all add: fresh_session_def)
  then have run: "tcp_run one_client [LRead 0 bad_headers, LStop] (stop_flag ?s)"
    by (auto simp: tcp_run_Cons intro: tcp_step.stop)
  from blocked_session_blocks_Stop [OF one_client_fresh this, of 0] run show ?thesis
    by blast
qed

lemma session_delivers_pings_witness:
  "\<exists>s'. tcp_run (register_conn 1 ''peer'' (tcp_SetPingHandler append_ping idle_server))
          (map (LRead 0) [take 13 (ping_frame (sample_ping, replicate 8 0)), drop 13 (ping_frame (sample_ping, replicate 8 0))]) s'
      \<and> tc_world s' = [sample_ping] \<and> t_DecodeErrors (tc_stats s') = 0 \<and> t_BytesReceived (tc_stats s') = 40"
proof -
  let ?s = "register_conn 1 ''peer'' (tcp_SetPingHandler append_ping idle_server)"
    and ?f = "ping_frame (sample_ping, replicate 8 0)"
  have len: "length (ping_frame (sample_ping, replicate 8 0)) = 40"
    by (simp add: ping_frame_def length_encode_ping sample_ping_def)
  then have "?f \<noteq> []" by force
  moreover have "framed_ping MaxFrameSize (sample_ping, replicate 8 0)"
    using framed_sample
    by (simp add: framed_ping_def Let_def valid_length_def frame_consts sample_ping_def)
  moreover have "fresh_session ?s 0" "ss_onPing (tc_sessions ?s ! 0) = Some append_ping" "tc_world ?s = []"
    "t_DecodeErrors (tc_stats ?s) = 0" "t_BytesReceived (tc_stats ?s) = 0"
    by (simp_all add: fresh_session_def register_conn_def tcp_SetPingHandler_def idle_server_def
        NewSonarTCPServer_def new_session_fresh)
  ultimately have "\<exists>s'. tcp_run ?s (map (LRead 0) [take 13 ?f, drop 13 ?f]) s' \<and> tc_world s' = [sample_ping]
      \<and> tc_conns s' = tc_conns ?s \<and> t_DecodeErrors (tc_stats s') = 0 \<and> t_BytesReceived (tc_stats s') = 40
      \<and> t_PacketsReceived (tc_stats s') = t_PacketsReceived (tc_stats ?s) + 2"
    using session_delivers_pings [of ?s 0 append_ping "[(sample_ping, replicate 8 0)]" "[take 13 ?f, drop 13 ?f]"
        "[sample_ping]"]
    by (simp add: append_ping_def len)
  then show ?thesis by blast
qed

end
