(* ===== verification/Gateway_Steps.thy ===== *)
theory Gateway_Steps
  imports Gateway_Correct TCP_Correct
begin

text \<open>
  The running gateway as a transition system: its goroutines take turns at datagrams, INS reads,
  profile messages, TCP events and void filling, in any order. What every reachable state
  satisfies, and what a step from such a state can come to.
\<close>

section \<open>Steps\<close>

text \<open>
  A datagram, a message or a TCP event is handled as a whole: the handlers of the two receivers
  share the pipeline state, which the TCP server is given for the step. Filling goroutine \<open>k\<close>
  runs its frames; when it blocks it does so inside the filler, whose mutex stays locked. A read
  of the sonar receiver that blocks does so inside the assembler, whose mutex stays locked.
\<close>

datatype gateway_label =
    GSonar udp_event | GIns udp_event | GProfile redis_val | GTcp tcp_label | GFill nat

definition fill_k :: "nat \<Rightarrow> 'c gateway \<Rightarrow> (PatchFillResult reorganizer \<times> 'c gw_outer) go" where
  "fill_k k g =
     (let r = fw_reorg (pw_frames (g_pings g)) in
      fill_goroutine (g_hooks g) (rz_started r ! k) (r\<lparr>rz_started := remove_nth k (rz_started r)\<rparr>)
        (fw_outer (pw_frames (g_pings g))))"

definition set_frames :: "PatchFillResult reorganizer \<Rightarrow> 'c gw_outer \<Rightarrow> 'c gateway \<Rightarrow> 'c gateway" where
  "set_frames r o1 g =
     g\<lparr>g_pings := (g_pings g)\<lparr>pw_frames := (pw_frames (g_pings g))\<lparr>fw_reorg := r, fw_outer := o1\<rparr>\<rparr>\<rparr>"

definition block_receiver :: "'w sonar_receiver \<Rightarrow> 'w sonar_receiver" where
  "block_receiver rx = rx\<lparr>sr_asm := (sr_asm rx)\<lparr>a_mu := True\<rparr>, sr_stuck := True\<rparr>"

inductive gateway_step :: "(nat \<Rightarrow> u64) \<Rightarrow> 'c gateway \<Rightarrow> gateway_label \<Rightarrow> 'c gateway \<Rightarrow> bool" for now where
  sonar: "sr_running (g_sonarRx g) \<Longrightarrow> \<not> sr_stuck (g_sonarRx g) \<Longrightarrow> receiver_round ev (g_sonarRx g, g_pings g) = Some (Inr (rx, w)) \<Longrightarrow>
    gateway_step now g (GSonar ev) (g\<lparr>g_sonarRx := rx, g_pings := w\<rparr>)"
| sonar_blocks: "sr_running (g_sonarRx g) \<Longrightarrow> \<not> sr_stuck (g_sonarRx g) \<Longrightarrow>
    receiver_round ev (g_sonarRx g, g_pings g) = Some (Inl Deadlock) \<Longrightarrow>
    gateway_step now g (GSonar ev) (g\<lparr>g_sonarRx := block_receiver (g_sonarRx g)\<rparr>)"
| ins: "ir_running (pw_ins (g_pings g)) \<Longrightarrow>
    reader_round now ev (pw_ins (g_pings g), fw_outer (pw_frames (g_pings g))) = Some (Inr (ir, o1)) \<Longrightarrow>
    gateway_step now g (GIns ev)
      (g\<lparr>g_pings := (g_pings g)\<lparr>pw_ins := ir, pw_frames := (pw_frames (g_pings g))\<lparr>fw_outer := o1\<rparr>\<rparr>\<rparr>)"
| profile: "receive_ssp [m] g = Inr g' \<Longrightarrow> gateway_step now g (GProfile m) g'"
| tcp: "g_sonarTcp g = Some srv \<Longrightarrow> tcp_step (srv\<lparr>tc_world := g_pings g\<rparr>) l srv' \<Longrightarrow>
    gateway_step now g (GTcp l) (g\<lparr>g_sonarTcp := Some srv', g_pings := tc_world srv'\<rparr>)"
| fill: "k < length (rz_started (fw_reorg (pw_frames (g_pings g)))) \<Longrightarrow> fill_k k g = Inr (r, o1) \<Longrightarrow>
    gateway_step now g (GFill k) (set_frames r o1 g)"
| fill_blocks: "k < length (rz_started (fw_reorg (pw_frames (g_pings g)))) \<Longrightarrow> fill_k k g = Inl Deadlock \<Longrightarrow>
    r = fw_reorg (pw_frames (g_pings g)) \<Longrightarrow> o1 = fw_outer (pw_frames (g_pings g)) \<Longrightarrow>
    gateway_step now g (GFill k)
      (set_frames (r\<lparr>rz_started := remove_nth k (rz_started r)\<rparr>)
        (o1\<lparr>go_filler := map_option (\<lambda>vf. vf\<lparr>vf_mu := True\<rparr>) (go_filler o1)\<rparr>) g)"

inductive_cases fill_stepE: "gateway_step now g (GFill k) g'"

inductive gateway_run :: "(nat \<Rightarrow> u64) \<Rightarrow> 'c gateway \<Rightarrow> gateway_label list \<Rightarrow> 'c gateway \<Rightarrow> bool" for now where
  Nil: "gateway_run now g [] g"
| Cons: "gateway_step now g l g' \<Longrightarrow> gateway_run now g' ls g'' \<Longrightarrow> gateway_run now g (l # ls) g''"

section \<open>Well-formed states\<close>

definition reorg_ok :: "GatewayConfig \<Rightarrow> PatchFillResult reorganizer \<Rightarrow> bool" where
  "reorg_ok c r \<longleftrightarrow>
     reorg_inv r \<and> \<not> rz_mu r \<and> \<not> rz_fillMu r \<and> rz_maxCacheFrames r = cf_MaxCacheFrames c
   \<and> int (length (rz_cache r)) \<le> cf_MaxCacheFrames c \<and> (\<not> cf_VoidFillEnable c \<longrightarrow> rz_started r = [])"

text \<open>The invariant of the gateway leaves open what it says of the filler: \<open>F\<close>.\<close>

definition outer_ok :: "GatewayConfig \<Rightarrow> (void_filler option \<Rightarrow> bool) \<Rightarrow> 'c gw_outer \<Rightarrow> bool" where
  "outer_ok c F o1 \<longleftrightarrow>
     h_client (go_hub o1) \<noteq> None \<and> (cf_VoidFillEnable c \<longrightarrow> go_filler o1 \<noteq> None) \<and> F (go_filler o1)"

definition ins_ok :: "'c gateway_env \<Rightarrow> 'c gw_outer ins_reader \<Rightarrow> bool" where
  "ins_ok env ir \<longleftrightarrow>
     ins_inv (ir_processor ir) \<and> \<not> n_mu (ir_processor ir) \<and> \<not> ir_mu ir \<and> ir_hooked ir
   \<and> ir_onData ir = Some (ins_data_handler env) \<and> (\<forall>d. ir_latest ir = Some d \<longrightarrow> plausible_ins d)"

definition pings_ok ::
    "'c gateway_env \<Rightarrow> GatewayConfig \<Rightarrow> (void_filler option \<Rightarrow> bool) \<Rightarrow>
     ('c gw_outer, PatchFillResult) reorg_hooks \<Rightarrow> 'c ping_world \<Rightarrow> bool" where
  "pings_ok env c F hooks w \<longleftrightarrow>
     reorg_ok c (fw_reorg (pw_frames w)) \<and> outer_ok c F (fw_outer (pw_frames w)) \<and> ins_ok env (pw_ins w)
   \<and> bp_onFrame (pw_beam w) = Some (frame_handler hooks)"

definition hooks_ok ::
    "'c gateway_env \<Rightarrow> GatewayConfig \<Rightarrow> ('c gw_outer, PatchFillResult) reorg_hooks \<Rightarrow> bool" where
  "hooks_ok env c hooks \<longleftrightarrow>
     onReadyFrames hooks = Some (publish_frames env)
   \<and> onVoidFill hooks = (if cf_VoidFillEnable c then Some (fill_callback env) else None)"

definition stream_ok :: "assembler \<Rightarrow> safe_processor \<Rightarrow> bool" where
  "stream_ok a sp \<longleftrightarrow> asm_inv a \<and> \<not> a_mu a \<and> processor_ok sp"

definition receiver_ok :: "'c gateway_env \<Rightarrow> 'c ping_world sonar_receiver \<Rightarrow> bool" where
  "receiver_ok env rx \<longleftrightarrow>
     sr_onPing rx = Some (ping_handler env)
   \<and> (if sr_stuck rx then a_mu (sr_asm rx) else stream_ok (sr_asm rx) (sr_sp rx))"

definition server_ok :: "'c gateway_env \<Rightarrow> 'c ping_world tcp_server \<Rightarrow> bool" where
  "server_ok env s \<longleftrightarrow>
     tc_onPing s = Some (ping_handler env) \<and> conns_bounded s \<and> tc_maxConns s = 8
   \<and> t_AssemblerStats (tc_stats s) = zero_stats
   \<and> (\<forall>ss \<in> set (tc_sessions s). ss_onPing ss = Some (ping_handler env) \<and> stream_ok (ss_asm ss) (ss_sp ss))"

definition gateway_ok ::
    "'c gateway_env \<Rightarrow> GatewayConfig \<Rightarrow> (void_filler option \<Rightarrow> bool) \<Rightarrow> 'c gateway \<Rightarrow> bool" where
  "gateway_ok env c F g \<longleftrightarrow>
     pings_ok env c F (g_hooks g) (g_pings g) \<and> hooks_ok env c (g_hooks g)
   \<and> receiver_ok env (g_sonarRx g) \<and> (\<forall>s. g_sonarTcp g = Some s \<longrightarrow> server_ok env s)
   \<and> h_onSSPUpdate (g_ssp g) = Some ssp_handler"

section \<open>Handlers keep the pipeline well-formed\<close>

lemma frame_handler_ok:
  assumes "reorg_ok c (fw_reorg w)" and "hooks_ok env c hooks"
  shows "\<exists>r. frame_handler hooks f w = Inr (w\<lparr>fw_reorg := r, fw_next := fw_next w + 1\<rparr>) \<and> reorg_ok c r"
proof -
  obtain r' where r': "SubmitFrame hooks (Some \<lparr>fr_addr = fw_next w, fr_frame = f\<rparr>) (fw_reorg w) = Some (Inr r')"
    "reorg_inv r'" "\<not> rz_mu r'" "rz_maxCacheFrames r' = cf_MaxCacheFrames c"
    "int (length (rz_cache r')) \<le> cf_MaxCacheFrames c"
    using SubmitFrame_ok [of "fw_reorg w" hooks "Some \<lparr>fr_addr = fw_next w, fr_frame = f\<rparr>"] assms(1)
    by (auto simp: reorg_ok_def)
  moreover have "reorg_ok c r'"
    using r' SubmitFrame_frame [OF r'(1)] assms by (auto simp: reorg_ok_def hooks_ok_def)
  ultimately show ?thesis
    by (intro exI [of _ r']) (simp add: frame_handler_def)
qed

lemma publications_keep:
  assumes "outer_ok c F o1"
  shows "\<exists>o2. publish_frame env f o1 = Inr o2 \<and> outer_ok c F o2" and "\<exists>o2. ins_data_handler env d o1 = Inr o2 \<and> outer_ok c F o2"
proof -
  have client: "h_client (go_hub o1) \<noteq> None" using assms by (simp add: outer_ok_def)
  note total = publications_total(2,3) [OF client, of "ge_client env" "ge_seconds env (go_ticks o1)"]
  show "\<exists>o2. publish_frame env f o1 = Inr o2 \<and> outer_ok c F o2"
    using total(1) [of "Some f"] assms by (auto simp: publish_frame_def outer_ok_def simp del: not_None_eq)
  show "\<exists>o2. ins_data_handler env d o1 = Inr o2 \<and> outer_ok c F o2"
    using total(2) [of "Some d"] assms by (auto simp: ins_data_handler_def outer_ok_def simp del: not_None_eq)
qed

lemma publish_frames_keep:
  "outer_ok c F o1 \<Longrightarrow> \<exists>o2. publish_frames env fs o1 = Inr o2 \<and> outer_ok c F o2"
proof (induction fs arbitrary: o1)
  case (Cons f fs)
  then show ?case
    using publications_keep(1) [OF Cons.prems, of env f] by fastforce
qed simp

lemma ping_handler_ok:
  assumes "pings_ok env c F hooks w" and "hooks_ok env c hooks"
  shows "\<exists>w'. ping_handler env p w = Inr w' \<and> pings_ok env c F hooks w'"
proof -
  let ?o = "fw_outer (pw_frames w)"
  obtain e h where pub: "PublishPing (ge_client env) (ge_seconds env (go_ticks ?o)) (Some p) (go_hub ?o) = Inr (e, h)"
    "h_client h \<noteq> None"
    using publications_total(1) [of "go_hub ?o"] assms(1) by (fastforce simp: pings_ok_def outer_ok_def)
  let ?fw = "(pw_frames w)\<lparr>fw_outer := ?o\<lparr>go_hub := h, go_ticks := go_ticks ?o + 1\<rparr>\<rparr>"
  have ok: "reorg_ok c (fw_reorg ?fw)" "outer_ok c F (fw_outer ?fw)"
    using assms(1) pub(2) by (auto simp: pings_ok_def outer_ok_def)
  have latest: "Latest (pw_ins w) = Inr (ir_latest (pw_ins w))"
    using assms(1) by (simp add: Latest_def pings_ok_def ins_ok_def)
  have "\<exists>f bp fw. ProcessPing (Latest (pw_ins w)) (Some p) (pw_beam w, ?fw) = Inr (f, bp, fw)
      \<and> bp_onFrame bp = bp_onFrame (pw_beam w) \<and> reorg_ok c (fw_reorg fw) \<and> outer_ok c F (fw_outer fw)"
  proof (cases "p_Beams p = [] \<or> ir_latest (pw_ins w) = None")
    case True
    with ok show ?thesis
      by (cases "p_Beams p = []") (simp_all add: ProcessPing_def latest)
  next
    case False
    then obtain ins where ins: "ir_latest (pw_ins w) = Some ins" "p_Beams p \<noteq> []" by auto
    obtain r where "frame_handler hooks (ping_frame_points (bp_rayTracer (pw_beam w)) ins p) ?fw
        = Inr (?fw\<lparr>fw_reorg := r, fw_next := fw_next ?fw + 1\<rparr>)" "reorg_ok c r"
      using frame_handler_ok [OF ok(1) assms(2)] by blast
    then show ?thesis
      using assms(1) ins ok(2) by (simp add: ProcessPing_def latest pings_ok_def Let_def)
  qed
  then show ?thesis
    using pub(1) assms(1) by (auto simp: ping_handler_def pings_ok_def Let_def)
qed

section \<open>Reads keep the pipeline well-formed\<close>

text \<open>A handler that fits the gateway; all that the streams need to know of it.\<close>

lemma stream_feed_ok:
  assumes "stream_ok a sp" and "pings_ok env c F hooks w" and "hooks_ok env c hooks"
  shows "\<exists>res. safe_Feed (sonar_hooks (ping_handler env)) data a (sp, w) = Some res
           \<and> (case res of Inl s \<Rightarrow> s = Deadlock
              | Inr (e, a', sp', w') \<Rightarrow> stream_ok a' sp' \<and> pings_ok env c F hooks w')"
proof -
  have a: "asm_inv a" "\<not> a_mu a" "processor_ok sp" using assms(1) by (simp_all add: stream_ok_def)
  obtain res where "safe_Feed (sonar_hooks (ping_handler env)) data a (sp, w) = Some res"
    "case res of Inl s \<Rightarrow> s = Deadlock
     | Inr (e, a', sp', w') \<Rightarrow> asm_inv a' \<and> \<not> a_mu a' \<and> processor_ok sp' \<and> pings_ok env c F hooks w'"
    using safe_Feed_keeps [of a sp "pings_ok env c F hooks" w "ping_handler env" data, OF a assms(2)]
      ping_handler_ok [OF _ assms(3)] by blast
  then show ?thesis
    by (cases res) (auto simp: stream_ok_def)
qed

lemma receiver_round_ok:
  assumes "sr_onPing rx = Some (ping_handler env)" and "stream_ok (sr_asm rx) (sr_sp rx)"
    and "pings_ok env c F hooks w" and "hooks_ok env c hooks"
  shows "\<exists>res. receiver_round ev (rx, w) = Some res
           \<and> (case res of Inl s \<Rightarrow> s = Deadlock
              | Inr (rx', w') \<Rightarrow> sr_onPing rx' = Some (ping_handler env) \<and> stream_ok (sr_asm rx') (sr_sp rx')
                  \<and> pings_ok env c F hooks w')"
proof (cases ev)
  case ReadFailed
  with assms show ?thesis by (simp add: receiver_round_def)
next
  case (Datagram d)
  let ?data = "take 65535 d" and ?rx = "rx\<lparr>sr_stats := count_datagram (take 65535 d) (sr_stats rx)\<rparr>"
  have hooks: "receiver_hooks ?rx = sonar_hooks (ping_handler env)"
    using assms(1) by (simp add: receiver_hooks_def sonar_hooks_def)
  show ?thesis
  proof (cases "sr_useSlidingWindow rx")
    case True
    obtain res where res: "safe_Feed (sonar_hooks (ping_handler env)) ?data (sr_asm rx) (sr_sp rx, w) = Some res"
      "case res of Inl s \<Rightarrow> s = Deadlock | Inr (e, a', sp', w') \<Rightarrow> stream_ok a' sp' \<and> pings_ok env c F hooks w'"
      using stream_feed_ok [OF assms(2-4), of ?data] by blast
    with Datagram True hooks assms(1) show ?thesis
      by (cases res) (auto simp: receiver_round_def Let_def count_decode_error_def split: prod.splits)
  next
    case False
    show ?thesis
    proof (cases "wire_ok ?data")
      case True
      obtain w' where "ping_handler env (wire_ping ?data) w = Inr w'" "pings_ok env c F hooks w'"
        using ping_handler_ok [OF assms(3,4)] by blast
      with True False Datagram assms(1,2) show ?thesis
        by (simp add: receiver_round_def Let_def DecodeRawPacket_ok)
    next
      case bad: False
      then obtain err where "DecodeRawPacket ?data = Inr (Inl err)"
        using DecodeRawPacket_error by blast
      with False Datagram assms show ?thesis
        by (simp add: receiver_round_def Let_def count_decode_error_def)
    qed
  qed
qed

lemma reader_round_ok:
  assumes "ins_ok env ir" and "outer_ok c F o1"
  shows "\<exists>ir' o2. reader_round now ev (ir, o1) = Some (Inr (ir', o2)) \<and> ins_ok env ir' \<and> outer_ok c F o2"
proof (cases ev)
  case ReadFailed
  with assms show ?thesis by (simp add: reader_round_def)
next
  case (Datagram d)
  let ?P = "\<lambda>(ir', o2). outer_ok c F o2 \<and> (\<exists>l. ir' = ir\<lparr>ir_latest := l\<rparr> \<and> (\<forall>d. l = Some d \<longrightarrow> plausible_ins d))"
  have keeps: "\<exists>w'. reader_handler d w = Inr w' \<and> ?P w'" if plausible: "plausible_ins d" and P: "?P w" for d w
  proof -
    obtain l o2 where w: "w = (ir\<lparr>ir_latest := l\<rparr>, o2)" "outer_ok c F o2" using P by (cases w) auto
    obtain o3 where "ins_data_handler env d o2 = Inr o3" "outer_ok c F o3"
      using publications_keep(2) [OF w(2)] by blast
    with plausible w assms(1) show ?thesis
      by (auto simp: reader_handler_def ins_ok_def)
  qed
  have start: "?P (ir, o1)"
    using assms by (auto simp: ins_ok_def intro!: exI [of _ "ir_latest ir"])
  have p: "ins_inv (ir_processor ir)" "\<not> n_mu (ir_processor ir)"
    using assms(1) by (simp_all add: ins_ok_def)
  obtain e p w' where feed: "ins_Feed now (Some reader_handler) (take 4096 d) (ir_processor ir) (ir, o1) = Some (Inr (e, p, w'))"
    "ins_inv p" "\<not> n_mu p" "?P w'"
    using ins_Feed_keeps [of "ir_processor ir" ?P reader_handler "(ir, o1)" now "take 4096 d", OF p keeps start] by blast
  obtain l o2 where w': "w' = (ir\<lparr>ir_latest := l\<rparr>, o2)" "outer_ok c F o2" "\<forall>d. l = Some d \<longrightarrow> plausible_ins d"
    using feed(4) by (cases w') auto
  have "reader_round now ev (ir, o1) = Some (Inr (ir\<lparr>ir_latest := l, ir_processor := p\<rparr>, o2))"
    using feed(1) Datagram assms(1) w'(1) by (simp add: reader_round_def ins_ok_def)
  moreover have "ins_ok env (ir\<lparr>ir_latest := l, ir_processor := p\<rparr>)"
    using assms(1) feed(2,3) w'(3) by (simp add: ins_ok_def)
  ultimately show ?thesis
    using w'(2) by blast
qed

lemma server_ok_session:
  assumes "server_ok env s" and "tc_sessions s' = (tc_sessions s)[i := ss]" and "ss_onPing ss = Some (ping_handler env)"
    and "stream_ok (ss_asm ss) (ss_sp ss)" and "tc_onPing s' = tc_onPing s" and "tc_conns s' = tc_conns s"
    and "tc_maxConns s' = tc_maxConns s" and "t_AssemblerStats (tc_stats s') = t_AssemblerStats (tc_stats s)"
  shows "server_ok env s'"
  using assms by (auto simp: server_ok_def conns_bounded_def dest!: set_update_subset_insert [THEN subsetD])

lemma session_read_ok:
  assumes "server_ok env s" and "i < length (tc_sessions s)" and "pings_ok env c F hooks (tc_world s)" and "hooks_ok env c hooks"
  shows "\<exists>s'. session_read i data s = Some (Inr s') \<and> server_ok env s' \<and> pings_ok env c F hooks (tc_world s')"
proof -
  let ?ss = "tc_sessions s ! i"
  have ss: "ss_onPing ?ss = Some (ping_handler env)" "stream_ok (ss_asm ?ss) (ss_sp ?ss)"
    using assms(1,2) by (auto simp: server_ok_def)
  then have hooks: "session_hooks ?ss = sonar_hooks (ping_handler env)"
    by (simp add: session_hooks_def sonar_hooks_def)
  obtain res where res: "safe_Feed (sonar_hooks (ping_handler env)) data (ss_asm ?ss) (ss_sp ?ss, tc_world s) = Some res"
    "case res of Inl x \<Rightarrow> x = Deadlock | Inr (e, a', sp', w') \<Rightarrow> stream_ok a' sp' \<and> pings_ok env c F hooks w'"
    using stream_feed_ok [OF ss(2) assms(3,4)] by blast
  show ?thesis
  proof (cases res)
    case (Inl x)
    with res hooks have "session_read i data s = Some (Inr (s\<lparr>tc_stats := count_read data (tc_stats s),
        tc_sessions := (tc_sessions s)[i := ?ss\<lparr>ss_stuck := True\<rparr>]\<rparr>))"
      by (simp add: session_read_def Let_def)
    moreover have "server_ok env (s\<lparr>tc_stats := count_read data (tc_stats s),
        tc_sessions := (tc_sessions s)[i := ?ss\<lparr>ss_stuck := True\<rparr>]\<rparr>)"
      using ss by (intro server_ok_session [OF assms(1), of _ i "?ss\<lparr>ss_stuck := True\<rparr>"]) (auto simp: count_read_def)
    ultimately show ?thesis
      using assms(3) by simp
  next
    case (Inr r)
    obtain e a' sp' w' where r: "r = (e, a', sp', w')" by (cases r)
    then obtain s' where s': "session_read i data s = Some (Inr s')" "tc_world s' = w'" "tc_onPing s' = tc_onPing s"
      "tc_sessions s' = (tc_sessions s)[i := ?ss\<lparr>ss_asm := a', ss_sp := sp'\<rparr>]" "tc_conns s' = tc_conns s"
      "tc_maxConns s' = tc_maxConns s" "t_AssemblerStats (tc_stats s') = t_AssemblerStats (tc_stats s)"
      using Inr res hooks by (simp add: session_read_def Let_def count_read_def)
    moreover have "server_ok env s'"
      using s' res(2) Inr r ss by (intro server_ok_session [OF assms(1) s'(4)]) auto
    ultimately show ?thesis
      using res(2) Inr r by simp
  qed
qed

section \<open>Filling keeps the pipeline well-formed\<close>

lemma UpdateVariogram_outcome:
  "UpdateVariogramFromGrid vf = Inl Deadlock \<or> (\<exists>b vf'. UpdateVariogramFromGrid vf = Inr (b, vf') \<and> vf_grid vf' = vf_grid vf)"
  by (auto simp: UpdateVariogramFromGrid_def vf_lock_def vf_unlock_def Let_def split: option.splits)

lemma fit_outcome:
  obtains "(if b then UpdateVariogramFromGrid vf else Inr (False, vf)) = Inl Deadlock"
  | b' vf' where "(if b then UpdateVariogramFromGrid vf else Inr (False, vf)) = Inr (b', vf')" and "vf_grid vf' = vf_grid vf"
  using UpdateVariogram_outcome [of vf] by (cases b) auto

lemma ProcessAndFill_outcome:
  "ProcessAndFill ck points bounds vf = Inl Deadlock
   \<or> (\<exists>e vf'. ProcessAndFill ck points bounds vf = Inr (Inl e, vf'))
   \<or> (\<exists>res vf'. ProcessAndFill ck points bounds vf = Inr (Inr res, vf') \<and> vf_grid vf' \<noteq> None)"
proof (cases "vf_mu vf \<or> points = []")
  case True
  then show ?thesis by (auto simp: ProcessAndFill_def vf_lock_def)
next
  case False
  let ?b = "(case bounds of None \<Rightarrow> defaultBounds | Some f \<Rightarrow> f) points"
  let ?g = "prepare_grid (vf\<lparr>vf_mu := True\<rparr>) points ?b"
  let ?vf2 = "vf\<lparr>vf_mu := True, vf_grid := Some ?g, vf_stats := count_grid (AnalyzeVoids ?g) (vf_stats vf)\<rparr>"
  let ?fit = "if fc_AutoFitVariogram (vf_config vf) then UpdateVariogramFromGrid ?vf2 else Inr (False, ?vf2)"
  have run: "ProcessAndFill ck points bounds vf =
     (if vi_VoidCells (AnalyzeVoids ?g) = 0
      then Inr (Inr (empty_patch\<lparr>pf_FilledPoints := InterpolatedPoints ?g\<rparr>, InterpolatedPoints ?g), vf_unlock ?vf2)
      else case ?fit of Inl s \<Rightarrow> Inl s
           | Inr (b, vf3) \<Rightarrow>
               (case fillVoidsLocked ck (AnalyzeVoids ?g) vf3 of Inl s \<Rightarrow> Inl s
                | Inr (result, vf4) \<Rightarrow>
                    Inr (Inr (result, case vf_grid vf4 of None \<Rightarrow> [] | Some g' \<Rightarrow> InterpolatedPoints g'), vf_unlock vf4)))"
    using False by (simp add: ProcessAndFill_def vf_lock_def Let_def)
  show ?thesis
  proof (cases "vi_VoidCells (AnalyzeVoids ?g) = 0")
    case True
    then show ?thesis by (simp add: run vf_unlock_def)
  next
    case voids: False
    show ?thesis
    proof (rule fit_outcome [of "fc_AutoFitVariogram (vf_config vf)" ?vf2], goal_cases)
      case 1
      with voids show ?thesis unfolding run by simp
    next
      case (2 b vf3)
      obtain res vf4 where "fillVoidsLocked ck (AnalyzeVoids ?g) vf3 = Inr (res, vf4)" "vf_grid vf4 \<noteq> None"
        using 2(2) by (simp add: fillVoidsLocked_def Let_def)
      with voids 2 show ?thesis unfolding run by (simp add: vf_unlock_def)
    qed
  qed
qed

lemma FillFrames_outcome:
  "FillFrames ck frames vf = Inl Deadlock \<or> (\<exists>res vf'. FillFrames ck frames vf = Inr (res, vf'))"
  using ProcessAndFill_outcome [of ck "concat (map f_Points frames)" None vf]
  by (auto simp: FillFrames_def Let_def)

text \<open>
  What the run asks of a property \<open>F\<close> of the filler: a filling that returns keeps it, and so does
  one that blocks inside the filler. \<open>ck\<close> is the filler's clock.
\<close>

locale filler_contract =
  fixes F :: "void_filler option \<Rightarrow> bool"
  assumes filling_keeps: "F (Some vf) \<Longrightarrow> FillFrames ck frames vf = Inr (res, vf') \<Longrightarrow> F (Some vf')"
    and blocking_keeps: "F f \<Longrightarrow> F (map_option (\<lambda>vf. vf\<lparr>vf_mu := True\<rparr>) f)"

context filler_contract
begin

lemma fill_k_ok:
  assumes "pings_ok env c F (g_hooks g) (g_pings g)" and "hooks_ok env c (g_hooks g)"
    and "k < length (rz_started (fw_reorg (pw_frames (g_pings g))))"
  shows "fill_k k g = Inl Deadlock \<or> (\<exists>r o1. fill_k k g = Inr (r, o1) \<and> reorg_ok c r \<and> outer_ok c F o1)"
proof -
  let ?r = "fw_reorg (pw_frames (g_pings g))" and ?o = "fw_outer (pw_frames (g_pings g))"
  have on: "cf_VoidFillEnable c" "outer_ok c F ?o"
    using assms by (auto simp: pings_ok_def reorg_ok_def)
  then obtain vf where vf: "go_filler ?o = Some vf"
    by (auto simp: outer_ok_def)
  have r: "reorg_ok c (?r\<lparr>rz_started := remove_nth k (rz_started ?r)\<rparr>)"
    "reorg_ok c (?r\<lparr>rz_started := remove_nth k (rz_started ?r), rz_filledPoints := ps, rz_fillResults := rs\<rparr>)" for ps rs
    using assms(1) on(1) by (simp_all add: pings_ok_def reorg_ok_def reorg_inv_def)
  have o1: "outer_ok c F (?o\<lparr>go_filler := Some vf'\<rparr>)"
    if "FillFrames (ge_clock env) (map fr_frame (rz_started ?r ! k)) vf = Inr (res, vf')" for res vf'
    using on vf filling_keeps [OF _ that] by (simp add: outer_ok_def)
  have mu: "\<not> rz_fillMu ?r"
    using assms(1) by (simp add: pings_ok_def reorg_ok_def)
  consider "FillFrames (ge_clock env) (map fr_frame (rz_started ?r ! k)) vf = Inl Deadlock"
    | e vf' where "FillFrames (ge_clock env) (map fr_frame (rz_started ?r ! k)) vf = Inr (Inl e, vf')"
    | ps rs vf' where "FillFrames (ge_clock env) (map fr_frame (rz_started ?r ! k)) vf = Inr (Inr (ps, rs), vf')"
    using FillFrames_outcome [of "ge_clock env" "map fr_frame (rz_started ?r ! k)" vf] by (metis sum.exhaust surj_pair)
  then show ?thesis
  proof cases
    case 1
    then show ?thesis
      using assms(2) on vf by (simp add: fill_k_def fill_goroutine_def hooks_ok_def fill_callback_def Let_def)
  next
    case 2
    then show ?thesis
      using assms(2) on vf r(1) o1 [OF 2] by (simp add: fill_k_def fill_goroutine_def hooks_ok_def fill_callback_def Let_def)
  next
    case 3
    obtain o2 where "publish_frames env [filled_frame (rz_started ?r ! k) ps] (?o\<lparr>go_filler := Some vf'\<rparr>) = Inr o2" "outer_ok c F o2"
      using publish_frames_keep [OF o1 [OF 3]] by blast
    with 3 show ?thesis
      using assms(2) on vf r(2) mu
      by (simp add: fill_k_def fill_goroutine_def hooks_ok_def fill_callback_def store_fill_def Let_def del: publish_frames.simps)
  qed
qed

end

section \<open>Every step keeps the gateway well-formed\<close>

lemma session_end_frame:
  "tc_onPing (session_end i s) = tc_onPing s" "tc_world (session_end i s) = tc_world s"
  "tc_sessions (session_end i s) = remove_nth i (tc_sessions s)"
  "t_AssemblerStats (tc_stats (session_end i s)) = t_AssemblerStats (tc_stats s)"
  by (simp_all add: session_end_def Let_def)

lemma tcp_step_ok:
  assumes "tcp_step s l s'" and "server_ok env s" and "pings_ok env c F hooks (tc_world s)" and "hooks_ok env c hooks"
  shows "server_ok env s' \<and> pings_ok env c F hooks (tc_world s')"
  using assms(1)
proof (cases rule: tcp_step.cases)
  case (read i data)
  with session_read_ok [OF assms(2) read(2) assms(3,4), of data] show ?thesis by auto
next
  case (register j l conn addr)
  have "stream_ok (safe_SetDebug d (NewSlidingWindowAssembler (int MaxFrameSize))) new_processor" for d
    by (simp add: stream_ok_def new_assembler_facts new_processor_def processor_ok_def MaxFrameSize_def)
  then have "server_ok env s'"
    using register assms(2) conns_step [OF assms(1)]
    by (auto simp: server_ok_def register_conn_def new_session_fresh)
  with register assms(3) show ?thesis by (simp add: register_conn_def)
next
  case (session_end i)
  have "set (tc_sessions s') \<subseteq> set (tc_sessions s)"
    using set_remove_nth [OF session_end(3)] by (auto simp: session_end(2) session_end_frame)
  then show ?thesis
    using assms(2,3) conns_step [OF assms(1)] by (auto simp: server_ok_def session_end(2) session_end_frame)
qed (use assms conns_step [OF assms(1)] in \<open>auto simp: server_ok_def tcp_Start_def stop_flag_def stop_listener_def
    stop_conns_def split: option.splits\<close>)

context filler_contract
begin

lemma gateway_step_ok:
  assumes "gateway_step now g l g'" and "gateway_ok env c F g"
  shows "gateway_ok env c F g' \<and> g_hooks g' = g_hooks g"
  using assms(1)
proof (cases rule: gateway_step.cases)
  case (sonar ev rx w)
  then show ?thesis
    using assms(2) receiver_round_ok [of "g_sonarRx g" env c F "g_hooks g" "g_pings g" ev]
    by (auto simp: gateway_ok_def receiver_ok_def dest: receiver_round_stuck)
next
  case (sonar_blocks ev)
  then show ?thesis
    using assms(2) by (simp add: gateway_ok_def receiver_ok_def block_receiver_def)
next
  case (ins ev ir o1)
  then show ?thesis
    using assms(2) reader_round_ok [of env "pw_ins (g_pings g)" c F "fw_outer (pw_frames (g_pings g))" now ev]
    by (auto simp: gateway_ok_def pings_ok_def)
next
  case (profile m)
  then show ?thesis
    using assms(2) listen_profiles [of "g_ssp g" "[m]" "g_pings g"]
    by (auto simp: gateway_ok_def pings_ok_def receive_ssp_def beam_UpdateProfile_def simp del: listenSSP.simps)
next
  case (tcp srv l' srv')
  have "server_ok env (srv\<lparr>tc_world := g_pings g\<rparr>)"
    using tcp(3) assms(2) by (auto simp: gateway_ok_def server_ok_def conns_bounded_def)
  with tcp_step_ok [OF tcp(4), of env c F "g_hooks g"] assms(2) tcp(2) show ?thesis
    by (auto simp: gateway_ok_def)
next
  case (fill k r o1)
  then show ?thesis
    using assms(2) fill_k_ok [of env c g k] by (auto simp: gateway_ok_def pings_ok_def set_frames_def)
next
  case (fill_blocks k r o1)
  then show ?thesis
    using assms(2) blocking_keeps [of "go_filler (fw_outer (pw_frames (g_pings g)))"]
    by (auto simp: gateway_ok_def pings_ok_def set_frames_def outer_ok_def reorg_ok_def reorg_inv_def)
qed

lemma gateway_run_ok:
  "gateway_run now g ls g' \<Longrightarrow> gateway_ok env c F g \<Longrightarrow> gateway_ok env c F g'"
  by (induction rule: gateway_run.induct) (auto dest: gateway_step_ok)

end

text \<open>Two properties of the filler that fit: none at all, and that its mutex is held.\<close>

definition any_filler :: "void_filler option \<Rightarrow> bool" where
  "any_filler f = True"

definition held_filler :: "void_filler option \<Rightarrow> bool" where
  "held_filler f = (case f of None \<Rightarrow> False | Some vf \<Rightarrow> vf_mu vf)"

interpretation any: filler_contract any_filler
  by unfold_locales (simp_all add: any_filler_def)

lemma FillFrames_held:
  assumes "vf_mu vf"
  shows "FillFrames ck frames vf =
           (if concat (map f_Points frames) = [] then Inr (Inl NoPoints, vf) else Inl Deadlock)"
  using assms by (simp add: FillFrames_def ProcessAndFill_def vf_lock_def Let_def)

interpretation held: filler_contract held_filler
  by unfold_locales (auto simp: held_filler_def FillFrames_held split: if_splits option.splits)

text \<open>The invariant is about the filler only through \<open>F\<close>.\<close>

lemma gateway_ok_filler:
  assumes "gateway_ok env c F g" and "F' (go_filler (fw_outer (pw_frames (g_pings g))))"
  shows "gateway_ok env c F' g"
  using assms by (simp add: gateway_ok_def pings_ok_def outer_ok_def)

section \<open>From the start\<close>

lemma Init_server:
  assumes "Init env insOk ifaceOk groupOk nowUS c = Inr (Inr g)" and "g_sonarTcp g = Some s"
  shows "tc_onPing s = Some (ping_handler env)" and "tc_conns s = []" and "tc_maxConns s = 8" and "tc_sessions s = []"
    and "\<not> tc_running s" and "t_AssemblerStats (tc_stats s) = zero_stats"
  using assms
  by (auto simp: Init_def Let_def tcp_SetPingHandler_def tcp_SetDebug_def NewSonarTCPServer_def
      split: option.splits sum.splits prod.splits if_splits)

lemma Init_ok:
  assumes "Init env insOk ifaceOk groupOk nowUS c = Inr (Inr g)"
  shows "gateway_ok env c any_filler g"
proof -
  let ?r = "fw_reorg (pw_frames (g_pings g))"
  note init = Init_facts [OF assms] and fill = Init_fill [OF assms] and reader = Init_reader [OF assms]
    and recv = Init_receiver [OF assms]
  obtain r filler rx0 e hub1 where parts: "wire_reorganizer env c = Inr (r, g_hooks g, filler)"
    "pw_frames (g_pings g) = \<lparr>fw_reorg = r, fw_outer = \<lparr>go_hub = hub1, go_filler = filler, go_ticks = 0\<rparr>, fw_next = 0\<rparr>"
    by (rule Init_parts [OF assms])
  have "rz_fillMu ?r = False \<and> rz_started ?r = [] \<and> rz_cache ?r = []"
    using wire_reorganizer_facts(2) [OF parts(1)] by (auto simp: parts(2) empty_reorg_def)
  moreover have "reorg_inv ?r" "0 \<le> cf_MaxCacheFrames c"
    using init(1) wire_reorganizer_facts(1) [OF parts(1)] by (simp_all add: reorg_holds_def)
  ultimately have "reorg_ok c ?r"
    using init(2,3) by (simp add: reorg_ok_def)
  moreover have "outer_ok c any_filler (fw_outer (pw_frames (g_pings g)))"
    using init(4) fill(4) by (simp add: outer_ok_def any_filler_def)
  moreover have "ins_ok env (pw_ins (g_pings g))"
    using reader by (simp add: ins_ok_def)
  ultimately have "pings_ok env c any_filler (g_hooks g) (g_pings g)"
    using init(5) by (simp add: pings_ok_def)
  moreover have "receiver_ok env (g_sonarRx g)"
    using recv(1-3,6) by (auto simp: receiver_ok_def stream_ok_def new_assembler_facts new_processor_def processor_ok_def MaxFrameSize_def)
  moreover have "server_ok env s" if "g_sonarTcp g = Some s" for s
    using Init_server [OF assms that] by (simp add: server_ok_def conns_bounded_def)
  ultimately show ?thesis
    using fill(2,3) Init_ssp [OF assms] by (simp add: gateway_ok_def hooks_ok_def)
qed

text \<open>Starting a part keeps what holds of it.\<close>

lemma part_starts:
  "reader_Start b ir = (e1, ir') \<Longrightarrow> ins_ok env ir \<Longrightarrow> ins_ok env ir'"
  "receiver_Start b rx = (e2, rx') \<Longrightarrow> receiver_ok env rx \<Longrightarrow> receiver_ok env rx'"
  "tcp_Start l s = (e3, s') \<Longrightarrow> server_ok env s \<Longrightarrow> server_ok env s'"
    apply (auto simp: reader_Start_def ins_ok_def split: if_splits) [1]
   apply (auto simp: receiver_Start_def receiver_ok_def split: if_split_asm) [1]
  apply (auto simp: tcp_Start_def server_ok_def conns_bounded_def split: if_splits option.splits) [1]
  done

lemma Start_ok:
  assumes "gateway_Start insListens rxListens tcpListens g = (e, g')" and "gateway_ok env c F g"
  shows "gateway_ok env c F g'"
  using assms
  by (auto simp: gateway_Start_def gateway_ok_def pings_ok_def Let_def split: option.splits prod.splits dest: part_starts)

text \<open>C2. Well-formedness is preserved. In every run of a started gateway, whatever arrives on its
  sockets and channels and however its goroutines take turns, the reorganizer's invariant holds,
  its mutex is free between steps and it caches no more frames than configured, the latest INS
  record is in range with heading, heave and velocity 0, and the TCP server's table of
  connections, which is keyed by address, has at most eight entries with different addresses.
  (What the table says of the sessions alive is \<open>connection_limit\<close>.)\<close>

theorem gateway_stays_well_formed:
  assumes "Init env insOk ifaceOk groupOk nowUS c = Inr (Inr g0)"
    and "gateway_Start insListens rxListens tcpListens g0 = (e, g)" and "gateway_run now g ls g'"
  shows "reorg_inv (fw_reorg (pw_frames (g_pings g')))
       \<and> (\<exists>n. Size (fw_reorg (pw_frames (g_pings g'))) = Inr n \<and> int n \<le> cf_MaxCacheFrames c)
       \<and> (\<exists>latest. Latest (pw_ins (g_pings g')) = Inr latest \<and> pred_option plausible_ins latest)
       \<and> pred_option (\<lambda>s. distinct (map fst (tc_conns s)) \<and> length (tc_conns s) \<le> 8) (g_sonarTcp g')"
proof -
  have ok: "gateway_ok env c any_filler g'"
    using any.gateway_run_ok [OF assms(3) Start_ok [OF assms(2) Init_ok [OF assms(1)]]] .
  then show ?thesis
    by (auto simp: gateway_ok_def pings_ok_def reorg_ok_def ins_ok_def server_ok_def conns_bounded_def Size_def rz_lock_def
        Latest_def pred_option_def)
qed

text \<open>C3. Nothing panics. In every state of a started gateway, whatever is read next, the round of the
  sonar receiver returns or blocks on its assembler's mutex, the round of the INS reader, any
  profile messages and any read of an open TCP session return, and a filling goroutine returns
  or blocks: no index is out of bounds, no nil pointer is followed and no loop goes on for ever.
  Of a filling this is said under the premise that the grid for its points is one that \<open>make\<close>
  accepts (\<open>fill_fits\<close>); points far enough apart, or a small enough configured cell size, make
  the allocation in \<open>NewSpatialGrid\<close> panic.\<close>

theorem gateway_never_panics:
  assumes "Init env insOk ifaceOk groupOk nowUS c = Inr (Inr g0)"
    and "gateway_Start insListens rxListens tcpListens g0 = (e, g)" and "gateway_run now g ls g'"
  shows "(\<not> sr_stuck (g_sonarRx g') \<longrightarrow>
            receiver_round ev (g_sonarRx g', g_pings g') \<in> insert (Some (Inl Deadlock)) (range (Some \<circ> Inr)))
       \<and> reader_round now ev (pw_ins (g_pings g'), fw_outer (pw_frames (g_pings g'))) \<in> range (Some \<circ> Inr)
       \<and> receive_ssp msgs g' \<in> range Inr
       \<and> (g_sonarTcp g' = Some s \<and> i < length (tc_sessions s) \<longrightarrow>
            session_read i data (s\<lparr>tc_world := g_pings g'\<rparr>) \<in> range (Some \<circ> Inr))
       \<and> (k < length (rz_started (fw_reorg (pw_frames (g_pings g'))))
            \<and> fill_fits (gateway_filler_config c)
                (concat (map (f_Points \<circ> fr_frame) (rz_started (fw_reorg (pw_frames (g_pings g'))) ! k))) \<longrightarrow>
            fill_k k g' \<in> insert (Inl Deadlock) (range Inr))"
proof -
  have ok: "gateway_ok env c any_filler g'"
    using any.gateway_run_ok [OF assms(3) Start_ok [OF assms(2) Init_ok [OF assms(1)]]] .
  then have pings: "pings_ok env c any_filler (g_hooks g') (g_pings g')" and hooks: "hooks_ok env c (g_hooks g')"
    and parts: "receiver_ok env (g_sonarRx g')" "h_onSSPUpdate (g_ssp g') = Some ssp_handler"
    by (simp_all add: gateway_ok_def)
  have recv: "receiver_round ev (g_sonarRx g', g_pings g') \<in> insert (Some (Inl Deadlock)) (range (Some \<circ> Inr))"
    if "\<not> sr_stuck (g_sonarRx g')"
  proof -
    have "sr_onPing (g_sonarRx g') = Some (ping_handler env)" "stream_ok (sr_asm (g_sonarRx g')) (sr_sp (g_sonarRx g'))"
      using parts(1) that by (simp_all add: receiver_ok_def)
    from receiver_round_ok [OF this pings hooks, of ev]
    obtain res where "receiver_round ev (g_sonarRx g', g_pings g') = Some res" "\<forall>x. res = Inl x \<longrightarrow> x = Deadlock"
      by force
    then show ?thesis by (cases res) auto
  qed
  have reader: "reader_round now ev (pw_ins (g_pings g'), fw_outer (pw_frames (g_pings g'))) \<in> range (Some \<circ> Inr)"
    using reader_round_ok [of env "pw_ins (g_pings g')" c any_filler "fw_outer (pw_frames (g_pings g'))" now ev] pings
    by (auto simp: pings_ok_def image_iff)
  have ssp: "receive_ssp msgs g' \<in> range Inr"
    using listen_profiles [OF parts(2), of msgs "g_pings g'"] by (simp add: receive_ssp_def)
  have tcp: "session_read i data (s\<lparr>tc_world := g_pings g'\<rparr>) \<in> range (Some \<circ> Inr)"
    if "g_sonarTcp g' = Some s" "i < length (tc_sessions s)"
  proof -
    have "server_ok env (s\<lparr>tc_world := g_pings g'\<rparr>)"
      using ok that(1) by (auto simp: gateway_ok_def server_ok_def conns_bounded_def)
    with session_read_ok [of env "s\<lparr>tc_world := g_pings g'\<rparr>" i c any_filler "g_hooks g'" data] that(2) pings hooks show ?thesis
      by (auto simp: image_iff)
  qed
  have "fill_k k g' \<in> insert (Inl Deadlock) (range Inr)"
    if "k < length (rz_started (fw_reorg (pw_frames (g_pings g'))))"
    using any.fill_k_ok [OF pings hooks that] by auto
  with recv reader ssp tcp show ?thesis by blast
qed

text \<open>A run: a failed read, a profile, and a datagram with an INS frame.\<close>

lemma run_example:
  "\<exists>g0 g g'. Init run_env True True True 0 main_config = Inr (Inr g0)
     \<and> gateway_Start True True (Some 1) g0 = (None, g)
     \<and> gateway_run (\<lambda>k. 1700000000000000) g
          [GSonar ReadFailed, GProfile (RJson (marshal_ssp calm_water)), GIns (Datagram ins_frame_a)] g'
     \<and> \<not> sr_stuck (g_sonarRx g') \<and> \<not> held_filler (go_filler (fw_outer (pw_frames (g_pings g'))))"
proof -
  let ?F = "\<lambda>f. \<not> held_filler f"
  obtain g0 g where run: "Init run_env True True True 0 main_config = Inr (Inr g0)"
    "gateway_Start True True (Some 1) g0 = (None, g)"
    by (rule run_starts [OF main_cache(1)])
  note start = Start_facts [OF run(2) Init_reader(8) [OF run(1)] Init_receiver(4) [OF run(1)]]
  have ok: "gateway_ok run_env main_config any_filler g"
    using Start_ok [OF run(2) Init_ok [OF run(1)]] .
  have free: "\<not> held_filler (go_filler (fw_outer (pw_frames (g_pings g))))"
    using Init_fill(4) [OF run(1)] by (simp add: start(3) held_filler_def new_filler_facts)
  have s1: "gateway_step (\<lambda>k. 1700000000000000) g (GSonar ReadFailed) g"
  proof -
    have "sr_running (g_sonarRx g)" "\<not> sr_stuck (g_sonarRx g)"
      using Init_receiver(6) [OF run(1)] by (simp_all add: start(2))
    moreover have "receiver_round ReadFailed (g_sonarRx g, g_pings g) = Some (Inr (g_sonarRx g, g_pings g))"
      by (simp add: receiver_round_def)
    moreover have "g\<lparr>g_sonarRx := g_sonarRx g, g_pings := g_pings g\<rparr> = g" by simp
    ultimately show ?thesis by (metis gateway_step.sonar)
  qed
  define bp where "bp = beam_UpdateProfile (latest_profile [RJson (marshal_ssp calm_water)]
      (rt_profile (bp_rayTracer (pw_beam (g_pings g))))) (pw_beam (g_pings g))"
  define g2 where "g2 = g\<lparr>g_pings := (g_pings g)\<lparr>pw_beam := bp\<rparr>\<rparr>"
  have "h_onSSPUpdate (g_ssp g) = Some ssp_handler"
    using ok by (simp add: gateway_ok_def)
  then have "receive_ssp [RJson (marshal_ssp calm_water)] g = Inr g2"
    unfolding receive_ssp_def g2_def bp_def by (subst listen_profiles) simp_all
  moreover have "ir_running (pw_ins (g_pings g2))" "\<not> sr_stuck (g_sonarRx g2)"
    using Init_receiver(6) [OF run(1)] by (simp_all add: g2_def start(2,3))
  moreover have "\<not> held_filler (go_filler (fw_outer (pw_frames (g_pings g2))))"
    using free by (simp add: g2_def)
  ultimately have g2: "receive_ssp [RJson (marshal_ssp calm_water)] g = Inr g2" "ir_running (pw_ins (g_pings g2))"
    "\<not> sr_stuck (g_sonarRx g2)" "\<not> held_filler (go_filler (fw_outer (pw_frames (g_pings g2))))"
    by blast+
  have s2: "gateway_step (\<lambda>k. 1700000000000000) g (GProfile (RJson (marshal_ssp calm_water))) g2"
    using gateway_step.profile [OF g2(1)] .
  have "gateway_ok run_env main_config ?F g2"
    using gateway_ok_filler [OF conjunct1 [OF any.gateway_step_ok [OF s2 ok]], of ?F] g2(4) by simp
  then obtain ir o1 where round: "reader_round (\<lambda>k. 1700000000000000) (Datagram ins_frame_a)
      (pw_ins (g_pings g2), fw_outer (pw_frames (g_pings g2))) = Some (Inr (ir, o1))" "outer_ok main_config ?F o1"
    using reader_round_ok [of run_env "pw_ins (g_pings g2)" main_config ?F "fw_outer (pw_frames (g_pings g2))"
        "\<lambda>k. 1700000000000000" "Datagram ins_frame_a"]
    by (auto simp: gateway_ok_def pings_ok_def)
  from gateway_step.ins [OF g2(2) round(1)] s1 s2
  have "gateway_run (\<lambda>k. 1700000000000000) g
      [GSonar ReadFailed, GProfile (RJson (marshal_ssp calm_water)), GIns (Datagram ins_frame_a)]
      (g2\<lparr>g_pings := (g_pings g2)\<lparr>pw_ins := ir, pw_frames := (pw_frames (g_pings g2))\<lparr>fw_outer := o1\<rparr>\<rparr>\<rparr>)"
    by (blast intro: gateway_run.intros)
  moreover have "\<not> sr_stuck (g_sonarRx (g2\<lparr>g_pings := (g_pings g2)\<lparr>pw_ins := ir,
      pw_frames := (pw_frames (g_pings g2))\<lparr>fw_outer := o1\<rparr>\<rparr>\<rparr>))"
    using g2(3) by simp
  moreover have "\<not> held_filler (go_filler (fw_outer (pw_frames (g_pings (g2\<lparr>g_pings := (g_pings g2)\<lparr>pw_ins := ir,
      pw_frames := (pw_frames (g_pings g2))\<lparr>fw_outer := o1\<rparr>\<rparr>\<rparr>)))))"
    using round(2) by (simp add: outer_ok_def)
  ultimately show ?thesis
    using run by blast
qed

lemma gateway_stays_well_formed_witness:
  "\<exists>g0 g g' n. Init run_env True True True 0 main_config = Inr (Inr g0)
     \<and> gateway_Start True True (Some 1) g0 = (None, g)
     \<and> gateway_run (\<lambda>k. 1700000000000000) g
          [GSonar ReadFailed, GProfile (RJson (marshal_ssp calm_water)), GIns (Datagram ins_frame_a)] g'
     \<and> Size (fw_reorg (pw_frames (g_pings g'))) = Inr n \<and> int n \<le> 128"
proof -
  obtain g0 g g' where run: "Init run_env True True True 0 main_config = Inr (Inr g0)"
    "gateway_Start True True (Some 1) g0 = (None, g)"
    "gateway_run (\<lambda>k. 1700000000000000) g
       [GSonar ReadFailed, GProfile (RJson (marshal_ssp calm_water)), GIns (Datagram ins_frame_a)] g'"
    using run_example by blast
  have "cf_MaxCacheFrames main_config = 128" by (simp add: main_config_def)
  with gateway_stays_well_formed [OF run] run show ?thesis by auto
qed

lemma gateway_never_panics_witness:
  "\<exists>g0 g g'. Init run_env True True True 0 main_config = Inr (Inr g0)
     \<and> gateway_Start True True (Some 1) g0 = (None, g)
     \<and> gateway_run (\<lambda>k. 1700000000000000) g
          [GSonar ReadFailed, GProfile (RJson (marshal_ssp calm_water)), GIns (Datagram ins_frame_a)] g'
     \<and> receiver_round (Datagram bad_headers) (g_sonarRx g', g_pings g') \<in> insert (Some (Inl Deadlock)) (range (Some \<circ> Inr))"
proof -
  obtain g0 g g' where run: "Init run_env True True True 0 main_config = Inr (Inr g0)"
    "gateway_Start True True (Some 1) g0 = (None, g)"
    "gateway_run (\<lambda>k. 1700000000000000) g
       [GSonar ReadFailed, GProfile (RJson (marshal_ssp calm_water)), GIns (Datagram ins_frame_a)] g'"
    "\<not> sr_stuck (g_sonarRx g')"
    using run_example by blast
  with gateway_never_panics [OF run(1-3), of "Datagram bad_headers"] show ?thesis by blast
qed

end
