(* ===== verification/Gateway_Metrics.thy ===== *)
theory Gateway_Metrics
  imports Gateway_Steps
begin

text \<open>
  The statistics of \<open>cmd/gateway/main.go\<close>: the metrics that a goroutine logs at every tick, and
  the final statistics that \<open>Stop\<close> prints. A line of the log is the format string of \<open>log.Printf\<close>
  and its arguments. Counters are read under the mutexes of their owners, so a call can block
  after some of its lines.
\<close>

section \<open>Log lines\<close>

datatype log_value = LU u64 | LI int | LR real | LS string

type_synonym log_line = "string \<times> log_value list"

text \<open>What a piece of code prints, and how it stops when it does not return.\<close>

type_synonym printed = "log_line list \<times> stuck option"

definition Printf :: "string \<Rightarrow> log_value list \<Rightarrow> printed" where
  "Printf fmt args = ([(fmt, args)], None)"

fun print_all :: "printed list \<Rightarrow> printed" where
  "print_all [] = ([], None)"
| "print_all ((ls, Some s) # ps) = (ls, Some s)"
| "print_all ((ls, None) # ps) = (ls @ fst (print_all ps), snd (print_all ps))"

text \<open>Printing what a read under a mutex returns.\<close>

definition print_read :: "'a go \<Rightarrow> ('a \<Rightarrow> printed) \<Rightarrow> printed" where
  "print_read r f = (case r of Inl s \<Rightarrow> ([], Some s) | Inr a \<Rightarrow> f a)"

definition print_if :: "bool \<Rightarrow> printed list \<Rightarrow> printed" where
  "print_if b ps = (if b then print_all ps else ([], None))"

text \<open>\<open>kriging.RadToDeg\<close>, with the constant of the source.\<close>

definition kriging_RadToDeg :: real where
  "kriging_RadToDeg = 180 / go_pi"

section \<open>Metrics\<close>

abbreviation gateway_reorg :: "'c gateway \<Rightarrow> PatchFillResult reorganizer" where
  "gateway_reorg g \<equiv> fw_reorg (pw_frames (g_pings g))"

abbreviation gateway_filler :: "'c gateway \<Rightarrow> void_filler option" where
  "gateway_filler g \<equiv> go_filler (fw_outer (pw_frames (g_pings g)))"

definition assembler_metrics :: "string \<Rightarrow> AssemblerStats \<Rightarrow> printed" where
  "assembler_metrics fmt as =
     print_if (BytesFed as > 0)
       [Printf fmt [LU (SyncFound as), LU (HeaderParsed as), LU (FramesCompleted as), LU (ResyncEvents as),
                    LU (InvalidLength as), LU (Overruns as)]]"

definition udp_assembler_format :: string where
  "udp_assembler_format = ''  UDP Assembler: sync=%d, header=%d, frames=%d, resync=%d, bad_len=%d, overrun=%d''"

definition tcp_assembler_format :: string where
  "tcp_assembler_format = ''  TCP Assembler: sync=%d, header=%d, frames=%d, resync=%d, bad_len=%d, overrun=%d''"

definition tcp_metrics :: "'w tcp_server option \<Rightarrow> printed" where
  "tcp_metrics srv =
     (case srv of
        None \<Rightarrow> ([], None)
      | Some s \<Rightarrow>
          (let ts = tcp_Stats s in
           print_all
             [Printf ''  TCP Sonar: conns=%d, bytes=%d, frames=%d, decode_err=%d''
                [LU (t_ConnectionsOpened ts - t_ConnectionsClosed ts), LU (t_BytesReceived ts),
                 LU (t_PacketsReceived ts), LU (t_DecodeErrors ts)],
              assembler_metrics tcp_assembler_format (t_AssemblerStats ts)]))"

text \<open>The filler's counters, and the last stored result of a filling.\<close>

definition fill_metrics :: "'c gateway \<Rightarrow> printed" where
  "fill_metrics g =
     (case gateway_filler g of
        None \<Rightarrow> ([], None)
      | Some vf \<Rightarrow>
          print_read (filler_GetStats vf) (\<lambda>vs.
          print_all
            [Printf ''  Void Fill: grids=%d, void_detected=%d, filled=%d, skipped=%d, kriging=%d, idw=%d''
               [LU (fs_GridsProcessed vs), LU (fs_VoidCellsDetected vs), LU (fs_VoidCellsFilled vs),
                LU (fs_VoidCellsSkipped vs), LU (fs_KrigingInterpolations vs), LU (fs_IDWFallbacks vs)],
             print_if (fs_KrigingInterpolations vs + fs_IDWFallbacks vs > 0)
               [Printf ''  Void Fill Perf: avg=%.1fus, min=%.1fus, max=%.1fus''
                  [LR (fs_AvgInterpolateUs vs), LR (fs_MinInterpolateUs vs), LR (fs_MaxInterpolateUs vs)]],
             print_read (GetFillResults (gateway_reorg g)) (\<lambda>results.
               if length results > 0 then
                 (let last = results ! (length results - 1) in
                  Printf ''  Last Patch: id=%d, voids=%d, filled=%d, kriging=%d, idw=%d, elapsed=%dus''
                    [LU (pf_PatchID last), LI (pf_VoidCellsInPatch last), LI (pf_FilledCells last),
                     LI (pf_KrigingCount last), LI (pf_IDWCount last), LI (pf_ElapsedUs last)])
               else ([], None))]))"

definition logCurrentStats :: "'c gateway \<Rightarrow> printed" where
  "logCurrentStats g =
     print_read (receiver_GetStats (g_sonarRx g)) (\<lambda>sonar.
     print_read (reader_Stats (pw_ins (g_pings g))) (\<lambda>ins.
     (let (processed, dropped) = beam_GetStats (pw_beam (g_pings g));
          redis = hub_GetStats (go_hub (fw_outer (pw_frames (g_pings g))))
      in print_all
        [Printf ''--- Gateway Metrics ---'' [],
         Printf ''  UDP Sonar: pkts=%d, decode_err=%d, bytes=%d''
           [LU (rs_PacketsReceived sonar), LU (rs_DecodeErrors sonar), LU (rs_BytesReceived sonar)],
         assembler_metrics udp_assembler_format (rs_AssemblerStats sonar),
         tcp_metrics (g_sonarTcp g),
         Printf ''  INS: frames=%d, resync=%d, bad_ts=%d, overrun=%d''
           [LU (ns_FramesCompleted ins), LU (ns_ResyncEvents ins), LU (ns_BadTimestamp ins), LU (ns_Overruns ins)],
         Printf ''  Beam: processed=%d, dropped=%d'' [LU processed, LU dropped],
         Printf ''  Redis: frames=%d, points=%d, ssp=%d, ins=%d''
           [LU (hs_FramesPublished redis), LU (hs_PointsPublished redis), LU (hs_SSPUpdates redis),
            LU (hs_InspDataUpdates redis)],
         print_read (Size (gateway_reorg g)) (\<lambda>n. Printf ''  PointCloud: cache=%d frames'' [LI (int n)]),
         fill_metrics g,
         Printf ''---------------------'' []])))"

text \<open>\<open>startMetricsLogger\<close>: the goroutine logs at every tick until \<open>metricsDone\<close> is closed;
  \<open>gs\<close> are the states of the gateway at its ticks.\<close>

definition metrics_logger :: "'c gateway list \<Rightarrow> printed" where
  "metrics_logger gs = print_all (map logCurrentStats gs)"

section \<open>Final statistics\<close>

definition assembler_final :: "AssemblerStats \<Rightarrow> printed" where
  "assembler_final as =
     print_if (BytesFed as > 0)
       [Printf ''  Assembler:'' [],
        Printf ''    Sync found:      %d'' [LU (SyncFound as)],
        Printf ''    Header parsed:   %d'' [LU (HeaderParsed as)],
        Printf ''    Frames done:   %d'' [LU (FramesCompleted as)],
        Printf ''    Resync events: %d'' [LU (ResyncEvents as)],
        Printf ''    Invalid lengths: %d'' [LU (InvalidLength as)],
        Printf ''    Buffer overruns: %d'' [LU (Overruns as)]]"

definition tcp_final :: "'w tcp_server option \<Rightarrow> printed" where
  "tcp_final srv =
     (case srv of
        None \<Rightarrow> ([], None)
      | Some s \<Rightarrow>
          (let ts = tcp_Stats s in
           print_all
             [Printf ''TCP Sonar:'' [],
              Printf ''  Connections opened:  %d'' [LU (t_ConnectionsOpened ts)],
              Printf ''  Connections closed: %d'' [LU (t_ConnectionsClosed ts)],
              Printf ''  Packets received:  %d'' [LU (t_PacketsReceived ts)],
              Printf ''  Decode errors: %d'' [LU (t_DecodeErrors ts)],
              Printf ''  Bytes received: %d'' [LU (t_BytesReceived ts)],
              assembler_final (t_AssemblerStats ts)]))"

definition fill_final :: "void_filler option \<Rightarrow> printed" where
  "fill_final filler =
     (case filler of
        None \<Rightarrow> ([], None)
      | Some vf \<Rightarrow>
          print_read (filler_GetStats vf) (\<lambda>vs.
          print_all
            [Printf ''Void Fill (Kriging):'' [],
             Printf ''  Grids processed:   %d'' [LU (fs_GridsProcessed vs)],
             Printf ''  Void cells detected: %d'' [LU (fs_VoidCellsDetected vs)],
             Printf ''  Void cells filled: %d'' [LU (fs_VoidCellsFilled vs)],
             Printf ''  Void cells skipped: %d'' [LU (fs_VoidCellsSkipped vs)],
             Printf ''  Kriging interpolations: %d'' [LU (fs_KrigingInterpolations vs)],
             Printf ''  IDW fallbacks:      %d'' [LU (fs_IDWFallbacks vs)],
             print_if (fs_KrigingInterpolations vs + fs_IDWFallbacks vs > 0)
               [Printf ''  Interpolation Perf:'' [],
                Printf ''    Avg: %.1f us'' [LR (fs_AvgInterpolateUs vs)],
                Printf ''    Min: %.1f us'' [LR (fs_MinInterpolateUs vs)],
                Printf ''    Max: %.1f us'' [LR (fs_MaxInterpolateUs vs)]],
             print_read (GetVariogram vf) (\<lambda>vg.
             print_all
               [Printf ''  Variogram:'' [],
                Printf ''    Model: %s'' [LS (modelName (v_Model vg))],
                Printf ''    Nugget: %.4f'' [LR (v_Nugget vg)],
                Printf ''    Sill:   %.4f'' [LR (v_Sill vg)],
                Printf ''    Range:  %.2f m'' [LR (v_Range vg)],
                print_if (v_AnisoRatio vg \<noteq> 1)
                  [Printf ''    Aniso:  ratio=%.2f angle=%.1fdeg''
                     [LR (v_AnisoRatio vg), LR (v_AnisoAngle vg * kriging_RadToDeg)]]])]))"

definition printFinalStats :: "'c gateway \<Rightarrow> printed" where
  "printFinalStats g =
     print_all
       [Printf ''--- Final statistics ---'' [],
        print_read (receiver_GetStats (g_sonarRx g)) (\<lambda>sonar.
        print_read (reader_Stats (pw_ins (g_pings g))) (\<lambda>ins.
        (let (processed, dropped) = beam_GetStats (pw_beam (g_pings g));
             redis = hub_GetStats (go_hub (fw_outer (pw_frames (g_pings g))))
         in print_all
           [Printf ''UDP Sonar:'' [],
            Printf ''  Packets received:  %d'' [LU (rs_PacketsReceived sonar)],
            Printf ''  Decode errors: %d'' [LU (rs_DecodeErrors sonar)],
            Printf ''  Bytes received: %d'' [LU (rs_BytesReceived sonar)],
            assembler_final (rs_AssemblerStats sonar),
            tcp_final (g_sonarTcp g),
            Printf ''INS Reader:'' [],
            Printf ''  Bytes fed:       %d'' [LU (ns_BytesFed ins)],
            Printf ''  Frames completed: %d'' [LU (ns_FramesCompleted ins)],
            Printf ''  Resync events:   %d'' [LU (ns_ResyncEvents ins)],
            Printf ''  Bad timestamps:  %d'' [LU (ns_BadTimestamp ins)],
            Printf ''  Buffer overruns:  %d'' [LU (ns_Overruns ins)],
            Printf ''Beam Processor:'' [],
            Printf ''  Processed: %d'' [LU processed],
            Printf ''  Dropped:   %d'' [LU dropped],
            Printf ''Redis Hub:'' [],
            Printf ''  Frames published: %d'' [LU (hs_FramesPublished redis)],
            Printf ''  Points published: %d'' [LU (hs_PointsPublished redis)],
            Printf ''  SSP updates:    %d'' [LU (hs_SSPUpdates redis)],
            Printf ''  INS updates:    %d'' [LU (hs_InspDataUpdates redis)],
            fill_final (gateway_filler g),
            Printf ''=========================='' []])))]"

text \<open>\<open>Stop\<close> after the TCP server has stopped, with its output.\<close>

definition finish_Stop :: "'c gateway \<Rightarrow> printed" where
  "finish_Stop g =
     print_read (stop_pipeline g) (\<lambda>g'.
       print_all [printFinalStats g', Printf ''=== AUV Sonar Gateway stopped ==='' []])"

section \<open>When the statistics block\<close>

text \<open>Output comes out line by line until the first piece that stops.\<close>

lemma print_all_Cons:
  "print_all (p # ps) =
     (if snd p = None then (fst p @ fst (print_all ps), snd (print_all ps)) else p)"
  by (cases p; cases "snd p") auto

lemma print_simps [simp]:
  "snd (Printf fmt args) = None" "fst (Printf fmt args) = [(fmt, args)]"
  "snd (print_all []) = None" "fst (print_all []) = []"
  "snd (print_all (p # ps)) = (if snd p = None then snd (print_all ps) else snd p)"
  "fst (print_all (p # ps)) = fst p @ (if snd p = None then fst (print_all ps) else [])"
  "print_read (Inr a) f = f a" "print_read (Inl s) f = ([], Some s)"
  "print_if True ps = print_all ps" "print_if False ps = ([], None)"
  by (simp_all add: Printf_def print_all_Cons print_read_def print_if_def)

lemma print_if_returns: "snd (print_all ps) = None \<Longrightarrow> snd (print_if b ps) = None"
  by (simp add: print_if_def)

lemma pieces_return [simp]:
  "snd (assembler_metrics fmt as) = None" "snd (tcp_metrics srv) = None"
  "snd (assembler_final as) = None" "snd (tcp_final srv) = None"
  by (simp_all add: assembler_metrics_def tcp_metrics_def assembler_final_def tcp_final_def print_if_returns Let_def
      split: option.split del: print_all.simps)

text \<open>The reads under a mutex.\<close>

lemma receiver_read:
  assumes "receiver_ok env rx"
  shows "receiver_GetStats rx =
     (if sr_stuck rx then Inl Deadlock else Inr ((sr_stats rx)\<lparr>rs_AssemblerStats := a_stats (sr_asm rx)\<rparr>))"
  using assms
  by (cases "sr_stuck rx") (auto simp: receiver_ok_def receiver_GetStats_def safe_Stats_def Stats_def lock_def stream_ok_def)

lemma locked_reads:
  "ins_ok env ir \<Longrightarrow> reader_Stats ir = Inr (n_stats (ir_processor ir))"
  "filler_GetStats vf = (if vf_mu vf then Inl Deadlock else Inr (vf_stats vf))"
  "GetVariogram vf = (if vf_mu vf then Inl Deadlock else Inr (vf_variogram vf))"
  "reorg_ok c r \<Longrightarrow> Size r = Inr (length (rz_cache r))"
  "reorg_ok c r \<Longrightarrow> GetFillResults r = Inr (rz_fillResults r)"
  by (auto simp: ins_ok_def reader_Stats_def ins_Stats_def ins_lock_def filler_GetStats_def GetVariogram_def vf_lock_def reorg_ok_def Size_def
      rz_lock_def GetFillResults_def)

lemma fill_pieces_stop:
  assumes "reorg_ok c (gateway_reorg g)"
  shows "snd (fill_metrics g) = (if held_filler (gateway_filler g) then Some Deadlock else None)"
    and "snd (fill_final f) = (if held_filler f then Some Deadlock else None)"
  using locked_reads(5) [OF assms]
  by (auto simp: fill_metrics_def fill_final_def locked_reads(2,3) held_filler_def print_if_returns Let_def
      split: option.split simp del: print_all.simps)

lemma logCurrentStats_stops:
  assumes "gateway_ok env c F g"
  shows "snd (logCurrentStats g)
           = (if sr_stuck (g_sonarRx g) \<or> held_filler (gateway_filler g) then Some Deadlock else None)"
proof -
  have ok: "receiver_ok env (g_sonarRx g)" "ins_ok env (pw_ins (g_pings g))" "reorg_ok c (gateway_reorg g)"
    using assms by (simp_all add: gateway_ok_def pings_ok_def)
  show ?thesis
    by (cases "sr_stuck (g_sonarRx g)")
      (simp_all add: logCurrentStats_def receiver_read [OF ok(1)] locked_reads(1) [OF ok(2)] locked_reads(4) [OF ok(3)]
        fill_pieces_stop(1) [OF ok(3)] beam_GetStats_def Let_def del: print_all.simps)
qed

lemma printFinalStats_stops:
  assumes "gateway_ok env c F g"
  shows "snd (printFinalStats g)
           = (if sr_stuck (g_sonarRx g) \<or> held_filler (gateway_filler g) then Some Deadlock else None)"
proof -
  have ok: "receiver_ok env (g_sonarRx g)" "ins_ok env (pw_ins (g_pings g))" "reorg_ok c (gateway_reorg g)"
    using assms by (simp_all add: gateway_ok_def pings_ok_def)
  show ?thesis
    by (cases "sr_stuck (g_sonarRx g)")
      (simp_all add: printFinalStats_def receiver_read [OF ok(1)] locked_reads(1) [OF ok(2)]
        fill_pieces_stop(2) [OF ok(3)] beam_GetStats_def Let_def del: print_all.simps)
qed

text \<open>The formats of the lines.\<close>

definition formats :: "printed \<Rightarrow> string set" where
  "formats p = fst ` set (fst p)"

lemma formats_simps [simp]:
  "formats (Printf fmt args) = {fmt}" "formats ([], s) = {}"
  "formats (print_all []) = {}"
  "formats (print_all (p # ps)) = formats p \<union> (if snd p = None then formats (print_all ps) else {})"
  by (cases "snd p"; simp add: formats_def image_Un del: print_all.simps)+

lemma formats_if: "formats (print_if b ps) = (if b then formats (print_all ps) else {})"
  by (simp add: print_if_def)

lemma print_read_cases: "formats (print_read r f) = (case r of Inl s \<Rightarrow> {} | Inr a \<Rightarrow> formats (f a))"
  by (simp add: print_read_def split: sum.split)

lemma tcp_metrics_formats:
  assumes "\<forall>s. srv = Some s \<longrightarrow> server_ok env s"
  shows "tcp_assembler_format \<notin> formats (tcp_metrics srv)"
  using assms
  by (auto simp: tcp_metrics_def assembler_metrics_def server_ok_def tcp_Stats_def zero_stats_def formats_if
      tcp_assembler_format_def Let_def split: option.split simp del: print_all.simps)

lemma fill_metrics_formats: "tcp_assembler_format \<notin> formats (fill_metrics g)"
  by (auto simp: fill_metrics_def formats_if print_read_cases tcp_assembler_format_def Let_def
      split: option.split sum.split simp del: print_all.simps)

lemma logCurrentStats_formats:
  assumes "gateway_ok env c F g"
  shows "tcp_assembler_format \<notin> formats (logCurrentStats g)"
proof -
  have "tcp_assembler_format \<notin> formats (tcp_metrics (g_sonarTcp g))"
    using assms tcp_metrics_formats [of "g_sonarTcp g" env] by (simp add: gateway_ok_def)
  moreover have "tcp_assembler_format \<notin> formats (assembler_metrics udp_assembler_format as)" for as
    by (simp add: assembler_metrics_def formats_if udp_assembler_format_def tcp_assembler_format_def)
  ultimately show ?thesis
    using fill_metrics_formats [of g]
    by (auto simp: logCurrentStats_def print_read_cases beam_GetStats_def tcp_assembler_format_def Let_def
        split: sum.splits simp del: print_all.simps)
qed

section \<open>After a filling has blocked\<close>

lemma fill_callback_held:
  assumes "held_filler (go_filler o1)"
  shows "fill_callback env frames o1 =
           (if concat (map f_Points frames) = [] then Inr (None, o1) else Inl Deadlock)"
proof -
  obtain vf where vf: "go_filler o1 = Some vf" "vf_mu vf"
    using assms by (auto simp: held_filler_def split: option.splits)
  moreover have "o1\<lparr>go_filler := Some vf\<rparr> = o1"
    using vf(1) by (cases o1) simp
  ultimately show ?thesis
    by (simp add: fill_callback_def FillFrames_held [OF vf(2)] del: concat_eq_Nil_conv)
qed

lemma Flush_held:
  assumes "reorg_ok c r" and "hooks_ok env c hooks" and "outer_ok c held_filler o1"
  shows "Flush hooks r o1 = Inl Deadlock
       \<or> (\<exists>fs r' o2. Flush hooks r o1 = Inr (fs, r', o2) \<and> held_filler (go_filler o2))"
proof -
  obtain xs where xs: "heap_drain ref_ts (rz_frameHeap r) = Inr xs"
    using heap_drain_sorted [of ref_ts "rz_frameHeap r"] assms(1) by (auto simp: reorg_ok_def reorg_inv_def)
  have held: "held_filler (go_filler o1)"
    using assms(3) by (simp add: outer_ok_def)
  have fill: "flush_fill hooks xs r1 o1 = Inl Deadlock \<or> flush_fill hooks xs r1 o1 = Inr (map fr_frame xs, r1, o1)" for r1
    using assms(2) fill_callback_held [OF held, of env "map fr_frame xs"]
    by (auto simp: flush_fill_def hooks_ok_def)
  obtain o2 where o2: "publish_frames env (map fr_frame xs) o1 = Inr o2" "outer_ok c held_filler o2"
    using publish_frames_keep [OF assms(3)] by blast
  let ?r2 = "r\<lparr>rz_mu := True, rz_cache := [], rz_frameHeap := heap_Init ref_ts [], rz_frameOrder := []\<rparr>"
  have flush: "Flush hooks r o1 =
      (case flush_fill hooks xs ?r2 o1 of
         Inl s \<Rightarrow> Inl s
       | Inr (result, r3, w1) \<Rightarrow>
           if result = [] then Inr (result, rz_unlock r3, w1)
           else case publish_frames env result w1 of Inl s \<Rightarrow> Inl s | Inr w2 \<Rightarrow> Inr (result, rz_unlock r3, w2))"
    using assms(1,2) xs by (auto simp: Flush_def rz_lock_def reorg_ok_def hooks_ok_def split: sum.split prod.split)
  from fill [of ?r2] show ?thesis
  proof
    assume "flush_fill hooks xs ?r2 o1 = Inl Deadlock"
    then show ?thesis by (simp add: flush)
  next
    assume "flush_fill hooks xs ?r2 o1 = Inr (map fr_frame xs, ?r2, o1)"
    then show ?thesis
      using o2 held unfolding flush by (cases "xs = []") (auto simp: outer_ok_def simp del: publish_frames.simps)
  qed
qed

text \<open>\<open>Stop\<close> with a held filler: the receiver's goroutine, the flush or the last statistics block it.\<close>

lemma finish_Stop_held:
  assumes "gateway_ok env c held_filler g"
  shows "snd (finish_Stop g) = Some Deadlock"
proof -
  let ?fw = "pw_frames (g_pings g)"
  have ok: "reorg_ok c (fw_reorg ?fw)" "hooks_ok env c (g_hooks g)" "outer_ok c held_filler (fw_outer ?fw)"
    "ins_ok env (pw_ins (g_pings g))" "receiver_ok env (g_sonarRx g)"
    using assms by (simp_all add: gateway_ok_def pings_ok_def)
  consider "stop_pipeline g = Inl Deadlock"
    | rx fs r o2 where "receiver_Stop (g_sonarRx g) = Inr rx" "Flush (g_hooks g) (fw_reorg ?fw) (fw_outer ?fw) = Inr (fs, r, o2)"
      "held_filler (go_filler o2)"
    using Flush_held [OF ok(1-3)]
    by (cases "sr_running (g_sonarRx g)"; cases "sr_stuck (g_sonarRx g)") (auto simp: stop_pipeline_def receiver_Stop_def Let_def)
  then show ?thesis
  proof cases
    case 1
    then show ?thesis by (simp add: finish_Stop_def)
  next
    case 2
    let ?g = "g\<lparr>g_sonarRx := rx, g_pings := (g_pings g)\<lparr>pw_ins := reader_Stop (pw_ins (g_pings g)),
      pw_frames := ?fw\<lparr>fw_reorg := r, fw_outer := o2\<lparr>go_hub := Disconnect (go_hub o2)\<rparr>\<rparr>\<rparr>\<rparr>"
    have stop: "stop_pipeline g = Inr ?g"
      using 2 by (simp add: stop_pipeline_def Let_def)
    have rx: "receiver_ok env rx"
      using 2(1) ok(5) by (auto simp: receiver_Stop_def receiver_ok_def split: if_split_asm)
    have ir: "ins_ok env (reader_Stop (pw_ins (g_pings g)))"
      using ok(4) by (simp add: reader_Stop_def ins_ok_def)
    have "snd (fill_final (go_filler o2)) = Some Deadlock"
      using fill_pieces_stop(2) [OF ok(1), of "go_filler o2"] 2(3) by simp
    then have "snd (printFinalStats ?g) = Some Deadlock"
      by (simp add: printFinalStats_def receiver_read [OF rx] locked_reads(1) [OF ir] beam_GetStats_def Let_def
          del: print_all.simps)
    then show ?thesis
      by (simp add: finish_Stop_def stop del: print_all.simps)
  qed
qed

text \<open>What a blocked filling leaves behind.\<close>

lemma blocked_fill_holds:
  assumes "gateway_step now g (GFill k) g'" and "fill_k k g = Inl Deadlock" and "gateway_ok env c any_filler g"
  shows "gateway_ok env c held_filler g'"
proof -
  have ok: "gateway_ok env c any_filler g'"
    using any.gateway_step_ok [OF assms(1,3)] by simp
  have "held_filler (gateway_filler g')"
    using assms(1)
  proof (rule fill_stepE, goal_cases)
    case 1
    with assms(2) show ?case by simp
  next
    case 2
    then have "rz_started (gateway_reorg g) \<noteq> []" by auto
    then have "gateway_filler g \<noteq> None"
      using assms(3) by (auto simp: gateway_ok_def pings_ok_def reorg_ok_def outer_ok_def)
    with 2 show ?case
      by (auto simp: set_frames_def held_filler_def)
  qed
  then show ?thesis
    using gateway_ok_filler [OF ok] by blast
qed

text \<open>A filling that blocks is final. Once a filling goroutine has blocked inside the filler, in
  every continuation of the run each tick of the metrics blocks before its last line, every
  further filling of frames with points blocks too, and \<open>Stop\<close> never returns.\<close>

theorem blocked_fill_is_final:
  assumes "Init env insOk ifaceOk groupOk nowUS c = Inr (Inr g0)"
    and "gateway_Start insListens rxListens tcpListens g0 = (e, g)" and "gateway_run now g ls g1"
    and "fill_k k g1 = Inl Deadlock" and "gateway_step now g1 (GFill k) g2" and "gateway_run now g2 ls' g'"
  shows "snd (logCurrentStats g') = Some Deadlock \<and> snd (finish_Stop g') = Some Deadlock
       \<and> (\<forall>j < length (rz_started (gateway_reorg g')).
            concat (map (f_Points \<circ> fr_frame) (rz_started (gateway_reorg g') ! j)) \<noteq> [] \<longrightarrow> fill_k j g' = Inl Deadlock)"
proof -
  have "gateway_ok env c any_filler g1"
    using any.gateway_run_ok [OF assms(3) Start_ok [OF assms(2) Init_ok [OF assms(1)]]] .
  then have ok: "gateway_ok env c held_filler g'"
    using held.gateway_run_ok [OF assms(6) blocked_fill_holds [OF assms(5,4)]] by blast
  then have held: "held_filler (gateway_filler g')" and hooks: "hooks_ok env c (g_hooks g')"
    and reorg: "reorg_ok c (gateway_reorg g')"
    by (simp_all add: gateway_ok_def pings_ok_def outer_ok_def)
  have "fill_k j g' = Inl Deadlock"
    if "j < length (rz_started (gateway_reorg g'))" "concat (map (f_Points \<circ> fr_frame) (rz_started (gateway_reorg g') ! j)) \<noteq> []" for j
  proof -
    have "cf_VoidFillEnable c" using reorg that(1) by (auto simp: reorg_ok_def)
    with that hooks show ?thesis
      by (simp add: fill_k_def fill_goroutine_def hooks_ok_def fill_callback_held [OF held] Let_def comp_def del: concat_eq_Nil_conv)
  qed
  then show ?thesis
    using logCurrentStats_stops [OF ok] finish_Stop_held [OF ok] held by simp
qed

text \<open>C26. The metrics. In every state of a started gateway a tick of the metrics logger prints all its
  lines, with the number of cached frames within the limit, unless the receiver's goroutine or
  the filler is blocked, in which case the tick blocks too; the line for the TCP assembler is
  never printed, because the server does not fill in these counters.\<close>

theorem metrics_report:
  assumes "Init env insOk ifaceOk groupOk nowUS c = Inr (Inr g0)"
    and "gateway_Start insListens rxListens tcpListens g0 = (e, g)" and "gateway_run now g ls g'"
  shows "snd (logCurrentStats g') =
           (if sr_stuck (g_sonarRx g') \<or> held_filler (gateway_filler g') then Some Deadlock else None)
       \<and> tcp_assembler_format \<notin> formats (logCurrentStats g')
       \<and> (snd (logCurrentStats g') = None \<longrightarrow>
            (\<exists>n \<le> cf_MaxCacheFrames c. (''  PointCloud: cache=%d frames'', [LI n]) \<in> set (fst (logCurrentStats g'))))"
proof -
  have ok: "gateway_ok env c any_filler g'"
    using any.gateway_run_ok [OF assms(3) Start_ok [OF assms(2) Init_ok [OF assms(1)]]] .
  note stops = logCurrentStats_stops [OF ok]
  have parts: "receiver_ok env (g_sonarRx g')" "ins_ok env (pw_ins (g_pings g'))" "reorg_ok c (gateway_reorg g')"
    using ok by (simp_all add: gateway_ok_def pings_ok_def)
  have line: "(''  PointCloud: cache=%d frames'', [LI (int (length (rz_cache (gateway_reorg g'))))])
      \<in> set (fst (logCurrentStats g'))" if "\<not> sr_stuck (g_sonarRx g')"
    using that by (simp add: logCurrentStats_def receiver_read [OF parts(1)] locked_reads(1) [OF parts(2)]
        locked_reads(4) [OF parts(3)] beam_GetStats_def Let_def del: print_all.simps)
  moreover have "int (length (rz_cache (gateway_reorg g'))) \<le> cf_MaxCacheFrames c"
    using parts(3) by (simp add: reorg_ok_def)
  ultimately show ?thesis
    using stops logCurrentStats_formats [OF ok] by auto
qed

lemma metrics_report_witness:
  "\<exists>g0 g g' n. Init run_env True True True 0 main_config = Inr (Inr g0)
     \<and> gateway_Start True True (Some 1) g0 = (None, g)
     \<and> gateway_run (\<lambda>k. 1700000000000000) g
          [GSonar ReadFailed, GProfile (RJson (marshal_ssp calm_water)), GIns (Datagram ins_frame_a)] g'
     \<and> snd (logCurrentStats g') = None \<and> n \<le> 128
     \<and> (''  PointCloud: cache=%d frames'', [LI n]) \<in> set (fst (logCurrentStats g'))"
proof -
  obtain g0 g g' where run: "Init run_env True True True 0 main_config = Inr (Inr g0)"
    "gateway_Start True True (Some 1) g0 = (None, g)"
    "gateway_run (\<lambda>k. 1700000000000000) g
       [GSonar ReadFailed, GProfile (RJson (marshal_ssp calm_water)), GIns (Datagram ins_frame_a)] g'"
    "\<not> sr_stuck (g_sonarRx g')" "\<not> held_filler (gateway_filler g')"
    using run_example by blast
  have "cf_MaxCacheFrames main_config = 128" by (simp add: main_config_def)
  with metrics_report [OF run(1-3)] run show ?thesis
    by auto
qed

end
