(* ===== verification/Gateway_Filling.thy ===== *)
theory Gateway_Filling
  imports Gateway_Metrics
begin

text \<open>
  Void filling in the running gateway: when the reorganizer starts a filling goroutine, that the
  traffic of the receive loops is a run of the transition system, and what the goroutine's block
  on the filler's mutex comes to for the rest of the run.
\<close>

section \<open>Started fillings\<close>

lemma SubmitFrame_starts:
  assumes "SubmitFrame hooks (Some f) r = Some (Inr r')" and "reorg_holds r' fs" and "rz_autoFillEnabled r"
    and "onVoidFill hooks \<noteq> None" and "f_NumPoints (fr_frame f) \<noteq> 0"
  shows "rz_fillEveryNFrames r' = rz_fillEveryNFrames r" and "set (rz_started r) \<subseteq> set (rz_started r')"
    and "rz_framesSinceFill r + 1 < rz_fillEveryNFrames r \<Longrightarrow> rz_framesSinceFill r' = rz_framesSinceFill r + 1"
    and "rz_framesSinceFill r + 1 \<ge> rz_fillEveryNFrames r \<Longrightarrow> 2 \<le> length fs \<Longrightarrow>
           \<exists>xs \<in> set (rz_started r'). mset xs = mset fs"
proof -
  let ?r2 = "r\<lparr>rz_mu := True, rz_cache := AList.update (ref_ping f) f (rz_cache r),
      rz_frameHeap := heap_Push ref_ts (rz_frameHeap r) f, rz_frameOrder := rz_frameOrder r @ [ref_ping f]\<rparr>"
  have "\<not> rz_mu r" using assms(1) by (auto simp: SubmitFrame_def rz_lock_def)
  then obtain r3 r4 where r3: "evict_loop ?r2 = Some (Inr r3)" and r4: "count_fill hooks r3 = Inr r4" "r' = rz_unlock r4"
    using assms(1,5) by (auto simp: SubmitFrame_def rz_lock_def Let_def split: option.splits sum.splits)
  have view: "rz_autoFillEnabled r3" "rz_started r3 = rz_started r" "rz_fillEveryNFrames r3 = rz_fillEveryNFrames r"
    "rz_framesSinceFill r3 = rz_framesSinceFill r"
    using evict_loop_frame [OF r3] assms(3) by (simp_all add: fill_view_def)
  show "rz_fillEveryNFrames r' = rz_fillEveryNFrames r" "set (rz_started r) \<subseteq> set (rz_started r')"
    "rz_framesSinceFill r + 1 < rz_fillEveryNFrames r \<Longrightarrow> rz_framesSinceFill r' = rz_framesSinceFill r + 1"
    using r4 view assms(4)
    by (auto simp: count_fill_def triggerFillLocked_def rz_unlock_def Let_def split: if_splits sum.splits)
  assume due: "rz_framesSinceFill r + 1 \<ge> rz_fillEveryNFrames r" and two: "2 \<le> length fs"
  have trigger: "triggerFillLocked hooks (r3\<lparr>rz_framesSinceFill := 0\<rparr>) = Inr r4"
    using r4(1) view assms(4) due by (simp add: count_fill_def)
  then have heap: "rz_frameHeap r' = rz_frameHeap r3"
    using r4(2) by (auto simp: triggerFillLocked_def rz_unlock_def split: if_splits sum.splits)
  obtain xs where xs: "heap_drain ref_ts (rz_frameHeap r3) = Inr xs" "mset xs = mset fs"
    using heap_drain_sorted [of ref_ts "rz_frameHeap r'"] assms(2) by (auto simp: heap reorg_holds_def reorg_inv_def)
  moreover have "\<not> length xs < 2"
    using two mset_eq_length [OF xs(2)] by simp
  ultimately have "r4 = r3\<lparr>rz_framesSinceFill := 0, rz_started := rz_started r3 @ [xs]\<rparr>"
    using trigger view assms(4) by (simp add: triggerFillLocked_def)
  with xs(2) show "\<exists>xs \<in> set (rz_started r'). mset xs = mset fs"
    by (simp add: r4(2) rz_unlock_def)
qed

lemma SubmitFrame_keeps_started:
  assumes "SubmitFrame hooks f r = Some (Inr r')"
  shows "set (rz_started r) \<subseteq> set (rz_started r')"
  using assms
  by (auto simp: SubmitFrame_def rz_lock_def rz_unlock_def count_fill_def triggerFillLocked_def fill_view_def Let_def
      dest!: evict_loop_frame split: if_splits option.splits sum.splits)

lemma submit_all_keeps_started:
  "submit_all hooks gs r = Some (Inr r') \<Longrightarrow> set (rz_started r) \<subseteq> set (rz_started r')"
  by (induction gs arbitrary: r) (auto dest!: SubmitFrame_keeps_started split: option.splits sum.splits)

text \<open>Every \<open>k\<close>-th frame starts a filling.\<close>

lemma submit_all_starts:
  assumes "submit_all hooks gs r = Some (Inr r')" and "reorg_holds r fs" and "\<not> rz_mu r" and "distinct_frames (fs @ gs)"
    and "lastn n fs = fs" and "n = nat (rz_maxCacheFrames r)" and "2 \<le> n"
    and "rz_autoFillEnabled r" and "onVoidFill hooks \<noteq> None" and "rz_framesSinceFill r = int s" and "min n s \<le> length fs"
    and "rz_fillEveryNFrames r = int k" and "2 \<le> k" and "s < k" and "k \<le> s + length gs"
  shows "\<exists>xs \<in> set (rz_started r'). xs \<noteq> [] \<and> set xs \<subseteq> set fs \<union> set gs"
  using assms
proof (induction gs arbitrary: r fs s)
  case (Cons g gs)
  let ?fs = "lastn n (fs @ [g])"
  have dist: "distinct_frames (fs @ [g])"
    using Cons.prems(4) by (auto simp: distinct_frames_def)
  obtain r1 where r1: "SubmitFrame hooks (Some g) r = Some (Inr r1)" "\<not> rz_mu r1" "reorg_holds r1 ?fs"
    "rz_maxCacheFrames r1 = rz_maxCacheFrames r"
    using SubmitFrame_holds [OF Cons.prems(2,3) dist, of hooks] Cons.prems(6) by blast
  have rest: "submit_all hooks gs r1 = Some (Inr r')"
    using Cons.prems(1) r1(1) by simp
  have sub: "set ?fs \<subseteq> set fs \<union> {g}"
    using set_drop_subset [of "length (fs @ [g]) - n" "fs @ [g]"] unfolding lastn_def by simp
  have len: "length ?fs = min n (Suc (length fs))"
    by (simp add: lastn_def)
  have points: "f_NumPoints (fr_frame g) \<noteq> 0"
    using dist by (simp add: distinct_frames_def)
  note starts = SubmitFrame_starts [OF r1(1,3) Cons.prems(8,9) points]
  show ?case
  proof (cases "k \<le> Suc s")
    case True
    then have "2 \<le> length ?fs"
      using len Cons.prems(7,11,13) by simp
    then obtain xs where xs: "xs \<in> set (rz_started r1)" "mset xs = mset ?fs"
      using starts(4) True Cons.prems(10,12) by auto
    moreover have "xs \<noteq> []"
      using mset_eq_length [OF xs(2)] \<open>2 \<le> length ?fs\<close> by auto
    ultimately show ?thesis
      using submit_all_keeps_started [OF rest] sub mset_eq_setD [OF xs(2)] by (intro bexI [of _ xs]) auto
  next
    case False
    have "\<exists>xs \<in> set (rz_started r'). xs \<noteq> [] \<and> set xs \<subseteq> set ?fs \<union> set gs"
    proof (rule Cons.IH [OF rest r1(3,2), of "Suc s"])
      show "distinct_frames (?fs @ gs)"
        using distinct_frames_drop [of "fs @ [g]" gs "length (fs @ [g]) - n"] Cons.prems(4) unfolding lastn_def by simp
      show "lastn n ?fs = ?fs"
        using lastn_lastn_append [of n "fs @ [g]" "[]"] by simp
      show "rz_autoFillEnabled r1"
        using SubmitFrame_frame(1) [OF r1(1)] Cons.prems(8) by simp
      show "rz_framesSinceFill r1 = int (Suc s)"
        using starts(3) False Cons.prems(10,12) by simp
      show "min n (Suc s) \<le> length ?fs"
        using len Cons.prems(11) by simp
    qed (use Cons.prems(6,7,9,12-15) r1(4) starts(1) False in auto)
    then show ?thesis
      using sub by auto
  qed
qed simp

section \<open>Traffic is a run\<close>

lemma gateway_run_append:
  "gateway_run now g ls g' \<Longrightarrow> gateway_run now g' ls' g'' \<Longrightarrow> gateway_run now g (ls @ ls') g''"
  by (induction rule: gateway_run.induct) (auto intro: gateway_run.intros)

lemma sonar_loop_runs:
  assumes "receiver_receiveLoop evs (g_sonarRx g, g_pings g) = Some (Inr (rx, w))" and "\<not> sr_stuck (g_sonarRx g)"
  shows "\<exists>ls. gateway_run now g ls (g\<lparr>g_sonarRx := rx, g_pings := w\<rparr>)"
  using assms
proof (induction evs arbitrary: g)
  case Nil
  then have "g\<lparr>g_sonarRx := rx, g_pings := w\<rparr> = g" by auto
  then show ?case by (metis gateway_run.Nil)
next
  case (Cons ev evs)
  show ?case
  proof (cases "sr_running (g_sonarRx g)")
    case False
    with Cons.prems have "g\<lparr>g_sonarRx := rx, g_pings := w\<rparr> = g" by auto
    then show ?thesis by (metis gateway_run.Nil)
  next
    case True
    then obtain rx1 w1 where round: "receiver_round ev (g_sonarRx g, g_pings g) = Some (Inr (rx1, w1))"
      and loop: "receiver_receiveLoop evs (rx1, w1) = Some (Inr (rx, w))"
      using Cons.prems(1) by (auto split: option.splits sum.splits)
    let ?g = "g\<lparr>g_sonarRx := rx1, g_pings := w1\<rparr>"
    have step: "gateway_step now g (GSonar ev) ?g"
      using gateway_step.sonar [OF True Cons.prems(2) round] .
    obtain ls where "gateway_run now ?g ls (?g\<lparr>g_sonarRx := rx, g_pings := w\<rparr>)"
      using Cons.IH [of ?g] loop receiver_round_stuck [OF round] Cons.prems(2) by auto
    with step show ?thesis
      by (auto intro: gateway_run.Cons)
  qed
qed

lemma ins_loop_runs:
  assumes "reader_receiveLoop now evs (pw_ins (g_pings g), fw_outer (pw_frames (g_pings g))) = Some (Inr (ir, o1))"
  shows "\<exists>ls. gateway_run now g ls
           (g\<lparr>g_pings := (g_pings g)\<lparr>pw_ins := ir, pw_frames := (pw_frames (g_pings g))\<lparr>fw_outer := o1\<rparr>\<rparr>\<rparr>)"
  using assms
proof (induction evs arbitrary: g)
  case Nil
  then have "g\<lparr>g_pings := (g_pings g)\<lparr>pw_ins := ir, pw_frames := (pw_frames (g_pings g))\<lparr>fw_outer := o1\<rparr>\<rparr>\<rparr> = g" by auto
  then show ?case by (metis gateway_run.Nil)
next
  case (Cons ev evs)
  show ?case
  proof (cases "ir_running (pw_ins (g_pings g))")
    case False
    with Cons.prems have "g\<lparr>g_pings := (g_pings g)\<lparr>pw_ins := ir, pw_frames := (pw_frames (g_pings g))\<lparr>fw_outer := o1\<rparr>\<rparr>\<rparr> = g"
      by auto
    then show ?thesis by (metis gateway_run.Nil)
  next
    case True
    then obtain ir1 o2 where round: "reader_round now ev (pw_ins (g_pings g), fw_outer (pw_frames (g_pings g))) = Some (Inr (ir1, o2))"
      and loop: "reader_receiveLoop now evs (ir1, o2) = Some (Inr (ir, o1))"
      using Cons.prems(1) by (auto split: option.splits sum.splits)
    let ?g = "g\<lparr>g_pings := (g_pings g)\<lparr>pw_ins := ir1, pw_frames := (pw_frames (g_pings g))\<lparr>fw_outer := o2\<rparr>\<rparr>\<rparr>"
    have step: "gateway_step now g (GIns ev) ?g"
      using gateway_step.ins [OF True round] .
    obtain ls where "gateway_run now ?g ls
        (g\<lparr>g_pings := (g_pings g)\<lparr>pw_ins := ir, pw_frames := (pw_frames (g_pings g))\<lparr>fw_outer := o1\<rparr>\<rparr>\<rparr>)"
      using Cons.IH [of ?g] loop by auto
    with step show ?thesis
      by (auto intro: gateway_run.Cons)
  qed
qed

lemma traffic_runs:
  assumes "traffic now ics scs g = Some (Inr g')" and "\<not> sr_stuck (g_sonarRx g)"
  shows "\<exists>ls. gateway_run now g ls g'"
proof -
  obtain ir o1 where ins: "reader_receiveLoop now (map Datagram ics) (pw_ins (g_pings g), fw_outer (pw_frames (g_pings g)))
      = Some (Inr (ir, o1))"
    and sonar: "receive_sonar scs (g\<lparr>g_pings := (g_pings g)\<lparr>pw_ins := ir,
      pw_frames := (pw_frames (g_pings g))\<lparr>fw_outer := o1\<rparr>\<rparr>\<rparr>) = Some (Inr g')"
    using assms(1) by (auto simp: traffic_def receive_ins_def Let_def split: option.splits sum.splits)
  let ?g = "g\<lparr>g_pings := (g_pings g)\<lparr>pw_ins := ir, pw_frames := (pw_frames (g_pings g))\<lparr>fw_outer := o1\<rparr>\<rparr>\<rparr>"
  obtain rx w where loop: "receiver_receiveLoop (map Datagram scs) (g_sonarRx ?g, g_pings ?g) = Some (Inr (rx, w))"
    and g': "g' = ?g\<lparr>g_sonarRx := rx, g_pings := w\<rparr>"
    using sonar by (auto simp: receive_sonar_def split: option.splits sum.splits)
  have "\<not> sr_stuck (g_sonarRx ?g)" using assms(2) by simp
  from sonar_loop_runs [OF loop this] ins_loop_runs [OF ins] show ?thesis
    unfolding g' by (blast intro: gateway_run_append)
qed

section \<open>The default configuration blocks\<close>

text \<open>After enough traffic a filling is started, and it blocks.\<close>

lemma traffic_starts_filling:
  assumes "Init env insOk ifaceOk groupOk nowUS c = Inr (Inr g0)"
    and "gateway_Start insListens rxListens tcpListens g0 = (None, g)"
    and "ins_stream now 0 fs" and "fs \<noteq> []" and "concat ics = concat fs" and "\<forall>d \<in> set ics. length d \<le> 992"
    and "list_all (framed_ping MaxFrameSize) pps" and "concat scs = concat (map ping_frame pps)"
    and "\<forall>d \<in> set scs. length d \<le> 65535"
    and "\<forall>p \<in> set pps. p_Beams (fst p) \<noteq> []" and "distinct (map (p_PingCounter \<circ> fst) pps)"
    and "cf_VoidFillEnable c" and "2 \<le> cf_MaxCacheFrames c" and "2 \<le> cf_VoidFillEveryNFrames c"
    and "cf_VoidFillEveryNFrames c \<le> int (length pps)"
  obtains g' j where "traffic now ics scs g = Some (Inr g')" and "j < length (rz_started (gateway_reorg g'))"
    and "fill_k j g' = Inl Deadlock"
proof -
  let ?refs = "ping_refs 0 (bp_rayTracer (pw_beam (g_pings g))) (parse_ins_frame (last fs)) (map fst pps)"
    and ?r = "gateway_reorg g0" and ?n = "nat (cf_MaxCacheFrames c)" and ?k = "nat (cf_VoidFillEveryNFrames c)"
  note init = Init_facts [OF assms(1)] and fill = Init_fill [OF assms(1)]
  obtain g' where g': "traffic now ics scs g = Some (Inr g')" "g_hooks g' = g_hooks g0"
    "gateway_filler g' = gateway_filler g0" "submit_all (g_hooks g0) ?refs ?r = Some (Inr (gateway_reorg g'))"
    by (rule traffic_facts [OF assms(1-11)])
  have refs: "distinct_frames ?refs"
    using assms(10,11) by (intro ping_refs_distinct) (auto simp: comp_def)
  have points: "f_Points f \<noteq> []" if "f \<in> fr_frame ` set ?refs" for f
  proof -
    have "f \<in> set (map fr_frame ?refs)" using that by simp
    then show ?thesis
      using assms(10) unfolding ping_refs_facts by (fastforce simp: frame_points)
  qed
  have "\<exists>xs \<in> set (rz_started (gateway_reorg g')). xs \<noteq> [] \<and> set xs \<subseteq> set [] \<union> set ?refs"
    using g'(4) init(1,2) refs assms(12-15) fill(1,3,5,6)
    by (intro submit_all_starts [where n = ?n and k = ?k and s = 0])
      (auto simp: init(3) ping_refs_facts lastn_def)
  then obtain j xs where j: "j < length (rz_started (gateway_reorg g'))" "rz_started (gateway_reorg g') ! j = xs"
    "xs \<noteq> []" "set xs \<subseteq> set ?refs"
    by (auto simp: in_set_conv_nth)
  have "fill_callback env (map fr_frame xs) (fw_outer (pw_frames (g_pings g'))) = Inl Deadlock"
    using j(3,4) points fill(4) assms(12) g'(3) by (intro fresh_filler_blocks) auto
  then have "fill_k j g' = Inl Deadlock"
    using j(2) fill(3) assms(12) g'(2) by (simp add: fill_k_def fill_goroutine_def Let_def)
  with that g'(1) j(1) show ?thesis by blast
qed

text \<open>C4. Void filling blocks the gateway. With void filling enabled, once as many pings were received
  as start a filling, that filling is a step of the gateway which blocks inside the filler, and
  in every continuation of the run, whatever arrives, every tick of the metrics blocks before
  its end and \<open>Stop\<close> never returns. (Grids are those of the model, see \<open>grid_fits\<close>.)\<close>

theorem filling_blocks_gateway:
  assumes "Init env insOk ifaceOk groupOk nowUS c = Inr (Inr g0)"
    and "gateway_Start insListens rxListens tcpListens g0 = (None, g)"
    and "ins_stream now 0 fs" and "fs \<noteq> []" and "concat ics = concat fs" and "\<forall>d \<in> set ics. length d \<le> 992"
    and "list_all (framed_ping MaxFrameSize) pps" and "concat scs = concat (map ping_frame pps)"
    and "\<forall>d \<in> set scs. length d \<le> 65535"
    and "\<forall>p \<in> set pps. p_Beams (fst p) \<noteq> []" and "distinct (map (p_PingCounter \<circ> fst) pps)"
    and "cf_VoidFillEnable c" and "2 \<le> cf_MaxCacheFrames c" and "2 \<le> cf_VoidFillEveryNFrames c"
    and "cf_VoidFillEveryNFrames c \<le> int (length pps)"
  shows "\<exists>ls g1 j g2. gateway_run now g ls g1 \<and> traffic now ics scs g = Some (Inr g1) \<and> gateway_step now g1 (GFill j) g2
           \<and> (\<forall>ls' g'. gateway_run now g2 ls' g' \<longrightarrow>
                snd (logCurrentStats g') = Some Deadlock \<and> snd (finish_Stop g') = Some Deadlock)"
proof -
  obtain g1 j where g1: "traffic now ics scs g = Some (Inr g1)" "j < length (rz_started (gateway_reorg g1))"
    "fill_k j g1 = Inl Deadlock"
    by (rule traffic_starts_filling [OF assms])
  have "\<not> sr_stuck (g_sonarRx g)"
    using Start_facts(2) [OF assms(2) Init_reader(8) [OF assms(1)] Init_receiver(4) [OF assms(1)]] Init_receiver(6) [OF assms(1)]
    by simp
  then obtain ls where ls: "gateway_run now g ls g1"
    using traffic_runs [OF g1(1)] by blast
  obtain g2 where g2: "gateway_step now g1 (GFill j) g2"
    using gateway_step.fill_blocks [OF g1(2,3) refl refl] by blast
  show ?thesis
    using ls g1(1) g2 blocked_fill_is_final [OF assms(1,2) ls g1(3) g2] by blast
qed

definition fill_config :: GatewayConfig where
  "fill_config = main_config\<lparr>cf_VoidFillEveryNFrames := 2\<rparr>"

lemma filling_blocks_gateway_witness:
  "\<exists>g0 g g1 j g2. Init run_env True True True 0 fill_config = Inr (Inr g0)
     \<and> gateway_Start True True (Some 1) g0 = (None, g)
     \<and> traffic (\<lambda>k. 1700000000000000) run_ins run_sonar g = Some (Inr g1)
     \<and> gateway_step (\<lambda>k. 1700000000000000) g1 (GFill j) g2 \<and> snd (logCurrentStats g2) = Some Deadlock
     \<and> snd (finish_Stop g2) = Some Deadlock"
proof -
  have cache: "0 \<le> cf_MaxCacheFrames fill_config"
    by (simp add: fill_config_def main_config_def)
  obtain g0 g where run: "Init run_env True True True 0 fill_config = Inr (Inr g0)"
    "gateway_Start True True (Some 1) g0 = (None, g)"
    by (rule run_starts [OF cache])
  have "cf_VoidFillEnable fill_config" "2 \<le> cf_MaxCacheFrames fill_config" "cf_VoidFillEveryNFrames fill_config = 2"
    by (simp_all add: fill_config_def main_config_def)
  with filling_blocks_gateway [OF run run_ins_facts(1) _ run_ins_facts(2,3) run_sonar_facts(1-5)] run_sonar_facts(6)
  obtain ls g1 j g2 where "traffic (\<lambda>k. 1700000000000000) run_ins run_sonar g = Some (Inr g1)"
    "gateway_step (\<lambda>k. 1700000000000000) g1 (GFill j) g2"
    "\<forall>ls' g'. gateway_run (\<lambda>k. 1700000000000000) g2 ls' g' \<longrightarrow>
       snd (logCurrentStats g') = Some Deadlock \<and> snd (finish_Stop g') = Some Deadlock"
    by auto
  with run gateway_run.Nil [of _ g2] show ?thesis by blast
qed

end
