(* ===== verification/Spec2Isabelle.thy ===== *)
theory Spec2Isabelle
  imports Assembler_Drain Gateway_Filling
begin

text \<open>
  A model of the AUV sonar gateway, a Go program that receives sonar pings over UDP multicast and
  TCP and navigation records over UDP, turns each ping into georeferenced soundings, caches and
  reorders the resulting frames, fills holes in the sea floor by kriging, and publishes through
  Redis.

  \<^bold>\<open>How the program works.\<close> Bytes from a socket go into a sliding-window assembler, which finds
  framed packets; a safe processor checks each packet, decodes it and hands the ping on. The ping
  handler of the gateway publishes the ping and gives it to the beam processor, which takes the
  latest navigation record, traces each beam through the sound-speed profile, and transforms it to
  a sounding. The frame of soundings goes to the reorganizer, which keeps the latest frames in a
  map and a heap, evicts the oldest, and every so often starts a goroutine that fills void cells.
  Ready frames and filled points are published. \<open>Stop\<close> flushes what is cached.

  \<^bold>\<open>Theories and sources.\<close> A record, datatype or operation has the name it has in the source; a
  prefix tells apart operations of the same name (\<open>ins_Feed\<close>, \<open>safe_Feed\<close>, \<open>tcp_Start\<close>).

  \<^item> \<open>Gateway_Prelude\<close>: machine integers as words, slices and \<open>copy\<close>, byte orders, and the type
    \<open>'a go\<close> of computations that return, panic, or block for ever on a mutex.
  \<^item> \<open>Sonar_Model\<close>: the records of \<open>internal/model\<close>, and the interpolation of profiles.
  \<^item> \<open>Byte_Reader\<close>, \<open>Frame_Assembler\<close>, \<open>Frame_Validation\<close>, \<open>Safe_Processor\<close>: \<open>assembler.go\<close> and
    \<open>safe_processor.go\<close> of \<open>internal/framing\<close>. \<open>Stream_Spec\<close> is the contract: a parser of byte
    streams without buffers. \<open>Assembler_Correct\<close>, \<open>Assembler_Streams\<close>, \<open>Assembler_Drain\<close> have the
    invariant of the buffer, the refinement of the parser by \<open>Feed\<close>, and what whole streams deliver.
  \<^item> \<open>Bit_Reader\<close>, \<open>Packet_Decoder\<close>: \<open>internal/uper/decoder.go\<close>, with the encoder that the round
    trips are stated against.
  \<^item> \<open>Sonar_Pipeline\<close>: framing and decoder together, as the receivers use them.
  \<^item> \<open>INS_Processor\<close>, \<open>INS_Correct\<close>, \<open>INS_Reader\<close>: \<open>internal/framing/ins_processor.go\<close> and
    \<open>internal/ins/reader.go\<close>.
  \<^item> \<open>Sonar_Receiver\<close>, \<open>TCP_Server\<close>, \<open>TCP_Correct\<close>: \<open>internal/multicast/receiver.go\<close>, and
    \<open>internal/tcp/server.go\<close> as a transition system of accept loops, sessions and calls of \<open>Stop\<close>.
  \<^item> \<open>Ray_Tracer\<close>, \<open>Transform\<close>, \<open>Beam_Processor\<close>: \<open>internal/ssp\<close>, \<open>internal/coord\<close>, \<open>internal/beam\<close>.
  \<^item> \<open>Go_Heap\<close>, \<open>Reorganizer\<close>, \<open>Reorganizer_Correct\<close>: \<open>container/heap\<close> as used by, and
    \<open>internal/pointcloud/reorganizer.go\<close>. Frames are pointers, an address with its contents.
  \<^item> \<open>Variogram\<close>, \<open>Quick_Select\<close>, \<open>Linear_Solver\<close>, \<open>Kriging\<close>: \<open>internal/kriging\<close>.
  \<^item> \<open>Spatial_Grid\<close>, \<open>Grid_Correct\<close>, \<open>Void_Filler\<close>, \<open>Filler_Correct\<close>: \<open>internal/voidfill\<close>.
  \<^item> \<open>Json_Payloads\<close>, \<open>Redis_Hub\<close>, \<open>Redis_Correct\<close>: \<open>internal/redis/hub.go\<close> over a client that is a
    parameter, with the documented meaning of the commands as hypotheses where they are needed.
  \<^item> \<open>Gateway\<close>, \<open>Gateway_Correct\<close>, \<open>Gateway_Steps\<close>, \<open>Gateway_Metrics\<close>, \<open>Gateway_Filling\<close>:
    \<open>cmd/gateway/main.go\<close>. The handlers share one state; the running gateway is a transition system
    whose steps are a datagram, a profile message, a TCP event, or a filling goroutine, in any order.

  \<^bold>\<open>What is shown.\<close> Framing and decoding deliver exactly the pings of a well-formed stream, however
  it is cut, and the decoder inverts the encoder both ways. The navigation processor delivers only
  plausible records. The reorganizer keeps the latest frames within its limit and hands them out
  in order of time. Kriging weights sum to one and reproduce samples, the solver returns the only
  solution, and a filling turns void cells, and no others, into interpolated ones. From sockets to reorganizer the parts
  compose: the frames cached are those of the latest pings, traced with the last record. Every
  reachable state of the gateway is well-formed, and no step from it panics or loops, as long as the
  grids of its fillings fit into memory (\<open>fill_fits\<close>). The limit of \<open>maxConns\<close> bounds the live
  sessions only while no address is reused before its session has ended (\<open>connection_limit\<close>,
  \<open>reused_address_exceeds_limit\<close>). The navigation processor keeps all records of reads of at most
  992 bytes; a longer one may overrun its window and is then dropped (\<open>ins_large_read_dropped\<close>).
  Several theorems state where the program does not do what it is meant to: the callbacks that
  lock a mutex their caller holds (\<open>safe_Feed_deadlocks\<close>, \<open>blocked_session_blocks_Stop\<close>,
  \<open>filling_blocks_gateway\<close>, \<open>stop_after_traffic_deadlocks\<close>), frame checks that do not fit the packet
  format (\<open>large_pings_are_rejected\<close>), soundings without depth (\<open>level_pings_map_flat\<close>), and frames
  stored where they are not looked for (\<open>published_frame_lookup\<close>, \<open>reused_counter_replaces_frame\<close>).

  \<^bold>\<open>Interfaces.\<close> \<open>locked_callbacks\<close> (in \<open>Assembler_Correct\<close>) is what \<open>Feed\<close> asks of callbacks that run
  under its mutex; it is interpreted for any pair of effects, for a recorder of events, and for
  the safe processor. \<open>priority_queue\<close> (in \<open>Go_Heap\<close>) is what the reorganizer asks of its heap,
  interpreted by the sift operations. \<open>filler_contract\<close> (in \<open>Gateway_Steps\<close>) is what a run asks of
  a property of the void filler, interpreted for no property and for a held mutex.

  \<^bold>\<open>Loops.\<close> The loops whose end depends on an invariant (\<open>runStateMachineLocked\<close>, \<open>processLocked\<close>,
  \<open>evict_loop\<close>) are partial functions whose value \<open>None\<close> is a loop that does not end; that they
  return is proved from the invariant. The other loops recurse on a list or with a measure.
  There is no fuel. Receive loops run over the list of what the socket returns until it is closed.

  \<^bold>\<open>Mutexes.\<close> A mutex is a flag; locking it twice in one goroutine is \<open>Inl Deadlock\<close>. A goroutine
  that blocks leaves its mutex locked: a blocked session, receiver or filling is a state from
  which the others go on. Mutexes that guard only a few assignments and are never held across a
  call are left out.

  \<^bold>\<open>Not modelled.\<close>
  \<^item> Rounding: \<open>float64\<close> values are exact reals, and the functions of \<open>math\<close> the exact ones. Where the
    source tests for NaN, NaN is a value of its own; infinities do not occur. So the model speaks of
    the code where the code's own operations stay finite. Outside it are: a variogram with
    \<open>AnisoRatio\<close> 0 (a division by zero in \<open>AnisotropicDistance\<close>; the theorems of \<open>Kriging\<close> assume that
    it is not 0), layers of the profile without a positive sound speed in \<open>trace_layers\<close>, and a cell
    size of 0. Where a theorem can do without such a condition its text says so.
  \<^item> The size of allocations. A grid has as many cells as its points ask for, where \<open>make\<close> panics
    beyond what the machine addresses. \<open>grid_fits\<close> and \<open>fill_fits\<close> say which grids and fillings
    are within it; the claims that a filling does not panic have them as premises.
  \<^item> The network, Redis, the clock and the file descriptors: what they return is a parameter or an
    event. Expiry of keys and reconnection delays are left out.
  \<^item> Log output other than the metrics and the final statistics, debug printing, and the signal
    handling of \<open>main\<close>.
  \<^item> Interleaving inside a step: a datagram, a message or a filling is handled as a whole, so races
    on data without a mutex (\<open>vf.grid\<close> in \<open>FillFrames\<close>, handlers set while a goroutine runs) are not
    shown. When a read blocks, the pings it delivered before are not part of the state, and
    neither is what a blocked filling had computed.
  \<^item> The wait of \<open>INSReader.Stop\<close> for its goroutine, which always returns, and a second call of
    \<open>Gateway.Stop\<close>, which would close a closed channel. The listener of the hub, which lives inside
    the state its handler works on, has a hub of its own (\<open>g_ssp\<close>).
\<close>

end
